(* ===== verification/Mux_Prelude.thy ===== *)
theory Mux_Prelude
  imports Main "HOL-Library.Word"
begin

text \<open>
  Shared vocabulary of the development: the C integer types of the mux core as
  word types, the wire constants of \<^verbatim>\<open>mux/mux.h\<close>, byte-array
  reads and writes, and the generic facts on words and lists that the component
  theories use.

  Conventions.  \<^verbatim>\<open>uint_least8_t\<close>, \<^verbatim>\<open>uint_least16_t\<close> and
  \<^verbatim>\<open>uint_least32_t\<close> fields are words of that width, so their
  arithmetic wraps as in C; the \<^verbatim>\<open>uint_fast\<close> types are 64 bits
  wide on the modelled target (x86-64, glibc).  \<^verbatim>\<open>size_t\<close> counters
  are natural numbers; where the code guards against \<^verbatim>\<open>SIZE_MAX\<close>
  the guard is written out.  An array of bytes is a list of 8-bit words.
\<close>

unbundle bit_operations_syntax

named_theorems mux_consts \<open>values of the wire and window constants\<close>
named_theorems mux_defs \<open>operations unfolded by the component proofs\<close>

section \<open>Integer types\<close>

type_synonym u8 = "8 word"
type_synonym u16 = "16 word"
type_synonym u32 = "32 word"
type_synonym ufast = "64 word"

section \<open>Constants\<close>

definition SIZE_MAX :: nat where
  "SIZE_MAX = 2 ^ 64 - 1"

definition INT32_MAX :: nat where
  "INT32_MAX = 2 ^ 31 - 1"

definition MUX_FRAME_HEADER_SIZE :: nat where
  "MUX_FRAME_HEADER_SIZE = 8"

definition MUX_MAX_PAYLOAD_SIZE :: nat where
  "MUX_MAX_PAYLOAD_SIZE = 65535"

definition MUX_WINDOW_UNIT :: nat where
  "MUX_WINDOW_UNIT = 16384"

definition STREAMID_CTRL :: u16 where
  "STREAMID_CTRL = 0"

lemmas [mux_consts] =
  SIZE_MAX_def INT32_MAX_def MUX_FRAME_HEADER_SIZE_def MUX_MAX_PAYLOAD_SIZE_def
  MUX_WINDOW_UNIT_def STREAMID_CTRL_def

section \<open>Byte arrays\<close>

text \<open>A store of \<^term>\<open>bs\<close> at offset \<^term>\<open>off\<close> of an array: what
  \<^verbatim>\<open>memcpy\<close> or \<^verbatim>\<open>memmove\<close> leaves there when the bytes fit.\<close>

definition store_at :: "u8 list \<Rightarrow> nat \<Rightarrow> u8 list \<Rightarrow> u8 list" where
  "store_at buf off bs = take off buf @ bs @ drop (off + length bs) buf"

lemma length_store_at [simp]:
  "off + length bs \<le> length buf \<Longrightarrow> length (store_at buf off bs) = length buf"
  by (simp add: store_at_def)

lemma take_store_at:
  "off \<le> length buf \<Longrightarrow> n \<le> off \<Longrightarrow> take n (store_at buf off bs) = take n buf"
  by (simp add: store_at_def)

lemma take_store_at_end:
  "off \<le> length buf \<Longrightarrow> take (off + length bs) (store_at buf off bs) = take off buf @ bs"
  by (simp add: store_at_def)

lemma drop_store_at:
  assumes "off + length bs \<le> n" "off \<le> length buf"
  shows "drop n (store_at buf off bs) = drop n buf"
proof -
  have "min (length buf) off = off"
    using assms by simp
  then show ?thesis
    using assms by (simp add: store_at_def)
qed

section \<open>Words\<close>

lemma ucast_down_up_id [simp]:
  fixes w :: "'a::len word"
  assumes "LENGTH('a) \<le> LENGTH('b::len)"
  shows "(ucast (ucast w :: 'b word) :: 'a word) = w"
  using assms by (auto intro!: bit_word_eqI simp: bit_simps)

lemma unat_ucast_up [simp]:
  fixes w :: "'a::len word"
  assumes "LENGTH('a) \<le> LENGTH('b::len)"
  shows "unat (ucast w :: 'b word) = unat w"
proof -
  have "unat w < 2 ^ LENGTH('b)"
    by (rule less_le_trans [OF unsigned_less]) (simp add: assms)
  then show ?thesis
    by (simp add: unsigned_ucast_eq take_bit_nat_eq_self)
qed

lemma ucast_up_eq_0 [simp]:
  fixes w :: "'a::len word"
  assumes "LENGTH('a) \<le> LENGTH('b::len)"
  shows "(ucast w :: 'b word) = 0 \<longleftrightarrow> w = 0"
  by (metis assms ucast_down_up_id unsigned_0)

lemma unat_diff_wrap:
  fixes a b :: "'a::len word"
  shows "unat (a - b) = (unat a + 2 ^ LENGTH('a) - unat b) mod 2 ^ LENGTH('a)"
proof (cases "unat b \<le> unat a")
  case True
  then have "unat a + 2 ^ LENGTH('a) - unat b = (unat a - unat b) + 2 ^ LENGTH('a)"
    by simp
  moreover have "unat a - unat b < 2 ^ LENGTH('a)"
    using unsigned_less [of a] by (rule le_less_trans [rotated]) simp
  ultimately show ?thesis
    using True by (simp only: unat_sub_if' if_True mod_add_self2 mod_less)
next
  case False
  moreover have "unat a < 2 ^ LENGTH('a)" "unat b < 2 ^ LENGTH('a)"
    by (rule unsigned_less)+
  ultimately have "unat a + 2 ^ LENGTH('a) - unat b < 2 ^ LENGTH('a)"
    by linarith
  then show ?thesis
    using False by (simp add: unat_sub_if')
qed

lemma ucast_down_add:
  fixes a b :: "'a::len word"
  assumes "LENGTH('b::len) \<le> LENGTH('a)"
  shows "(ucast (a + b) :: 'b word) = ucast a + ucast b"
proof -
  have "take_bit LENGTH('b) (take_bit LENGTH('a) (x + y)) =
      take_bit LENGTH('b) (take_bit LENGTH('a) x + take_bit LENGTH('a) y)" for x y :: int
    using assms by (metis min.absorb1 take_bit_add take_bit_take_bit)
  then show ?thesis
    by transfer
qed

lemma ucast_down_diff:
  fixes a b :: "'a::len word"
  assumes "LENGTH('b::len) \<le> LENGTH('a)"
  shows "(ucast (a - b) :: 'b word) = ucast a - ucast b"
proof -
  have "take_bit LENGTH('b) (take_bit LENGTH('a) (x - y)) =
      take_bit LENGTH('b) (take_bit LENGTH('a) x - take_bit LENGTH('a) y)" for x y :: int
    using assms by (metis min.absorb1 take_bit_diff take_bit_take_bit)
  then show ?thesis
    by transfer
qed

section \<open>Naturals\<close>

lemma add_mod_inj:
  fixes h i j c :: nat
  assumes "(h + i) mod c = (h + j) mod c" "i < c" "j < c"
  shows "i = j"
proof -
  have "i = j" if "i \<le> j" "j < c" "(h + i) mod c = (h + j) mod c" for i j
  proof -
    have "c dvd (h + j) - (h + i)"
      using that by (metis add_le_cancel_left mod_eq_dvd_iff_nat)
    then show ?thesis
      using that by (auto dest: dvd_imp_le)
  qed
  then show ?thesis
    using assms by (metis nat_le_linear)
qed

end
