(* ===== verification/Serial.thy ===== *)
theory Serial
  imports Mux_Prelude
begin

text \<open>
  Serial-number arithmetic (RFC 1982) of
  \<^verbatim>\<open>contrib/csnippets/binary/serial.h\<close>: the 16-bit space numbers
  streams, the 32-bit space numbers the frames of a session.  The arguments and
  results are \<^verbatim>\<open>uint_fast\<close> values, masked as the code masks them.
  The lemmas characterise the circular order by the addition it is defined from
  and relate both to wrapping words of the serial's own width.
\<close>

definition serial_add16 :: "ufast \<Rightarrow> ufast \<Rightarrow> ufast" where
  "serial_add16 s n = (s + n) AND 0xFFFF"

definition serial_lt16 :: "ufast \<Rightarrow> ufast \<Rightarrow> bool" where
  "serial_lt16 i1 i2 = (let d = (i2 - i1) AND 0xFFFF in d \<noteq> 0 \<and> d < push_bit 15 1)"

definition serial_gt16 :: "ufast \<Rightarrow> ufast \<Rightarrow> bool" where
  "serial_gt16 i1 i2 = serial_lt16 i2 i1"

definition serial_add32 :: "ufast \<Rightarrow> ufast \<Rightarrow> ufast" where
  "serial_add32 s n = (s + n) AND 0xFFFFFFFF"

definition serial_lt32 :: "ufast \<Rightarrow> ufast \<Rightarrow> bool" where
  "serial_lt32 i1 i2 = (let d = (i2 - i1) AND 0xFFFFFFFF in d \<noteq> 0 \<and> d < push_bit 31 1)"

definition serial_gt32 :: "ufast \<Rightarrow> ufast \<Rightarrow> bool" where
  "serial_gt32 i1 i2 = serial_lt32 i2 i1"

section \<open>The masked operations as wrapping words\<close>

lemma mask16: "(w :: ufast) AND 0xFFFF = take_bit 16 w"
proof -
  have "(0xFFFF :: ufast) = mask 16"
    by (simp add: mask_eq_exp_minus_1)
  then show ?thesis
    by (simp add: take_bit_eq_mask)
qed

lemma mask32: "(w :: ufast) AND 0xFFFFFFFF = take_bit 32 w"
proof -
  have "(0xFFFFFFFF :: ufast) = mask 32"
    by (simp add: mask_eq_exp_minus_1)
  then show ?thesis
    by (simp add: take_bit_eq_mask)
qed

lemma take_bit_ucast_16: "take_bit 16 (w :: ufast) = ucast (ucast w :: u16)"
  by (rule bit_word_eqI) (auto simp: bit_simps)

lemma take_bit_ucast_32: "take_bit 32 (w :: ufast) = ucast (ucast w :: u32)"
  by (rule bit_word_eqI) (auto simp: bit_simps)

lemma serial_add32_word:
  "ucast (serial_add32 (ucast (a :: u32)) n) = a + ucast n"
  by (simp add: serial_add32_def mask32 take_bit_ucast_32 ucast_down_add)

lemma serial_add16_word:
  "ucast (serial_add16 (ucast (a :: u16)) n) = a + ucast n"
  by (simp add: serial_add16_def mask16 take_bit_ucast_16 ucast_down_add)

lemma serial_lt32_word:
  "serial_lt32 (ucast (a :: u32)) (ucast b) \<longleftrightarrow> a \<noteq> b \<and> unat (b - a) < 2 ^ 31"
  by (auto simp: serial_lt32_def mask32 take_bit_ucast_32 ucast_down_diff Let_def word_less_nat_alt)

lemma serial_lt16_word:
  "serial_lt16 (ucast (a :: u16)) (ucast b) \<longleftrightarrow> a \<noteq> b \<and> unat (b - a) < 2 ^ 15"
  by (auto simp: serial_lt16_def mask16 take_bit_ucast_16 ucast_down_diff Let_def word_less_nat_alt)

section \<open>The order of the serial space\<close>

lemma unat_diff_flip_32:
  fixes a b :: u32
  assumes "a \<noteq> b"
  shows "unat (a - b) + unat (b - a) = 2 ^ 32"
proof -
  have "unat a \<noteq> unat b" "unat a < 2 ^ 32" "unat b < 2 ^ 32"
    using assms unsigned_less [of a] unsigned_less [of b] by (simp_all add: word_unat_eq_iff)
  then show ?thesis
    by (auto simp: unat_sub_if')
qed

lemma half_space_32: "b = a + 2 ^ 31 \<longleftrightarrow> unat (b - a) = 2 ^ 31" for a b :: u32
proof -
  have "b = a + 2 ^ 31 \<longleftrightarrow> b - a = 2 ^ 31"
    by (auto simp: algebra_simps)
  then show ?thesis
    by (simp add: word_unat_eq_iff)
qed

text \<open>C14. The order on 32-bit serials is the one its addition generates: one serial
  precedes another exactly when a positive increment below \<open>2 ^ 31\<close> leads
  from the first to the second.\<close>

theorem serial_lt32_iff_add:
  "serial_lt32 (ucast (a :: u32)) (ucast (b :: u32)) \<longleftrightarrow>
    (\<exists>n. 0 < n \<and> n < 2 ^ 31 \<and> ucast b = serial_add32 (ucast a) n)"
proof
  assume "serial_lt32 (ucast a) (ucast b)"
  then have d: "a \<noteq> b" "unat (b - a) < 2 ^ 31"
    by (simp_all add: serial_lt32_word)
  let ?n = "ucast (b - a) :: ufast"
  have "ucast b = serial_add32 (ucast a) ?n"
    by (simp add: serial_add32_def mask32 take_bit_ucast_32 ucast_down_add)
  moreover have "0 < ?n" "?n < 2 ^ 31"
    using d by (simp_all add: word_less_nat_alt unat_gt_0)
  ultimately show "\<exists>n. 0 < n \<and> n < 2 ^ 31 \<and> ucast b = serial_add32 (ucast a) n"
    by blast
next
  assume "\<exists>n. 0 < n \<and> n < 2 ^ 31 \<and> ucast b = serial_add32 (ucast a) n"
  then obtain n where n: "0 < n" "n < 2 ^ 31" "ucast b = serial_add32 (ucast a) n"
    by blast
  have "b = a + ucast n"
    using arg_cong [OF n(3), of "ucast :: ufast \<Rightarrow> u32"] by (simp add: serial_add32_word)
  moreover have "unat (ucast n :: u32) = unat n"
    using n(2) by (simp add: unsigned_ucast_eq take_bit_nat_eq_self word_less_nat_alt)
  moreover have "0 < unat n" "unat n < 2 ^ 31"
    using n(1,2) by (simp_all add: word_less_nat_alt)
  ultimately show "serial_lt32 (ucast a) (ucast b)"
    by (auto simp: serial_lt32_word)
qed

text \<open>C15. The comparisons of two 32-bit serials are total up to the one undecided case:
  exactly one of before, after, equal and half the number space apart holds.\<close>

theorem serial32_tetrachotomy:
  "length (filter id
    [serial_lt32 (ucast (a :: u32)) (ucast b), serial_gt32 (ucast a) (ucast b),
     a = b, b = a + 2 ^ 31]) = 1"
  using unat_diff_flip_32 [of a b]
  by (cases "a = b") (auto simp: serial_gt32_def serial_lt32_word half_space_32 [simplified])

end
