(* ===== verification/Frame.thy ===== *)
theory Frame
  imports Mux_Prelude
begin

text \<open>
  Frames of the wire protocol (\<^verbatim>\<open>mux/frame.h\<close>,
  \<^verbatim>\<open>mux/frame.c\<close>): the big-endian serializers of
  \<^verbatim>\<open>contrib/csnippets/binary/serialize.h\<close>, the eight-byte header and
  its codec, the flag and status constants, the frame object and its pool.  An
  outbound frame object may hold several concatenated wire frames; their
  reference parser \<open>subframes\<close> at the end of the theory is what the
  unacked log and the send queue are specified by.
\<close>

section \<open>Serializers\<close>

definition read_uint8 :: "u8 list \<Rightarrow> ufast" where
  "read_uint8 b = ucast (b ! 0)"

definition write_uint8 :: "ufast \<Rightarrow> u8 list" where
  "write_uint8 v = [ucast v]"

definition read_uint16 :: "u8 list \<Rightarrow> ufast" where
  "read_uint16 b = push_bit 8 (ucast (b ! 0)) OR ucast (b ! 1)"

definition write_uint16 :: "ufast \<Rightarrow> u8 list" where
  "write_uint16 v = [ucast (drop_bit 8 v), ucast v]"

definition read_uint64 :: "u8 list \<Rightarrow> ufast" where
  "read_uint64 b =
    push_bit 56 (ucast (b ! 0)) OR push_bit 48 (ucast (b ! 1)) OR
    push_bit 40 (ucast (b ! 2)) OR push_bit 32 (ucast (b ! 3)) OR
    push_bit 24 (ucast (b ! 4)) OR push_bit 16 (ucast (b ! 5)) OR
    push_bit 8 (ucast (b ! 6)) OR ucast (b ! 7)"

definition write_uint64 :: "ufast \<Rightarrow> u8 list" where
  "write_uint64 v =
    [ucast (drop_bit 56 v), ucast (drop_bit 48 v), ucast (drop_bit 40 v), ucast (drop_bit 32 v),
     ucast (drop_bit 24 v), ucast (drop_bit 16 v), ucast (drop_bit 8 v), ucast v]"

section \<open>Flags and status codes\<close>

definition MUX_PROTOCOL_VERSION :: u8 where "MUX_PROTOCOL_VERSION = 0x01"

definition MUX_FLAG_FIN :: u8 where "MUX_FLAG_FIN = 0x01"
definition MUX_FLAG_SYN :: u8 where "MUX_FLAG_SYN = 0x02"
definition MUX_FLAG_RST :: u8 where "MUX_FLAG_RST = 0x04"
definition MUX_FLAG_PUSH :: u8 where "MUX_FLAG_PUSH = 0x08"
definition MUX_FLAG_ACK :: u8 where "MUX_FLAG_ACK = 0x10"

definition MUX_FLAG_MASK :: u8 where
  "MUX_FLAG_MASK = MUX_FLAG_FIN OR MUX_FLAG_SYN OR MUX_FLAG_RST OR MUX_FLAG_PUSH OR MUX_FLAG_ACK"

definition MUX_MAX_RECORD :: nat where "MUX_MAX_RECORD = 16384"
definition MUX_DEFAULT_SEND_WINDOW :: nat where "MUX_DEFAULT_SEND_WINDOW = 16384"

definition MUX_CTRL_PROBE :: u16 where "MUX_CTRL_PROBE = 0"
definition MUX_CTRL_PING :: u16 where "MUX_CTRL_PING = 1"
definition MUX_CTRL_PONG :: u16 where "MUX_CTRL_PONG = 2"

lemmas [mux_consts] =
  MUX_PROTOCOL_VERSION_def MUX_FLAG_FIN_def MUX_FLAG_SYN_def MUX_FLAG_RST_def MUX_FLAG_PUSH_def
  MUX_FLAG_ACK_def MUX_FLAG_MASK_def MUX_MAX_RECORD_def MUX_DEFAULT_SEND_WINDOW_def
  MUX_CTRL_PROBE_def MUX_CTRL_PING_def MUX_CTRL_PONG_def

text \<open>\<^verbatim>\<open>(flags & F) != 0\<close>.\<close>

definition has_flag :: "u8 \<Rightarrow> u8 \<Rightarrow> bool" where
  "has_flag fl f = (fl AND f \<noteq> 0)"

datatype mux_status =
    MUX_STATUS_NO_ERROR
  | MUX_STATUS_PROTOCOL_ERROR
  | MUX_STATUS_FLOW_CONTROL_ERROR
  | MUX_STATUS_INTERNAL_ERROR
  | MUX_STATUS_REFUSED_STREAM
  | MUX_STATUS_CANCEL

fun status_code :: "mux_status \<Rightarrow> u16" where
  "status_code MUX_STATUS_NO_ERROR = 0"
| "status_code MUX_STATUS_PROTOCOL_ERROR = 1"
| "status_code MUX_STATUS_FLOW_CONTROL_ERROR = 2"
| "status_code MUX_STATUS_INTERNAL_ERROR = 3"
| "status_code MUX_STATUS_REFUSED_STREAM = 4"
| "status_code MUX_STATUS_CANCEL = 5"

definition mux_status_str :: "ufast \<Rightarrow> string" where
  "mux_status_str status =
    (if status = 0 then ''NO_ERROR''
     else if status = 1 then ''PROTOCOL_ERROR''
     else if status = 2 then ''FLOW_CONTROL_ERROR''
     else if status = 3 then ''INTERNAL_ERROR''
     else if status = 4 then ''REFUSED_STREAM''
     else if status = 5 then ''CANCEL''
     else ''UNKNOWN'')"

section \<open>The header\<close>

record mux_header =
  h_version :: u8
  h_flags :: u8
  h_length :: u16
  h_stream_id :: u16
  h_extra :: u16

definition mux_write_header :: "u8 list \<Rightarrow> mux_header \<Rightarrow> u8 list" where
  "mux_write_header buf header =
    (let b = store_at buf 0 (write_uint8 (ucast (h_version header)));
         b = store_at b 1 (write_uint8 (ucast (h_flags header)));
         b = store_at b 2 (write_uint16 (ucast (h_length header)));
         b = store_at b 4 (write_uint16 (ucast (h_stream_id header)))
     in store_at b 6 (write_uint16 (ucast (h_extra header))))"

definition mux_read_header :: "u8 list \<Rightarrow> mux_header" where
  "mux_read_header buf =
    \<lparr>h_version = ucast (read_uint8 buf),
     h_flags = ucast (read_uint8 (drop 1 buf)),
     h_length = ucast (read_uint16 (drop 2 buf)),
     h_stream_id = ucast (read_uint16 (drop 4 buf)),
     h_extra = ucast (read_uint16 (drop 6 buf))\<rparr>"

section \<open>Frame objects and their pool\<close>

text \<open>
  A frame object at address \<open>f_addr\<close>.  \<open>f_data\<close> is the live prefix
  \<^verbatim>\<open>data[0 .. len)\<close>, so \<^verbatim>\<open>len\<close> is its length.  \<open>f_cursor\<close>
  is the C union of \<^verbatim>\<open>pos\<close> (while the frame is on a send queue) and
  \<^verbatim>\<open>unacked_count\<close> (once it is in the unacked ring).\<close>

record mux_frame =
  f_addr :: nat
  f_cursor :: nat
  f_cap :: nat
  f_data :: "u8 list"

abbreviation f_len :: "mux_frame \<Rightarrow> nat" where
  "f_len f \<equiv> length (f_data f)"

abbreviation f_pos :: "mux_frame \<Rightarrow> nat" where
  "f_pos f \<equiv> f_cursor f"

abbreviation unacked_count :: "mux_frame \<Rightarrow> nat" where
  "unacked_count f \<equiv> f_cursor f"

text \<open>
  The caller-supplied allocator: \<open>pool_alloc k\<close> is what its \<open>k\<close>-th call
  returns (an address, or \<^const>\<open>None\<close> for \<^verbatim>\<open>NULL\<close>), \<open>pool_calls\<close>
  counts the calls made, and \<open>pool_freed\<close> records the addresses handed back,
  latest first.\<close>

record frame_pool =
  pool_alloc :: "nat \<Rightarrow> nat option"
  pool_calls :: nat
  pool_freed :: "nat list"

definition mux_frame_get :: "frame_pool \<Rightarrow> nat \<Rightarrow> mux_frame option \<times> frame_pool" where
  "mux_frame_get pool cap =
    (let pool' = pool\<lparr>pool_calls := Suc (pool_calls pool)\<rparr>
     in case pool_alloc pool (pool_calls pool) of
          None \<Rightarrow> (None, pool')
        | Some a \<Rightarrow> (Some \<lparr>f_addr = a, f_cursor = 0, f_cap = cap, f_data = []\<rparr>, pool'))"

definition mux_frame_put :: "frame_pool \<Rightarrow> mux_frame \<Rightarrow> frame_pool" where
  "mux_frame_put pool frame = pool\<lparr>pool_freed := f_addr frame # pool_freed pool\<rparr>"

section \<open>Concatenated wire frames\<close>

type_synonym wire_frame = "mux_header \<times> u8 list"

text \<open>One wire frame as bytes, and the reference parser of a byte string that is
  a concatenation of complete wire frames.\<close>

definition encode_frame :: "wire_frame \<Rightarrow> u8 list" where
  "encode_frame hp = mux_write_header (replicate MUX_FRAME_HEADER_SIZE 0) (fst hp) @ snd hp"

definition encode_frames :: "wire_frame list \<Rightarrow> u8 list" where
  "encode_frames hps = concat (map encode_frame hps)"

definition frame_ok :: "wire_frame \<Rightarrow> bool" where
  "frame_ok hp = (length (snd hp) = unat (h_length (fst hp)))"

text \<open>The extent of the wire frame at the front of a byte string.\<close>

definition entry_len :: "u8 list \<Rightarrow> nat" where
  "entry_len bs = MUX_FRAME_HEADER_SIZE + unat (h_length (mux_read_header bs))"

function subframes :: "u8 list \<Rightarrow> wire_frame list option" where
  "subframes bs =
    (if bs = [] then Some []
     else if length bs < MUX_FRAME_HEADER_SIZE then None
     else if length bs < entry_len bs then None
     else case subframes (drop (entry_len bs) bs) of
            None \<Rightarrow> None
          | Some fs \<Rightarrow>
              Some ((mux_read_header bs, take (entry_len bs - MUX_FRAME_HEADER_SIZE)
                (drop MUX_FRAME_HEADER_SIZE bs)) # fs))"
  by pat_completeness auto
termination
  by (relation "measure length") (auto simp: entry_len_def MUX_FRAME_HEADER_SIZE_def)

declare subframes.simps [simp del]

section \<open>Codec lemmas\<close>

lemma read_write_uint16 [simp]:
  "read_uint16 (write_uint16 v @ r) = take_bit 16 v"
  by (rule bit_word_eqI) (auto simp: read_uint16_def write_uint16_def bit_simps)

lemma bit_shift_byte: 
  "bit (push_bit k (ucast (ucast (drop_bit k v) :: u8)) :: ufast) n \<longleftrightarrow> k \<le> n \<and> n < k + 8 \<and> n < 64 \<and> bit v n" for v :: ufast
  by (auto simp: bit_simps)

lemma read_write_uint64:
  "read_uint64 (write_uint64 v) = v"
proof (rule bit_word_eqI)
  fix n assume n: "n < LENGTH(64)"
  have z: "ucast (ucast v :: u8) = (push_bit 0 (ucast (ucast (drop_bit 0 v) :: u8)) :: ufast)" by simp
  have "bit (read_uint64 (write_uint64 v)) n \<longleftrightarrow> 
    (\<exists>k \<in> {56,48,40,32,24,16,8,0}. bit (push_bit k (ucast (ucast (drop_bit k v) :: u8)) :: ufast) n)"
    by (simp add: read_uint64_def write_uint64_def bit_or_iff)
  also have "... \<longleftrightarrow> bit v n"
    unfolding bit_shift_byte using n by simp linarith
  finally show "bit (read_uint64 (write_uint64 v)) n = bit v n" .
qed

lemma not_bit_u8 [simp]: "\<not> bit (b :: u8) (8 + n)"
  using bit_imp_le_length [of b "8 + n"] by auto

lemma write_read_uint16:
  "write_uint16 (ucast (ucast (read_uint16 (a # b # r)) :: u16)) = [a, b]"
  by (auto simp: read_uint16_def write_uint16_def bit_simps intro!: bit_word_eqI)

text \<open>The eight bytes of a header, as \<^const>\<open>mux_write_header\<close> lays them out.\<close>

definition header_bytes :: "mux_header \<Rightarrow> u8 list" where
  "header_bytes h = [h_version h, h_flags h] @ write_uint16 (ucast (h_length h)) @
    write_uint16 (ucast (h_stream_id h)) @ write_uint16 (ucast (h_extra h))"

lemma length_header_bytes [simp]: "length (header_bytes h) = MUX_FRAME_HEADER_SIZE"
  by (simp add: header_bytes_def write_uint16_def MUX_FRAME_HEADER_SIZE_def)

lemma mux_write_header_eq:
  assumes "MUX_FRAME_HEADER_SIZE \<le> length buf"
  shows "mux_write_header buf h = header_bytes h @ drop MUX_FRAME_HEADER_SIZE buf"
proof -
  obtain a b c d e f g i r where "buf = a # b # c # d # e # f # g # i # r"
    using assms by (auto simp: MUX_FRAME_HEADER_SIZE_def numeral_eq_Suc Suc_le_length_iff)
  then show ?thesis
    by (simp add: mux_write_header_def header_bytes_def store_at_def write_uint8_def
        write_uint16_def MUX_FRAME_HEADER_SIZE_def)
qed

lemma ucast_take_bit_16 [simp]: "ucast (take_bit 16 (ucast (w :: u16) :: ufast)) = w"
  by (rule bit_word_eqI) (auto simp: bit_simps)

lemma read_header_bytes [simp]: "mux_read_header (header_bytes h @ r) = h"
proof -
  let ?l = "write_uint16 (ucast (h_length h))" and ?s = "write_uint16 (ucast (h_stream_id h))"
    and ?e = "write_uint16 (ucast (h_extra h))"
  have d: "drop 2 (header_bytes h @ r) = ?l @ ?s @ ?e @ r"
      "drop 4 (header_bytes h @ r) = ?s @ ?e @ r" "drop 6 (header_bytes h @ r) = ?e @ r"
    by (simp_all add: header_bytes_def write_uint16_def)
  show ?thesis
    unfolding mux_read_header_def d read_write_uint16
    by (cases h) (simp add: header_bytes_def read_uint8_def)
qed

lemma header_bytes_read:
  assumes "MUX_FRAME_HEADER_SIZE \<le> length buf"
  shows "header_bytes (mux_read_header buf) = take MUX_FRAME_HEADER_SIZE buf"
proof -
  obtain a b c d e f g i r where buf: "buf = a # b # c # d # e # f # g # i # r"
    using assms by (auto simp: MUX_FRAME_HEADER_SIZE_def numeral_eq_Suc Suc_le_length_iff)
  show ?thesis
    by (simp add: buf header_bytes_def mux_read_header_def read_uint8_def write_read_uint16
        MUX_FRAME_HEADER_SIZE_def)
qed

text \<open>C8. The header codec is a bijection between header values and the first eight
  bytes of a buffer: reading back what \<^const>\<open>mux_write_header\<close> stored gives the
  header, nothing behind the eight bytes changes, and writing the header that was
  read leaves the buffer as it was.\<close>

theorem mux_header_roundtrip:
  assumes "MUX_FRAME_HEADER_SIZE \<le> length buf"
  shows "mux_read_header (mux_write_header buf h) = h
    \<and> drop MUX_FRAME_HEADER_SIZE (mux_write_header buf h) = drop MUX_FRAME_HEADER_SIZE buf
    \<and> length (mux_write_header buf h) = length buf
    \<and> mux_write_header buf (mux_read_header buf) = buf"
  using assms by (simp add: mux_write_header_eq header_bytes_read)

theorem mux_header_roundtrip_witness:
  "mux_read_header (mux_write_header [9, 9, 9, 9, 9, 9, 9, 9, 7]
      \<lparr>h_version = 1, h_flags = 0x18, h_length = 0x1234, h_stream_id = 3, h_extra = 2\<rparr>)
    = \<lparr>h_version = 1, h_flags = 0x18, h_length = 0x1234, h_stream_id = 3, h_extra = 2\<rparr>"
  using mux_header_roundtrip [of "[9, 9, 9, 9, 9, 9, 9, 9, 7]"]
  by (simp add: MUX_FRAME_HEADER_SIZE_def)

section \<open>Parsing concatenated frames\<close>

lemma encode_frame_eq: "encode_frame hp = header_bytes (fst hp) @ snd hp"
  by (simp add: encode_frame_def mux_write_header_eq)

lemma length_encode_frame [simp]:
  "length (encode_frame hp) = MUX_FRAME_HEADER_SIZE + length (snd hp)"
  by (simp add: encode_frame_eq)

lemma read_encode_frame [simp]: "mux_read_header (encode_frame hp @ r) = fst hp"
  by (simp add: encode_frame_eq)

lemma entry_len_encode_frame [simp]:
  "frame_ok hp \<Longrightarrow> entry_len (encode_frame hp @ r) = length (encode_frame hp)"
  by (simp add: entry_len_def frame_ok_def)

lemma encode_frames_simps [simp]:
  "encode_frames [] = []"
  "encode_frames (hp # hps) = encode_frame hp @ encode_frames hps"
  "encode_frames (xs @ ys) = encode_frames xs @ encode_frames ys"
  by (simp_all add: encode_frames_def)

lemma header_size_pos [simp]: "0 < MUX_FRAME_HEADER_SIZE"
  by (simp add: MUX_FRAME_HEADER_SIZE_def)

lemma entry_len_ge [simp]: "MUX_FRAME_HEADER_SIZE \<le> entry_len bs"
  by (simp add: entry_len_def)

lemma subframes_Nil [simp]: "subframes [] = Some []"
  by (simp add: subframes.simps)

lemma subframes_encode_frame:
  assumes "frame_ok hp"
  shows "subframes (encode_frame hp @ r) = map_option ((#) hp) (subframes r)"
proof -
  have "encode_frame hp @ r \<noteq> []"
    by (metis add_gr_0 append_is_Nil_conv header_size_pos length_0_conv length_encode_frame less_numeral_extra(3))
  moreover have "drop MUX_FRAME_HEADER_SIZE (encode_frame hp @ r) = snd hp @ r"
    by (simp add: encode_frame_eq)
  ultimately show ?thesis
    using assms by (subst subframes.simps) (simp split: option.split)
qed

lemma subframes_encode_append:
  "\<forall>hp\<in>set fs. frame_ok hp \<Longrightarrow>
    subframes (encode_frames fs @ r) = map_option ((@) fs) (subframes r)"
  by (induction fs; cases "subframes r"; simp add: subframes_encode_frame)

lemma take_entry:
  assumes "MUX_FRAME_HEADER_SIZE \<le> length bs"
  shows "take (entry_len bs) bs = encode_frame (mux_read_header bs,
    take (entry_len bs - MUX_FRAME_HEADER_SIZE) (drop MUX_FRAME_HEADER_SIZE bs))"
  using assms by (simp add: encode_frame_eq header_bytes_read)
    (metis entry_len_ge le_add_diff_inverse take_add)

lemma subframes_SomeD:
  "subframes bs = Some fs \<Longrightarrow> encode_frames fs = bs \<and> (\<forall>hp\<in>set fs. frame_ok hp)"
proof (induction bs arbitrary: fs rule: subframes.induct)
  case (1 bs)
  show ?case
  proof (cases "bs = []")
    case False
    then have g: "MUX_FRAME_HEADER_SIZE \<le> length bs" "entry_len bs \<le> length bs"
      using 1(2) by (auto simp: subframes.simps [of bs] split: if_splits)
    then obtain gs where gs: "subframes (drop (entry_len bs) bs) = Some gs"
      "fs = (mux_read_header bs, take (entry_len bs - MUX_FRAME_HEADER_SIZE)
        (drop MUX_FRAME_HEADER_SIZE bs)) # gs"
      using 1(2) False by (auto simp: subframes.simps [of bs] split: option.splits)
    have "encode_frames gs = drop (entry_len bs) bs \<and> (\<forall>hp\<in>set gs. frame_ok hp)"
      using 1(1) [OF False _ _ gs(1)] g by simp
    then show ?thesis
      using g by (simp add: gs(2) take_entry [symmetric])
        (simp add: frame_ok_def entry_len_def)
  qed (use 1(2) in simp)
qed

end
