(* ===== verification/Bytebuf.thy ===== *)
theory Bytebuf
  imports Mux_Prelude
begin

text \<open>
  The linear byte FIFO of \<^verbatim>\<open>mux/frame.h\<close> and
  \<^verbatim>\<open>mux/frame.c\<close>: readable bytes are the region
  \<^verbatim>\<open>[off, off + len)\<close> of a flat array, space is recovered by compaction
  and by growing the block.  The buffer is refined to the list of its readable
  bytes; the laws its clients (the session and stream receive buffers) rely on are
  the locale \<open>byte_fifo\<close>, interpreted here on the buffer.
\<close>

section \<open>The heap\<close>

text \<open>Outcomes of the C allocator: \<open>heap_ok k\<close> tells whether the \<open>k\<close>-th request is
  served.\<close>

record heap_env =
  heap_ok :: "nat \<Rightarrow> bool"
  heap_calls :: nat

definition heap_request :: "heap_env \<Rightarrow> bool \<times> heap_env" where
  "heap_request e = (heap_ok e (heap_calls e), e\<lparr>heap_calls := Suc (heap_calls e)\<rparr>)"

lemma heap_ok_request [simp]: "heap_ok (snd (heap_request e)) = heap_ok e"
  by (simp add: heap_request_def)

text \<open>\<^verbatim>\<open>realloc\<close> keeps the common prefix.  The bytes beyond it are
  indeterminate in C; here they are zero, and no result depends on them.\<close>

definition realloc_data :: "u8 list \<Rightarrow> nat \<Rightarrow> u8 list" where
  "realloc_data d n = take n d @ replicate (n - length d) 0"

lemma length_realloc_data [simp]: "length (realloc_data d n) = n"
  by (simp add: realloc_data_def)

lemma take_realloc_data: "k \<le> n \<Longrightarrow> k \<le> length d \<Longrightarrow> take k (realloc_data d n) = take k d"
  by (simp add: realloc_data_def min_absorb1)

section \<open>Operations\<close>

record bytebuf =
  rb_off :: nat
  rb_len :: nat
  rb_cap :: nat
  rb_data :: "u8 list"

definition SIZEOF_BYTEBUF :: nat where
  "SIZEOF_BYTEBUF = 24"

definition bytebuf_new :: "heap_env \<Rightarrow> nat \<Rightarrow> bytebuf option \<times> heap_env" where
  "bytebuf_new e cap =
    (let (ok, e') = heap_request e
     in if \<not> ok then (None, e')
        else (Some \<lparr>rb_off = 0, rb_len = 0, rb_cap = cap, rb_data = replicate cap 0\<rparr>, e'))"

definition bytebuf_reset :: "bytebuf \<Rightarrow> bytebuf" where
  "bytebuf_reset rb = rb\<lparr>rb_off := 0, rb_len := 0\<rparr>"

definition bytebuf_readable :: "bytebuf \<Rightarrow> nat" where
  "bytebuf_readable rb = rb_len rb"

definition bytebuf_write_space :: "bytebuf \<Rightarrow> nat" where
  "bytebuf_write_space rb = rb_cap rb - rb_off rb - rb_len rb"

text \<open>The readable region itself: what lies at \<^verbatim>\<open>bytebuf_read_ptr\<close>.\<close>

definition bytebuf_read_ptr :: "bytebuf \<Rightarrow> u8 list" where
  "bytebuf_read_ptr rb = take (rb_len rb) (drop (rb_off rb) (rb_data rb))"

text \<open>\<^verbatim>\<open>memcpy(bytebuf_write_ptr(rb), bs, n)\<close>.\<close>

definition bytebuf_write_ptr_copy :: "bytebuf \<Rightarrow> u8 list \<Rightarrow> bytebuf" where
  "bytebuf_write_ptr_copy rb bs =
    rb\<lparr>rb_data := store_at (rb_data rb) (rb_off rb + rb_len rb) bs\<rparr>"

definition bytebuf_produce :: "bytebuf \<Rightarrow> nat \<Rightarrow> bytebuf" where
  "bytebuf_produce rb n = rb\<lparr>rb_len := rb_len rb + n\<rparr>"

text \<open>Copy bytes in at the write pointer and account for them: the pair of calls every
  producer of the buffer makes.\<close>

definition bytebuf_append :: "bytebuf \<Rightarrow> u8 list \<Rightarrow> bytebuf" where
  "bytebuf_append rb bs = bytebuf_produce (bytebuf_write_ptr_copy rb bs) (length bs)"

definition bytebuf_consume :: "bytebuf \<Rightarrow> nat \<Rightarrow> bytebuf" where
  "bytebuf_consume rb n =
    (let rb = rb\<lparr>rb_off := rb_off rb + n, rb_len := rb_len rb - n\<rparr>
     in if rb_len rb = 0 then rb\<lparr>rb_off := 0\<rparr> else rb)"

definition bytebuf_compact :: "bytebuf \<Rightarrow> bytebuf" where
  "bytebuf_compact rb =
    (if rb_off rb = 0 \<or> rb_len rb = 0
     then (if rb_len rb = 0 then rb\<lparr>rb_off := 0\<rparr> else rb)
     else rb\<lparr>rb_data := store_at (rb_data rb) 0 (take (rb_len rb) (drop (rb_off rb) (rb_data rb))),
             rb_off := 0\<rparr>)"

text \<open>The capacity-doubling loop.  The caller starts it at a positive capacity; from
  zero the C loop would not end, and the model returns at once.\<close>

function grow_cap :: "nat \<Rightarrow> nat \<Rightarrow> nat" where
  "grow_cap new_cap min_cap =
    (if new_cap = 0 \<or> \<not> new_cap < min_cap then new_cap
     else if new_cap > SIZE_MAX div 2 then min_cap
     else grow_cap (new_cap * 2) min_cap)"
  by pat_completeness auto
termination
  by (relation "measure (\<lambda>(n, m). m - n)") auto

declare grow_cap.simps [simp del]

definition mux_bytebuf_reserve ::
    "heap_env \<Rightarrow> bytebuf \<Rightarrow> nat \<Rightarrow> bool \<Rightarrow> bool \<times> bytebuf \<times> heap_env" where
  "mux_bytebuf_reserve e rb need can_grow =
    (if need = 0 \<or> bytebuf_write_space rb \<ge> need then (True, rb, e)
     else let rb = bytebuf_compact rb in
     if bytebuf_write_space rb \<ge> need then (True, rb, e)
     else if \<not> can_grow then (False, rb, e)
     else if need > SIZE_MAX - rb_len rb then (False, rb, e)
     else let min_cap = rb_len rb + need;
              new_cap = grow_cap (if rb_cap rb > 0 then rb_cap rb else 1) min_cap in
     if new_cap > SIZE_MAX - SIZEOF_BYTEBUF then (False, rb, e)
     else let (ok, e) = heap_request e in
     if \<not> ok then (False, rb, e)
     else (True, rb\<lparr>rb_data := realloc_data (rb_data rb) new_cap, rb_cap := new_cap\<rparr>, e))"

definition mux_bytebuf_shrink :: "heap_env \<Rightarrow> bytebuf \<Rightarrow> nat \<Rightarrow> bytebuf \<times> heap_env" where
  "mux_bytebuf_shrink e rb target_cap =
    (let want = (if rb_len rb > target_cap then rb_len rb else target_cap) in
     if rb_cap rb \<le> want then (rb, e)
     else let rb = bytebuf_compact rb; (ok, e) = heap_request e in
     if \<not> ok then (rb, e)
     else (rb\<lparr>rb_data := realloc_data (rb_data rb) want, rb_cap := want\<rparr>, e))"

section \<open>Invariant and refinement to a byte list\<close>

definition bytebuf_inv :: "bytebuf \<Rightarrow> bool" where
  "bytebuf_inv rb = (rb_off rb + rb_len rb \<le> rb_cap rb \<and> length (rb_data rb) = rb_cap rb
    \<and> rb_cap rb \<le> SIZE_MAX - SIZEOF_BYTEBUF)"

lemma bytebuf_new_inv:
  "bytebuf_new e cap = (Some rb, e') \<Longrightarrow> cap \<le> SIZE_MAX - SIZEOF_BYTEBUF \<Longrightarrow>
    bytebuf_inv rb \<and> bytebuf_read_ptr rb = []"
  by (auto simp: bytebuf_new_def bytebuf_inv_def bytebuf_read_ptr_def split: if_splits prod.splits)

lemma bytebuf_reset_inv [simp]:
  "bytebuf_inv rb \<Longrightarrow> bytebuf_inv (bytebuf_reset rb)"
  "bytebuf_read_ptr (bytebuf_reset rb) = []"
  by (simp_all add: bytebuf_reset_def bytebuf_inv_def bytebuf_read_ptr_def)

lemma length_bytebuf_read_ptr:
  "bytebuf_inv rb \<Longrightarrow> length (bytebuf_read_ptr rb) = bytebuf_readable rb"
  by (auto simp: bytebuf_read_ptr_def bytebuf_inv_def bytebuf_readable_def)

lemma bytebuf_consume_refines:
  assumes "bytebuf_inv rb" "n \<le> bytebuf_readable rb"
  shows "bytebuf_inv (bytebuf_consume rb n)"
    and "bytebuf_read_ptr (bytebuf_consume rb n) = drop n (bytebuf_read_ptr rb)"
  using assms
  by (auto simp: bytebuf_consume_def bytebuf_inv_def bytebuf_read_ptr_def bytebuf_readable_def
      Let_def drop_take add.commute)

lemma bytebuf_append_refines:
  assumes "bytebuf_inv rb" "length bs \<le> bytebuf_write_space rb"
  shows "bytebuf_inv (bytebuf_append rb bs)"
    and "bytebuf_read_ptr (bytebuf_append rb bs) = bytebuf_read_ptr rb @ bs"
  using assms
  by (auto simp: bytebuf_append_def bytebuf_produce_def bytebuf_write_ptr_copy_def bytebuf_inv_def
      bytebuf_read_ptr_def bytebuf_write_space_def store_at_def drop_take min_absorb1)

lemma bytebuf_compact_refines:
  assumes "bytebuf_inv rb"
  shows "bytebuf_inv (bytebuf_compact rb)"
    and "bytebuf_read_ptr (bytebuf_compact rb) = bytebuf_read_ptr rb"
    and "rb_off (bytebuf_compact rb) = 0"
    and "rb_len (bytebuf_compact rb) = rb_len rb"
    and "rb_cap (bytebuf_compact rb) = rb_cap rb"
  using assms
  by (auto simp: bytebuf_compact_def bytebuf_inv_def bytebuf_read_ptr_def store_at_def)

lemma bytebuf_realloc_refines:
  assumes "bytebuf_inv rb" "rb_off rb = 0" "rb_len rb \<le> n" "n \<le> SIZE_MAX - SIZEOF_BYTEBUF"
  shows "bytebuf_inv (rb\<lparr>rb_data := realloc_data (rb_data rb) n, rb_cap := n\<rparr>)"
    and "bytebuf_read_ptr (rb\<lparr>rb_data := realloc_data (rb_data rb) n, rb_cap := n\<rparr>) =
      bytebuf_read_ptr rb"
  using assms by (simp_all add: bytebuf_inv_def bytebuf_read_ptr_def take_realloc_data)

lemma grow_cap_bounds:
  "0 < c \<Longrightarrow> m \<le> SIZE_MAX \<Longrightarrow> c \<le> SIZE_MAX \<Longrightarrow>
    m \<le> grow_cap c m \<and> c \<le> grow_cap c m \<and> grow_cap c m \<le> SIZE_MAX"
proof (induction c m rule: grow_cap.induct)
  case (1 c m)
  then show ?case
    by (subst (1 2 3) grow_cap.simps) (auto simp: SIZE_MAX_def)
qed

lemma mux_bytebuf_reserve_refines:
  assumes "bytebuf_inv rb" "mux_bytebuf_reserve e rb need g = (ok, rb', e')"
  shows "bytebuf_inv rb' \<and> bytebuf_read_ptr rb' = bytebuf_read_ptr rb
    \<and> (ok \<longrightarrow> need \<le> bytebuf_write_space rb')"
proof -
  define c where "c = bytebuf_compact rb"
  note cr = bytebuf_compact_refines [OF assms(1), folded c_def]
  define n where "n = grow_cap (if rb_cap c > 0 then rb_cap c else 1) (rb_len c + need)"
  have b: "rb_len c + need \<le> n" if "need \<le> SIZE_MAX - rb_len c"
    unfolding n_def
    using that grow_cap_bounds [of "if rb_cap c > 0 then rb_cap c else 1" "rb_len c + need"]
      cr(1) by (auto simp: bytebuf_inv_def SIZE_MAX_def)
  note rr = bytebuf_realloc_refines [OF cr(1,3), of n]
  have "bytebuf_inv (c\<lparr>rb_data := realloc_data (rb_data c) n, rb_cap := n\<rparr>)
      \<and> bytebuf_read_ptr (c\<lparr>rb_data := realloc_data (rb_data c) n, rb_cap := n\<rparr>) = bytebuf_read_ptr c
      \<and> need \<le> bytebuf_write_space (c\<lparr>rb_data := realloc_data (rb_data c) n, rb_cap := n\<rparr>)"
    if "need \<le> SIZE_MAX - rb_len c" "n \<le> SIZE_MAX - SIZEOF_BYTEBUF"
    using rr that b cr(3) by (simp add: bytebuf_write_space_def)
  then show ?thesis
    using assms cr(1,2)
    unfolding mux_bytebuf_reserve_def Let_def c_def [symmetric] n_def [symmetric]
    by (auto split: if_splits prod.splits)
qed

lemma mux_bytebuf_shrink_refines:
  assumes "bytebuf_inv rb" "mux_bytebuf_shrink e rb t = (rb', e')" "t \<le> SIZE_MAX - SIZEOF_BYTEBUF"
  shows "bytebuf_inv rb' \<and> bytebuf_read_ptr rb' = bytebuf_read_ptr rb"
proof -
  define c where "c = bytebuf_compact rb"
  note cr = bytebuf_compact_refines [OF assms(1), folded c_def]
  define n where "n = (if rb_len rb > t then rb_len rb else t)"
  have "rb_len c \<le> n" "n \<le> SIZE_MAX - SIZEOF_BYTEBUF"
    using cr(4) assms(1,3) by (auto simp: n_def bytebuf_inv_def)
  note rr = bytebuf_realloc_refines [OF cr(1,3) this]
  show ?thesis
    using assms(1,2) cr(1,2) rr
    unfolding mux_bytebuf_shrink_def Let_def c_def [symmetric] n_def [symmetric]
    by (auto split: if_splits prod.splits)
qed

section \<open>The interface the receive paths rely on\<close>

locale byte_fifo =
  fixes invar :: "'b \<Rightarrow> bool"
    and bytes :: "'b \<Rightarrow> u8 list"
    and space :: "'b \<Rightarrow> nat"
    and reserve :: "heap_env \<Rightarrow> 'b \<Rightarrow> nat \<Rightarrow> bool \<Rightarrow> bool \<times> 'b \<times> heap_env"
    and append :: "'b \<Rightarrow> u8 list \<Rightarrow> 'b"
    and consume :: "'b \<Rightarrow> nat \<Rightarrow> 'b"
  assumes reserve_keeps: "invar b \<Longrightarrow> reserve e b n g = (ok, b', e') \<Longrightarrow>
      invar b' \<and> bytes b' = bytes b"
    and reserve_space: "invar b \<Longrightarrow> reserve e b n g = (True, b', e') \<Longrightarrow> n \<le> space b'"
    and append_invar: "invar b \<Longrightarrow> length bs \<le> space b \<Longrightarrow> invar (append b bs)"
    and append_bytes: "invar b \<Longrightarrow> length bs \<le> space b \<Longrightarrow> bytes (append b bs) = bytes b @ bs"
    and consume_invar: "invar b \<Longrightarrow> n \<le> length (bytes b) \<Longrightarrow> invar (consume b n)"
    and consume_bytes: "invar b \<Longrightarrow> n \<le> length (bytes b) \<Longrightarrow> bytes (consume b n) = drop n (bytes b)"
begin

lemma reserve_append:
  assumes "invar b" "reserve e b n g = (True, b', e')" "length bs \<le> n"
  shows "invar (append b' bs) \<and> bytes (append b' bs) = bytes b @ bs"
  using assms reserve_keeps [of b e n g True b' e'] reserve_space [of b e n g b' e']
    append_invar [of b' bs] append_bytes [of b' bs] by auto

lemma append_consume_split:
  assumes "invar b" "reserve e b (length bs) g = (True, b', e')" "n \<le> length (bytes b) + length bs"
  shows "invar (consume (append b' bs) n) \<and>
    take n (bytes (append b' bs)) @ bytes (consume (append b' bs) n) = bytes b @ bs"
  using assms reserve_append [of b e "length bs" g b' e' bs]
    consume_invar [of "append b' bs" n] consume_bytes [of "append b' bs" n]
  by (simp del: take_append drop_append)

end

interpretation rb: byte_fifo bytebuf_inv bytebuf_read_ptr bytebuf_write_space
  mux_bytebuf_reserve bytebuf_append bytebuf_consume
  using mux_bytebuf_reserve_refines bytebuf_append_refines bytebuf_consume_refines
  by unfold_locales (auto simp: length_bytebuf_read_ptr)

section \<open>When a reservation succeeds\<close>

lemma grow_cap_double:
  "0 < c \<Longrightarrow> c < m \<Longrightarrow> grow_cap c m < 2 * m"
proof (induction c m rule: grow_cap.induct)
  case (1 c m)
  then show ?case
    by (subst grow_cap.simps, subst grow_cap.simps [of "c * 2"]) (auto simp: grow_cap.simps [of "c * 2"])
qed

text \<open>The size of the block that a buffer grows to.\<close>

definition grown_cap :: "bytebuf \<Rightarrow> nat \<Rightarrow> nat" where
  "grown_cap rb need = grow_cap (max 1 (rb_cap rb)) (rb_len rb + need)"

text \<open>Growing is possible when nothing exceeds a \<^verbatim>\<open>size_t\<close> and the allocator serves the request.\<close>

definition can_reserve :: "heap_env \<Rightarrow> bytebuf \<Rightarrow> nat \<Rightarrow> bool" where
  "can_reserve e rb need \<longleftrightarrow> rb_len rb + need \<le> SIZE_MAX \<and> grown_cap rb need \<le> SIZE_MAX - SIZEOF_BYTEBUF
    \<and> heap_ok e (heap_calls e)"

lemma bytebuf_space_iff:
  "bytebuf_inv rb \<Longrightarrow> bytebuf_write_space (bytebuf_compact rb) \<ge> need \<longleftrightarrow> rb_len rb + need \<le> rb_cap rb"
  "bytebuf_inv rb \<Longrightarrow> bytebuf_write_space rb \<ge> need \<Longrightarrow> rb_len rb + need \<le> rb_cap rb"
  using bytebuf_compact_refines [of rb] by (auto simp: bytebuf_write_space_def bytebuf_inv_def)

lemma mux_bytebuf_reserve_cases:
  assumes "bytebuf_inv rb"
  shows "mux_bytebuf_reserve e rb need can_grow =
    (if need = 0 \<or> need \<le> bytebuf_write_space rb then (True, rb, e)
     else if rb_len rb + need \<le> rb_cap rb then (True, bytebuf_compact rb, e)
     else (can_grow \<and> can_reserve e rb need,
       if can_grow \<and> can_reserve e rb need
       then (bytebuf_compact rb)\<lparr>rb_data := realloc_data (rb_data (bytebuf_compact rb)) (grown_cap rb need),
              rb_cap := grown_cap rb need\<rparr>
       else bytebuf_compact rb,
       if can_grow \<and> rb_len rb + need \<le> SIZE_MAX \<and> grown_cap rb need \<le> SIZE_MAX - SIZEOF_BYTEBUF
       then snd (heap_request e) else e))"
proof -
  have "rb_len rb \<le> SIZE_MAX"
    using assms by (auto simp: bytebuf_inv_def SIZE_MAX_def SIZEOF_BYTEBUF_def)
  then have f: "need > SIZE_MAX - rb_len rb \<longleftrightarrow> \<not> rb_len rb + need \<le> SIZE_MAX"
    by auto
  have g: "grow_cap (if rb_cap rb > 0 then rb_cap rb else 1) (rb_len rb + need) = grown_cap rb need"
    by (auto simp: grown_cap_def max_def Suc_le_eq)
  note c = bytebuf_compact_refines(4,5) [OF assms] bytebuf_space_iff(1) [OF assms]
  show ?thesis
    unfolding mux_bytebuf_reserve_def Let_def c f g can_reserve_def by (simp add: heap_request_def)
qed

text \<open>C10. Reserving space in a receive buffer.  It succeeds exactly when nothing is asked for, when the
  space is there or can be recovered by compaction, or when the buffer may grow, the sizes fit a
  \<^verbatim>\<open>size_t\<close> and the allocator serves the request; the block then grows to less than twice what is
  needed, and otherwise keeps its capacity.  The readable bytes are the same in every case, failure
  included.  After success the requested bytes can be copied in and are readable behind the old ones.\<close>

theorem mux_bytebuf_reserve_append:
  assumes "bytebuf_inv rb" "mux_bytebuf_reserve e rb need can_grow = (ok, rb', e')"
  defines "room \<equiv> need = 0 \<or> rb_len rb + need \<le> rb_cap rb"
  shows "(ok \<longleftrightarrow> room \<or> can_grow \<and> can_reserve e rb need)
    \<and> bytebuf_inv rb' \<and> bytebuf_read_ptr rb' = bytebuf_read_ptr rb
    \<and> rb_cap rb' = (if ok \<and> \<not> room then grown_cap rb need else rb_cap rb)
    \<and> (\<not> room \<longrightarrow> grown_cap rb need < 2 * (rb_len rb + need))
    \<and> (ok \<longrightarrow> need \<le> bytebuf_write_space rb'
        \<and> (\<forall>bs. length bs \<le> need \<longrightarrow> bytebuf_inv (bytebuf_append rb' bs)
            \<and> bytebuf_read_ptr (bytebuf_append rb' bs) = bytebuf_read_ptr rb @ bs))"
proof -
  note r = assms(2) [unfolded mux_bytebuf_reserve_cases [OF assms(1)]]
  note c = bytebuf_compact_refines(5) [OF assms(1)] bytebuf_space_iff(2) [OF assms(1), of need]
  have "ok \<longleftrightarrow> room \<or> can_grow \<and> can_reserve e rb need"
    "rb_cap rb' = (if ok \<and> \<not> room then grown_cap rb need else rb_cap rb)"
    using r c by (auto simp: room_def split: if_splits)
  moreover have "grown_cap rb need < 2 * (rb_len rb + need)" if "\<not> room"
  proof (cases "max 1 (rb_cap rb) < rb_len rb + need")
    case True
    then show ?thesis
      unfolding grown_cap_def by (intro grow_cap_double) simp_all
  next
    case False
    then show ?thesis
      using that by (auto simp: grown_cap_def room_def grow_cap.simps max_def split: if_splits)
  qed
  ultimately show ?thesis
    using rb.reserve_keeps [OF assms(1,2)] rb.reserve_space [of rb e need can_grow rb' e']
      rb.reserve_append [of rb e need can_grow rb' e'] assms(1,2) by (cases ok) auto
qed

theorem mux_bytebuf_reserve_append_witness:
  "let rb = \<lparr>rb_off = 2, rb_len = 1, rb_cap = 4, rb_data = [1, 2, 3, 4]\<rparr>;
       e = \<lparr>heap_ok = (\<lambda>_. True), heap_calls = 0\<rparr>;
       r = mux_bytebuf_reserve e rb 5 True
   in fst r \<and> bytebuf_read_ptr (bytebuf_append (fst (snd r)) [7, 8, 9, 10, 11]) = [3, 7, 8, 9, 10, 11]
    \<and> rb_cap (fst (snd r)) = 8 \<and> \<not> fst (mux_bytebuf_reserve e rb 5 False)
    \<and> bytebuf_read_ptr (fst (snd (mux_bytebuf_reserve e rb 5 False))) = [3]"
proof -
  let ?rb = "\<lparr>rb_off = 2, rb_len = 1, rb_cap = 4, rb_data = [1, 2, 3, 4]\<rparr> :: bytebuf"
  let ?e = "\<lparr>heap_ok = (\<lambda>_. True), heap_calls = 0\<rparr> :: heap_env"
  obtain ok rb' e' ok2 rb2 e2 where r: "mux_bytebuf_reserve ?e ?rb 5 True = (ok, rb', e')"
      "mux_bytebuf_reserve ?e ?rb 5 False = (ok2, rb2, e2)"
    using prod_cases3 by metis
  have inv: "bytebuf_inv ?rb" and b: "bytebuf_read_ptr ?rb = [3]"
    by (simp_all add: bytebuf_inv_def bytebuf_read_ptr_def SIZE_MAX_def SIZEOF_BYTEBUF_def)
  have "grown_cap ?rb 5 = 8" "can_reserve ?e ?rb 5"
    by (simp_all add: can_reserve_def grown_cap_def SIZE_MAX_def SIZEOF_BYTEBUF_def grow_cap.simps)
  then show ?thesis
    using mux_bytebuf_reserve_append [OF inv r(1)] mux_bytebuf_reserve_append [OF inv r(2)] b r by simp
qed

end
