(* ===== verification/Fifo.thy ===== *)
theory Fifo
  imports Main
begin

text \<open>
  The contract of a first-in first-out queue whose append may fail for lack of
  memory: what the unacked log relies on of the frame ring
  (\<^verbatim>\<open>mux_frame_ring\<close>) and the send queues of the intrusive frame list
  (\<^verbatim>\<open>mux_frame_list\<close>).  Both are interpreted in their own theories.
\<close>

locale fifo =
  fixes invar :: "'q \<Rightarrow> bool"
    and items :: "'q \<Rightarrow> 'a list"
    and push :: "'q \<Rightarrow> 'a \<Rightarrow> bool \<times> 'q"
    and pop :: "'q \<Rightarrow> 'a option \<times> 'q"
    and fresh :: "'q \<Rightarrow> 'a \<Rightarrow> bool"
  assumes push_ok: "invar q \<Longrightarrow> fresh q x \<Longrightarrow> push q x = (True, q') \<Longrightarrow>
      invar q' \<and> items q' = items q @ [x]"
    and push_fail: "invar q \<Longrightarrow> fresh q x \<Longrightarrow> push q x = (False, q') \<Longrightarrow>
      invar q' \<and> items q' = items q"
    and pop_some: "invar q \<Longrightarrow> items q = x # xs \<Longrightarrow>
      \<exists>q'. pop q = (Some x, q') \<and> invar q' \<and> items q' = xs"
    and pop_none: "invar q \<Longrightarrow> items q = [] \<Longrightarrow> fst (pop q) = None"
begin

text \<open>Pop \<open>n\<close> times, collecting what comes out.\<close>

primrec pops :: "nat \<Rightarrow> 'q \<Rightarrow> 'a list \<times> 'q" where
  "pops 0 q = ([], q)"
| "pops (Suc n) q =
    (case pop q of
       (None, q') \<Rightarrow> ([], q')
     | (Some x, q') \<Rightarrow> (let (xs, q'') = pops n q' in (x # xs, q'')))"

lemma pops_items:
  "invar q \<Longrightarrow> n \<le> length (items q) \<Longrightarrow>
    \<exists>q'. pops n q = (take n (items q), q') \<and> invar q' \<and> items q' = drop n (items q)"
proof (induction n arbitrary: q)
  case (Suc n)
  then obtain x xs where x: "items q = x # xs"
    by (cases "items q") auto
  obtain q' where q': "pop q = (Some x, q')" "invar q'" "items q' = xs"
    using pop_some [OF Suc.prems(1) x] by blast
  moreover obtain q'' where "pops n q' = (take n xs, q'')" "invar q''" "items q'' = drop n xs"
    using Suc.IH [OF q'(2)] Suc.prems(2) x q'(3) by auto
  ultimately show ?case
    by (simp add: x)
qed simp

lemma push_keeps_order:
  assumes "invar q" "fresh q x" "push q x = (True, q')"
  shows "\<exists>q''. pops (Suc (length (items q))) q' = (items q @ [x], q'') \<and> invar q'' \<and> items q'' = []"
  using pops_items [of q' "Suc (length (items q))"] push_ok [OF assms] by auto

end

end
