(* ===== verification/Frame_Ring.thy ===== *)
theory Frame_Ring
  imports Frame Bytebuf Fifo
begin

text \<open>
  The circular array of frame pointers of \<^verbatim>\<open>mux/frame.h\<close> and
  \<^verbatim>\<open>mux/frame.c\<close>, which holds the unacked log.  Indices are masked with
  \<^verbatim>\<open>capacity - 1\<close>, so the capacity must stay a power of two; growing
  linearises the entries into a block twice as large.  A ring pointer is an option
  (\<^const>\<open>None\<close> is \<^verbatim>\<open>NULL\<close>).  The ring refines the list of its
  entries, oldest first, and is an instance of the \<open>fifo\<close> contract.
\<close>

record 'a mux_frame_ring =
  fr_capacity :: nat
  fr_head :: nat
  fr_count :: nat
  fr_entries :: "'a option list"

definition MUX_FRAME_RING_MIN :: nat where
  "MUX_FRAME_RING_MIN = 16"

definition mux_frame_ring_new :: "heap_env \<Rightarrow> nat \<Rightarrow> 'a mux_frame_ring option \<times> heap_env" where
  "mux_frame_ring_new e cap =
    (let (ok, e) = heap_request e in
     if \<not> ok then (None, e)
     else (Some \<lparr>fr_capacity = cap, fr_head = 0, fr_count = 0, fr_entries = replicate cap None\<rparr>, e))"

definition mux_frame_ring_grow ::
    "heap_env \<Rightarrow> 'a mux_frame_ring option \<Rightarrow> 'a mux_frame_ring option \<times> heap_env" where
  "mux_frame_ring_grow e r =
    (let old_cap = (case r of Some r \<Rightarrow> fr_capacity r | None \<Rightarrow> 0);
         old_count = (case r of Some r \<Rightarrow> fr_count r | None \<Rightarrow> 0);
         new_cap = (if old_cap > 0 then old_cap * 2 else MUX_FRAME_RING_MIN);
         (ok, e) = heap_request e
     in if \<not> ok then (None, e)
        else (Some \<lparr>fr_capacity = new_cap, fr_head = 0, fr_count = old_count,
                fr_entries =
                  map (\<lambda>i. fr_entries (the r) ! ((fr_head (the r) + i) AND (old_cap - 1))) [0..<old_count]
                  @ replicate (new_cap - old_count) None\<rparr>, e))"

definition mux_frame_ring_size :: "'a mux_frame_ring option \<Rightarrow> nat" where
  "mux_frame_ring_size r = (case r of Some r \<Rightarrow> fr_count r | None \<Rightarrow> 0)"

definition mux_frame_ring_peek :: "'a mux_frame_ring option \<Rightarrow> nat \<Rightarrow> 'a option" where
  "mux_frame_ring_peek r offset =
    (case r of
       None \<Rightarrow> None
     | Some r \<Rightarrow>
         if fr_count r = 0 then None
         else fr_entries r ! ((fr_head r + offset) AND (fr_capacity r - 1)))"

text \<open>The append once the ring exists: grow when full, then store at the tail.\<close>

definition ring_push_slot ::
    "heap_env \<Rightarrow> 'a mux_frame_ring \<Rightarrow> 'a \<Rightarrow> bool \<times> 'a mux_frame_ring option \<times> heap_env" where
  "ring_push_slot e r frame =
    (let (r', e) = (if fr_count r \<ge> fr_capacity r then mux_frame_ring_grow e (Some r) else (Some r, e))
     in case r' of
          None \<Rightarrow> (False, Some r, e)
        | Some r \<Rightarrow>
            let tail = (fr_head r + fr_count r) AND (fr_capacity r - 1) in
            (True, Some (r\<lparr>fr_entries := (fr_entries r)[tail := Some frame], fr_count := fr_count r + 1\<rparr>), e))"

definition mux_frame_ring_push ::
    "heap_env \<Rightarrow> 'a mux_frame_ring option \<Rightarrow> 'a \<Rightarrow> bool \<times> 'a mux_frame_ring option \<times> heap_env" where
  "mux_frame_ring_push e rp frame =
    (case rp of
       None \<Rightarrow>
         (let (r, e) = mux_frame_ring_new e MUX_FRAME_RING_MIN in
          case r of None \<Rightarrow> (False, None, e) | Some r \<Rightarrow> ring_push_slot e r frame)
     | Some r \<Rightarrow> ring_push_slot e r frame)"

definition mux_frame_ring_pop ::
    "'a mux_frame_ring option \<Rightarrow> 'a option \<times> 'a mux_frame_ring option" where
  "mux_frame_ring_pop rp =
    (case rp of
       None \<Rightarrow> (None, rp)
     | Some r \<Rightarrow>
         if fr_count r = 0 then (None, rp)
         else (fr_entries r ! fr_head r,
               Some (r\<lparr>fr_entries := (fr_entries r)[fr_head r := None],
                       fr_head := (fr_head r + 1) AND (fr_capacity r - 1),
                       fr_count := fr_count r - 1\<rparr>)))"

definition mux_frame_ring_free ::
    "mux_frame mux_frame_ring option \<Rightarrow> frame_pool \<Rightarrow> mux_frame mux_frame_ring option \<times> frame_pool" where
  "mux_frame_ring_free rp pool =
    (case rp of
       None \<Rightarrow> (None, pool)
     | Some r \<Rightarrow>
         (None, fold (\<lambda>i p. mux_frame_put p
                   (the (fr_entries r ! ((fr_head r + i) AND (fr_capacity r - 1)))))
                [0..<fr_count r] pool))"

text \<open>A store through the pointer \<^verbatim>\<open>mux_frame_ring_peek(r, 0)\<close> returned: the
  frame object in the head slot changes, the ring does not.\<close>

definition ring_set_head :: "'a mux_frame_ring option \<Rightarrow> 'a \<Rightarrow> 'a mux_frame_ring option" where
  "ring_set_head rp f =
    map_option (\<lambda>r. r\<lparr>fr_entries := (fr_entries r)[(fr_head r + 0) AND (fr_capacity r - 1) := Some f]\<rparr>) rp"

section \<open>Invariant and abstraction\<close>

definition ring_slot :: "'a mux_frame_ring \<Rightarrow> nat \<Rightarrow> nat" where
  "ring_slot r i = (fr_head r + i) mod fr_capacity r"

definition ring_inv1 :: "'a mux_frame_ring \<Rightarrow> bool" where
  "ring_inv1 r \<longleftrightarrow> (\<exists>k. fr_capacity r = 2 ^ k) \<and> fr_head r < fr_capacity r
    \<and> fr_count r \<le> fr_capacity r \<and> length (fr_entries r) = fr_capacity r
    \<and> (\<forall>i<fr_count r. fr_entries r ! ring_slot r i \<noteq> None)"

fun ring_inv :: "'a mux_frame_ring option \<Rightarrow> bool" where
  "ring_inv None = True"
| "ring_inv (Some r) = ring_inv1 r"

definition ring_items1 :: "'a mux_frame_ring \<Rightarrow> 'a list" where
  "ring_items1 r = map (\<lambda>i. the (fr_entries r ! ring_slot r i)) [0..<fr_count r]"

fun ring_items :: "'a mux_frame_ring option \<Rightarrow> 'a list" where
  "ring_items None = []"
| "ring_items (Some r) = ring_items1 r"

lemma and_pow2_minus_1: "x AND (2 ^ k - 1) = x mod 2 ^ k" for x :: nat
  by (simp add: take_bit_eq_mod [symmetric] take_bit_eq_mask mask_eq_exp_minus_1)

lemma ring_mask:
  "ring_inv1 r \<Longrightarrow> x AND (fr_capacity r - Suc 0) = x mod fr_capacity r"
  using and_pow2_minus_1 by (auto simp: ring_inv1_def)

lemma length_ring_items1 [simp]: "length (ring_items1 r) = fr_count r"
  by (simp add: ring_items1_def)

lemma mux_frame_ring_size_items: "mux_frame_ring_size rp = length (ring_items rp)"
  by (cases rp) (simp_all add: mux_frame_ring_size_def)

lemma ring_slot_lt: "ring_inv1 r \<Longrightarrow> ring_slot r i < fr_capacity r"
  by (auto simp: ring_inv1_def ring_slot_def)

lemma ring_slot_inj:
  assumes "ring_inv1 r" "i < fr_capacity r" "j < fr_capacity r" "ring_slot r i = ring_slot r j"
  shows "i = j"
  using assms unfolding ring_slot_def by (blast intro: add_mod_inj)

lemma ring_items1_nth:
  "i < fr_count r \<Longrightarrow> ring_items1 r ! i = the (fr_entries r ! ring_slot r i)"
  by (simp add: ring_items1_def)

lemma ring_items1_eqI:
  assumes "fr_count r = length xs" "\<And>i. i < length xs \<Longrightarrow> fr_entries r ! ring_slot r i = Some (xs ! i)"
  shows "ring_items1 r = xs"
  using assms by (auto intro!: nth_equalityI simp: ring_items1_nth)

lemma ring_entry:
  assumes "ring_inv1 r" "i < fr_count r"
  shows "fr_entries r ! ring_slot r i = Some (ring_items1 r ! i)"
  using assms by (auto simp: ring_inv1_def ring_items1_nth)

section \<open>Refinement of the operations\<close>

lemma ring_new_refines:
  "mux_frame_ring_new e (2 ^ k) = (Some r, e') \<Longrightarrow> ring_inv1 r \<and> ring_items1 r = []"
  by (auto simp: mux_frame_ring_new_def ring_inv1_def ring_items1_def split: prod.splits if_splits)

lemma ring_grow_refines:
  assumes "ring_inv1 r" "mux_frame_ring_grow e (Some r) = (Some r', e')"
  shows "ring_inv1 r' \<and> ring_items1 r' = ring_items1 r \<and> fr_capacity r' = 2 * fr_capacity r"
proof -
  have pos: "0 < fr_capacity r" and cc: "fr_count r \<le> fr_capacity r"
    using assms(1) by (auto simp: ring_inv1_def)
  have r': "r' = \<lparr>fr_capacity = fr_capacity r * 2, fr_head = 0, fr_count = fr_count r,
      fr_entries = map (\<lambda>i. fr_entries r ! ring_slot r i) [0..<fr_count r]
        @ replicate (fr_capacity r * 2 - fr_count r) None\<rparr>"
    using assms pos by (auto simp: mux_frame_ring_grow_def Let_def ring_mask ring_slot_def
        split: prod.splits if_splits)
  have slot: "ring_slot r' i = i" if "i < fr_count r" for i
    using that cc pos by (simp add: r' ring_slot_def)
  have e: "fr_entries r' ! i = Some (ring_items1 r ! i)" if "i < fr_count r" for i
    using that assms(1) by (simp add: r' nth_append ring_entry)
  have "\<exists>k. fr_capacity r' = 2 ^ k"
    using assms(1) by (auto simp: ring_inv1_def r' intro: exI [of _ "Suc _"])
  then have "ring_inv1 r'"
    using cc pos slot e by (simp add: ring_inv1_def) (simp add: r')
  moreover have "ring_items1 r' = ring_items1 r"
    by (rule ring_items1_eqI) (use slot e in \<open>simp_all add: r'\<close>)
  ultimately show ?thesis
    by (simp add: r')
qed

lemma ring_store_refines:
  fixes x :: 'a
  assumes "ring_inv1 r" "fr_count r < fr_capacity r"
  defines "r' \<equiv> r\<lparr>fr_entries := (fr_entries r)[ring_slot r (fr_count r) := Some x], fr_count := fr_count r + 1\<rparr>"
  shows "ring_inv1 r' \<and> ring_items1 r' = ring_items1 r @ [x]"
proof -
  have slot: "ring_slot r' i = ring_slot r i" for i
    by (simp add: r'_def ring_slot_def)
  have e: "fr_entries r' ! ring_slot r' i = Some ((ring_items1 r @ [x]) ! i)" if "i < Suc (fr_count r)" for i
  proof (cases "i = fr_count r")
    case True
    then show ?thesis
      using assms(1) ring_slot_lt [OF assms(1), of i] unfolding slot
      by (simp add: r'_def ring_inv1_def nth_append)
  next
    case False
    then have "i < fr_count r" "ring_slot r i \<noteq> ring_slot r (fr_count r)"
      using that assms(2) ring_slot_inj [OF assms(1), of i "fr_count r"] by auto
    then show ?thesis
      using ring_entry [OF assms(1)] unfolding slot by (simp add: r'_def nth_append)
  qed
  have "ring_inv1 r'"
    using assms(1,2) e by (simp add: ring_inv1_def) (simp add: r'_def)
  moreover have "ring_items1 r' = ring_items1 r @ [x]"
    by (rule ring_items1_eqI) (use e in \<open>simp_all add: r'_def\<close>)
  ultimately show ?thesis
    by simp
qed

lemma ring_push_slot_refines:
  assumes "ring_inv1 r" "ring_push_slot e r x = (ok, rp, e')"
  shows "ring_inv rp \<and> ring_items rp = (if ok then ring_items1 r @ [x] else ring_items1 r)"
proof (cases "fr_capacity r \<le> fr_count r")
  case False
  then show ?thesis
    using assms ring_store_refines [OF assms(1), of x]
    by (auto simp: ring_push_slot_def Let_def ring_mask ring_slot_def)
next
  case True
  obtain g e1 where g: "mux_frame_ring_grow e (Some r) = (g, e1)"
    by fastforce
  show ?thesis
  proof (cases g)
    case None
    then show ?thesis
      using assms True g by (auto simp: ring_push_slot_def)
  next
    case (Some r')
    have r': "ring_inv1 r'" "ring_items1 r' = ring_items1 r" "fr_capacity r' = 2 * fr_capacity r"
      using ring_grow_refines [OF assms(1)] g Some by auto
    have "fr_count r' = fr_count r"
      using arg_cong [OF r'(2), of length] by simp
    moreover have "fr_count r \<le> fr_capacity r" "0 < fr_capacity r"
      using assms(1) by (auto simp: ring_inv1_def)
    ultimately have "fr_count r' < fr_capacity r'"
      using r'(3) by simp
    then show ?thesis
      using assms(2) True g Some r'(1,2) ring_store_refines [of r' x]
      by (auto simp: ring_push_slot_def Let_def ring_mask ring_slot_def)
  qed
qed

lemma ring_push_refines:
  assumes "ring_inv rp" "mux_frame_ring_push e rp x = (ok, rp', e')"
  shows "ring_inv rp' \<and> ring_items rp' = (if ok then ring_items rp @ [x] else ring_items rp)"
proof (cases rp)
  case None
  obtain r e1 where r: "mux_frame_ring_new e MUX_FRAME_RING_MIN = (r :: 'a mux_frame_ring option, e1)"
    by fastforce
  have "MUX_FRAME_RING_MIN = 2 ^ 4"
    by (simp add: MUX_FRAME_RING_MIN_def)
  then have "ring_inv1 s \<and> ring_items1 s = []" if "r = Some s" for s
    using r that ring_new_refines [of e 4 s e1] by simp
  then show ?thesis
    using assms None r ring_push_slot_refines [of _ e1 x ok rp' e']
    by (auto simp: mux_frame_ring_push_def split: option.splits)
next
  case (Some r)
  then show ?thesis
    using assms ring_push_slot_refines [of r e x ok rp' e'] by (simp add: mux_frame_ring_push_def)
qed

lemma ring_pop_refines:
  assumes "ring_inv rp" "ring_items rp = x # xs"
  shows "\<exists>rp'. mux_frame_ring_pop rp = (Some x, rp') \<and> ring_inv rp' \<and> ring_items rp' = xs"
proof -
  obtain r where r: "rp = Some r" "ring_inv1 r" "ring_items1 r = x # xs"
    using assms by (cases rp) auto
  have c: "fr_count r = Suc (length xs)"
    using arg_cong [OF r(3), of length] by simp
  have h: "fr_head r < fr_capacity r" "fr_count r \<le> fr_capacity r"
    using r(2) by (auto simp: ring_inv1_def)
  define r' where "r' = r\<lparr>fr_entries := (fr_entries r)[fr_head r := None],
    fr_head := (fr_head r + 1) AND (fr_capacity r - 1), fr_count := fr_count r - 1\<rparr>"
  have slot: "ring_slot r' i = ring_slot r (Suc i)" for i
    using ring_mask [OF r(2)] by (simp add: r'_def ring_slot_def mod_add_left_eq)
  have ne: "ring_slot r (Suc i) \<noteq> fr_head r" if "i < length xs" for i
    using ring_slot_inj [OF r(2), of "Suc i" 0] that h c by (auto simp: ring_slot_def)
  have e: "fr_entries r' ! ring_slot r' i = Some (xs ! i)" if "i < length xs" for i
    using that ring_entry [OF r(2), of "Suc i"] ne [OF that] c unfolding slot
    by (simp add: r'_def r(3))
  have "ring_inv1 r'"
    using r(2) e c h ring_mask [OF r(2), of "Suc (fr_head r)"] by (simp add: ring_inv1_def) (simp add: r'_def)
  moreover have "ring_items1 r' = xs"
    by (rule ring_items1_eqI) (use e c in \<open>simp_all add: r'_def\<close>)
  moreover have "fr_entries r ! fr_head r = Some x"
    using ring_entry [OF r(2), of 0] c h by (simp add: r(3) ring_slot_def)
  ultimately show ?thesis
    using c by (simp add: r(1) mux_frame_ring_pop_def r'_def)
qed

lemma ring_pop_empty:
  "ring_items rp = [] \<Longrightarrow> mux_frame_ring_pop rp = (None, rp)"
  by (cases rp) (auto simp: mux_frame_ring_pop_def ring_items1_def)

lemma ring_peek_refines:
  assumes "ring_inv rp" "i < length (ring_items rp)"
  shows "mux_frame_ring_peek rp i = Some (ring_items rp ! i)"
  using assms ring_entry [of _ i]
  by (cases rp) (auto simp: mux_frame_ring_peek_def ring_mask ring_slot_def)

lemma ring_peek_empty: "ring_items rp = [] \<Longrightarrow> mux_frame_ring_peek rp i = None"
  by (cases rp) (auto simp: mux_frame_ring_peek_def ring_items1_def)

lemma fold_put_freed:
  "fold (\<lambda>f p. mux_frame_put p f) fs pool = pool\<lparr>pool_freed := rev (map f_addr fs) @ pool_freed pool\<rparr>"
  by (induction fs arbitrary: pool) (simp_all add: mux_frame_put_def)

lemma ring_free_refines:
  assumes "ring_inv rp"
  shows "mux_frame_ring_free rp pool =
    (None, pool\<lparr>pool_freed := rev (map f_addr (ring_items rp)) @ pool_freed pool\<rparr>)"
proof (cases rp)
  case (Some r)
  then have inv: "ring_inv1 r"
    using assms by simp
  let ?g = "\<lambda>i. the (fr_entries r ! ((fr_head r + i) AND (fr_capacity r - 1)))"
  have "ring_items1 r = map ?g [0..<fr_count r]"
    using ring_mask [OF inv] by (simp add: ring_items1_def ring_slot_def)
  moreover have "fold (\<lambda>i p. mux_frame_put p (?g i)) [0..<fr_count r] pool =
      fold (\<lambda>f p. mux_frame_put p f) (map ?g [0..<fr_count r]) pool"
    by (simp add: fold_map comp_def)
  ultimately show ?thesis
    using Some by (simp add: mux_frame_ring_free_def fold_put_freed)
qed (simp add: mux_frame_ring_free_def)

lemma ring_set_head_refines:
  assumes "ring_inv rp" "ring_items rp = x # xs"
  shows "ring_inv (ring_set_head rp y) \<and> ring_items (ring_set_head rp y) = y # xs"
proof -
  obtain r where r: "rp = Some r" "ring_inv1 r" "ring_items1 r = x # xs"
    using assms by (cases rp) auto
  have c: "fr_count r = Suc (length xs)"
    using arg_cong [OF r(3), of length] by simp
  have h: "fr_head r < fr_capacity r" "fr_count r \<le> fr_capacity r" "length (fr_entries r) = fr_capacity r"
    using r(2) by (auto simp: ring_inv1_def)
  define r' where "r' = r\<lparr>fr_entries := (fr_entries r)[fr_head r := Some y]\<rparr>"
  have slot: "ring_slot r' i = ring_slot r i" for i
    by (simp add: r'_def ring_slot_def)
  have e: "fr_entries r' ! ring_slot r' i = Some ((y # xs) ! i)" if "i < Suc (length xs)" for i
  proof (cases i)
    case 0
    then show ?thesis
      using h by (simp add: r'_def ring_slot_def)
  next
    case (Suc j)
    then have "ring_slot r i \<noteq> fr_head r"
      using ring_slot_inj [OF r(2), of i 0] that h c by (auto simp: ring_slot_def)
    then show ?thesis
      using ring_entry [OF r(2), of i] that c Suc unfolding slot by (simp add: r'_def r(3))
  qed
  have "ring_inv1 r'"
    using r(2) e c by (simp add: ring_inv1_def) (simp add: r'_def)
  moreover have "ring_items1 r' = y # xs"
    by (rule ring_items1_eqI) (use e c in \<open>simp_all add: r'_def\<close>)
  moreover have "ring_set_head rp y = Some r'"
    using ring_mask [OF r(2), of "fr_head r"] h by (simp add: r(1) ring_set_head_def r'_def)
  ultimately show ?thesis
    by simp
qed

text \<open>The ring together with the heap it grows on is a queue.\<close>

definition ringq_push ::
    "'a mux_frame_ring option \<times> heap_env \<Rightarrow> 'a \<Rightarrow> bool \<times> 'a mux_frame_ring option \<times> heap_env" where
  "ringq_push q x = mux_frame_ring_push (snd q) (fst q) x"

definition ringq_pop ::
    "'a mux_frame_ring option \<times> heap_env \<Rightarrow> 'a option \<times> 'a mux_frame_ring option \<times> heap_env" where
  "ringq_pop q = (let (x, r) = mux_frame_ring_pop (fst q) in (x, r, snd q))"

interpretation ringq: fifo "\<lambda>q. ring_inv (fst q)" "\<lambda>q. ring_items (fst q)" ringq_push ringq_pop
  "\<lambda>_ _. True"
proof (unfold_locales, goal_cases)
  case (1 q x q')
  then show ?case
    using ring_push_refines [of "fst q" "snd q" x True "fst q'" "snd q'"] by (simp add: ringq_push_def)
next
  case (2 q x q')
  then show ?case
    using ring_push_refines [of "fst q" "snd q" x False "fst q'" "snd q'"] by (simp add: ringq_push_def)
next
  case (3 q x xs)
  then show ?case
    using ring_pop_refines [of "fst q" x xs] by (auto simp: ringq_pop_def)
next
  case (4 q)
  then show ?case
    using ring_pop_empty [of "fst q"] by (simp add: ringq_pop_def)
qed

text \<open>C1. The frame ring is a first-in first-out queue whatever its fill level and
  history: an append that succeeds, on an empty pointer, in place or through a
  reallocation that relocates every entry, puts the frame behind the others; one that
  fails for lack of memory loses nothing; and popping returns the entries in the
  order they were pushed.\<close>

theorem mux_frame_ring_fifo:
  assumes "ring_inv rp" "mux_frame_ring_push e rp x = (ok, rp', e')"
  shows "ring_inv rp' \<and> ring_items rp' = ring_items rp @ (if ok then [x] else [])
    \<and> (ok \<longrightarrow> (\<exists>q. ringq.pops (Suc (length (ring_items rp))) (rp', e') = (ring_items rp @ [x], q)
        \<and> ring_items (fst q) = []))"
  using ring_push_refines [OF assms] ringq.push_keeps_order [of "(rp, e)" x "(rp', e')"] assms
  by (auto simp: ringq_push_def)

theorem mux_frame_ring_fifo_witness:
  "ring_items (fst (snd (mux_frame_ring_push \<lparr>heap_ok = (\<lambda>_. True), heap_calls = 0\<rparr>
      (Some \<lparr>fr_capacity = 2, fr_head = 1, fr_count = 2, fr_entries = [Some (20 :: nat), Some 10]\<rparr>) 30)))
    = [10, 20, 30]"
proof -
  let ?r = "Some \<lparr>fr_capacity = 2, fr_head = 1, fr_count = 2, fr_entries = [Some (20 :: nat), Some 10]\<rparr>"
  let ?e = "\<lparr>heap_ok = (\<lambda>_. True), heap_calls = 0\<rparr> :: heap_env"
  have inv: "ring_inv ?r" "ring_items ?r = [10, 20]"
    by (auto simp: ring_inv1_def ring_slot_def ring_items1_def upt_rec less_2_cases_iff
        intro: exI [of _ 1])
  obtain ok rp' e' where p: "mux_frame_ring_push ?e ?r 30 = (ok, rp', e')"
    by (rule prod_cases3)
  moreover have "fst (mux_frame_ring_push ?e ?r 30)"
    by (simp add: mux_frame_ring_push_def ring_push_slot_def mux_frame_ring_grow_def heap_request_def)
  ultimately show ?thesis
    using mux_frame_ring_fifo [OF inv(1) p] inv(2) by simp
qed

end
