(* ===== verification/Frame_List.thy ===== *)
theory Frame_List
  imports Fifo
begin

text \<open>
  The intrusive singly linked frame list of \<^verbatim>\<open>mux/frame.h\<close>
  (\<^verbatim>\<open>mux_frame_list\<close>), on which every send queue is built.  Frames live
  at addresses; the store maps each address to that frame's \<^verbatim>\<open>next\<close>
  pointer, so an operation that relinks one frame is visible through every other
  pointer to it.  The theory shows that the pointer operations refine the
  operations on plain lists of frames, which is how the later theories model the
  queues.
\<close>

type_synonym next_store = "nat \<Rightarrow> nat option"

record mux_frame_list =
  fl_head :: "nat option"
  fl_tail :: "nat option"
  fl_count :: nat

type_synonym list_state = "next_store \<times> mux_frame_list"

definition mux_frame_list_push :: "list_state \<Rightarrow> nat \<Rightarrow> list_state" where
  "mux_frame_list_push st frame =
    (let (nx, list) = st;
         nx = nx(frame := None);
         (nx, list) = (case fl_tail list of
             Some t \<Rightarrow> (nx(t := Some frame), list)
           | None \<Rightarrow> (nx, list\<lparr>fl_head := Some frame\<rparr>))
     in (nx, list\<lparr>fl_tail := Some frame, fl_count := fl_count list + 1\<rparr>))"

definition mux_frame_list_push_front :: "list_state \<Rightarrow> nat \<Rightarrow> list_state" where
  "mux_frame_list_push_front st frame =
    (let (nx, list) = st;
         nx = nx(frame := fl_head list);
         list = list\<lparr>fl_head := Some frame\<rparr>;
         list = (if fl_tail list = None then list\<lparr>fl_tail := Some frame\<rparr> else list)
     in (nx, list\<lparr>fl_count := fl_count list + 1\<rparr>))"

definition mux_frame_list_pop :: "list_state \<Rightarrow> nat option \<times> list_state" where
  "mux_frame_list_pop st =
    (let (nx, list) = st in
     case fl_head list of
       None \<Rightarrow> (None, (nx, list))
     | Some frame \<Rightarrow>
         let list = list\<lparr>fl_head := nx frame\<rparr>;
             list = (if fl_head list = None then list\<lparr>fl_tail := None\<rparr> else list)
         in (Some frame, (nx(frame := None), list\<lparr>fl_count := fl_count list - 1\<rparr>)))"

text \<open>The caller guarantees that the node to remove exists; \<^const>\<open>None\<close> is the
  dereference of a null pointer.\<close>

definition mux_frame_list_remove_after ::
    "list_state \<Rightarrow> nat option \<Rightarrow> (nat \<times> list_state) option" where
  "mux_frame_list_remove_after st prev =
    (let (nx, list) = st in
     case (case prev of Some p \<Rightarrow> nx p | None \<Rightarrow> fl_head list) of
       None \<Rightarrow> None
     | Some frame \<Rightarrow>
         let n = nx frame;
             (nx, list) = (case prev of
                 Some p \<Rightarrow> (nx(p := n), list)
               | None \<Rightarrow> (nx, list\<lparr>fl_head := n\<rparr>));
             list = (if fl_tail list = Some frame then list\<lparr>fl_tail := prev\<rparr> else list)
         in Some (frame, (nx(frame := None), list\<lparr>fl_count := fl_count list - 1\<rparr>)))"

text \<open>The loop of \<^verbatim>\<open>mux_frame_list_clear\<close>; the frames it hands back to the
  pool are collected, latest first.\<close>

partial_function (option) clear_loop ::
    "next_store \<Rightarrow> nat option \<Rightarrow> nat list \<Rightarrow> (next_store \<times> nat list) option" where
  "clear_loop nx p freed =
    (case p of
       None \<Rightarrow> Some (nx, freed)
     | Some frame \<Rightarrow> clear_loop (nx(frame := None)) (nx frame) (frame # freed))"

definition mux_frame_list_clear :: "list_state \<Rightarrow> (nat list \<times> list_state) option" where
  "mux_frame_list_clear st =
    (case clear_loop (fst st) (fl_head (snd st)) [] of
       None \<Rightarrow> None
     | Some (nx, freed) \<Rightarrow>
         Some (rev freed, (nx, \<lparr>fl_head = None, fl_tail = None, fl_count = 0\<rparr>)))"

section \<open>The list a state represents\<close>

fun chain :: "next_store \<Rightarrow> nat option \<Rightarrow> nat list \<Rightarrow> bool" where
  "chain nx p [] = (p = None)"
| "chain nx p (a # as) = (p = Some a \<and> chain nx (nx a) as)"

primrec walk :: "next_store \<Rightarrow> nat option \<Rightarrow> nat \<Rightarrow> nat list" where
  "walk nx p 0 = []"
| "walk nx p (Suc n) = (case p of None \<Rightarrow> [] | Some a \<Rightarrow> a # walk nx (nx a) n)"

definition list_items :: "list_state \<Rightarrow> nat list" where
  "list_items st = walk (fst st) (fl_head (snd st)) (fl_count (snd st))"

definition list_repr :: "list_state \<Rightarrow> nat list \<Rightarrow> bool" where
  "list_repr st as \<longleftrightarrow> chain (fst st) (fl_head (snd st)) as \<and> distinct as
    \<and> fl_tail (snd st) = (if as = [] then None else Some (last as))
    \<and> fl_count (snd st) = length as"

definition list_inv :: "list_state \<Rightarrow> bool" where
  "list_inv st \<longleftrightarrow> list_repr st (list_items st)"

lemma chain_walk: "chain nx p as \<Longrightarrow> walk nx p (length as) = as"
  by (induction as arbitrary: p) auto

lemma list_repr_items: "list_repr st as \<Longrightarrow> list_items st = as"
  by (auto simp: list_repr_def list_items_def chain_walk)

lemma list_repr_inv: "list_repr st as \<longleftrightarrow> list_inv st \<and> list_items st = as"
  by (auto simp: list_inv_def dest: list_repr_items)

lemma chain_upd [simp]: "a \<notin> set as \<Longrightarrow> chain (nx(a := v)) p as = chain nx p as"
  by (induction as arbitrary: p) auto

lemma chain_snoc_link:
  "chain nx p as \<Longrightarrow> distinct as \<Longrightarrow> as \<noteq> [] \<Longrightarrow> x \<notin> set as \<Longrightarrow>
    chain (nx(x := None, last as := Some x)) p (as @ [x])"
  by (induction as arbitrary: p) auto

section \<open>Refinement\<close>

lemma push_refines:
  assumes "list_repr st as" "x \<notin> set as"
  shows "list_repr (mux_frame_list_push st x) (as @ [x])"
  using assms chain_snoc_link [of "fst st" "fl_head (snd st)" as x]
  by (cases "as = []") (auto simp: list_repr_def mux_frame_list_push_def split: prod.splits)

lemma push_front_refines:
  assumes "list_repr st as" "x \<notin> set as"
  shows "list_repr (mux_frame_list_push_front st x) (x # as)"
  using assms by (auto simp: list_repr_def mux_frame_list_push_front_def split: prod.splits)

lemma pop_refines:
  assumes "list_repr st (x # as)"
  shows "\<exists>st'. mux_frame_list_pop st = (Some x, st') \<and> list_repr st' as"
  using assms by (cases as) (auto simp: list_repr_def mux_frame_list_pop_def split: prod.splits)

lemma remove_head_refines:
  assumes "list_repr st (x # as)"
  shows "\<exists>st'. mux_frame_list_remove_after st None = Some (x, st') \<and> list_repr st' as"
  using assms
  by (cases as) (auto simp: list_repr_def mux_frame_list_remove_after_def Let_def split: prod.splits)

lemma chain_unlink:
  "chain nx p (as @ a # x # bs) \<Longrightarrow> distinct (as @ a # x # bs) \<Longrightarrow>
    nx a = Some x \<and> chain (nx(a := nx x, x := None)) p (as @ a # bs)"
  by (induction as arbitrary: p) auto

lemma remove_after_refines:
  assumes "list_repr st (as @ a # x # bs)"
  shows "\<exists>st'. mux_frame_list_remove_after st (Some a) = Some (x, st') \<and> list_repr st' (as @ a # bs)"
  using assms chain_unlink [of "fst st" "fl_head (snd st)" as a x bs]
  by (cases "bs = []")
    (auto simp: list_repr_def mux_frame_list_remove_after_def Let_def split: prod.splits)

lemma clear_loop_chain:
  "chain nx p as \<Longrightarrow> distinct as \<Longrightarrow>
    \<exists>nx'. clear_loop nx p fr = Some (nx', rev as @ fr) \<and> (\<forall>a\<in>set as. nx' a = None)
      \<and> (\<forall>a. a \<notin> set as \<longrightarrow> nx' a = nx a)"
proof (induction as arbitrary: p nx fr)
  case (Cons a as)
  have "chain (nx(a := None)) (nx a) as"
    using Cons.prems by simp
  from Cons.IH [OF this, of "a # fr"] Cons.prems
  obtain nx' where "clear_loop (nx(a := None)) (nx a) (a # fr) = Some (nx', rev as @ a # fr)"
    "\<forall>b\<in>set as. nx' b = None" "\<forall>b. b \<notin> set as \<longrightarrow> nx' b = (nx(a := None)) b"
    by (auto simp del: fun_upd_apply)
  then show ?case
    using Cons.prems by (subst clear_loop.simps) auto
qed (simp add: clear_loop.simps)

lemma clear_refines:
  assumes "list_repr st as"
  shows "\<exists>st'. mux_frame_list_clear st = Some (as, st') \<and> list_repr st' []"
  using assms clear_loop_chain [of "fst st" "fl_head (snd st)" as "[]"]
  by (auto simp: list_repr_def mux_frame_list_clear_def)

interpretation flq: fifo list_inv list_items "\<lambda>st x. (True, mux_frame_list_push st x)" mux_frame_list_pop
  "\<lambda>st x. x \<notin> set (list_items st)"
proof (unfold_locales, goal_cases)
  case (1 q x q')
  then show ?case
    using push_refines [of q "list_items q" x] by (auto simp: list_repr_inv)
next
  case (3 q x xs)
  then show ?case
    using pop_refines [of q x xs] by (auto simp: list_repr_inv)
next
  case (4 q)
  then have "fl_head (snd q) = None"
    by (auto simp: list_inv_def list_repr_def)
  then show ?case
    by (auto simp: mux_frame_list_pop_def split: prod.splits)
qed simp

text \<open>C9. The pointer operations on a send queue implement the list operations: from a
  well-linked queue, appending, inserting at the head, popping, unlinking behind a
  given frame and clearing give a well-linked queue holding exactly the expected
  frames in the expected order, and clearing ends having returned every frame once.\<close>

theorem mux_frame_list_refines:
  assumes "list_repr st as"
  shows "(\<forall>x. x \<notin> set as \<longrightarrow> list_repr (mux_frame_list_push st x) (as @ [x])
        \<and> list_repr (mux_frame_list_push_front st x) (x # as))
    \<and> (\<forall>x xs. as = x # xs \<longrightarrow>
        (\<exists>st'. mux_frame_list_pop st = (Some x, st') \<and> list_repr st' xs)
        \<and> (\<exists>st'. mux_frame_list_remove_after st None = Some (x, st') \<and> list_repr st' xs))
    \<and> (\<forall>us a x vs. as = us @ a # x # vs \<longrightarrow>
        (\<exists>st'. mux_frame_list_remove_after st (Some a) = Some (x, st') \<and> list_repr st' (us @ a # vs)))
    \<and> (\<exists>st'. mux_frame_list_clear st = Some (as, st') \<and> list_repr st' [])"
  using assms push_refines push_front_refines pop_refines remove_head_refines remove_after_refines
    clear_refines by blast

theorem mux_frame_list_refines_witness:
  "let st = ((\<lambda>a. if a = 1 then Some 2 else None), \<lparr>fl_head = Some 1, fl_tail = Some 2, fl_count = 2\<rparr>)
   in list_repr (mux_frame_list_push st 3) [1, 2, 3]
      \<and> (\<exists>st'. mux_frame_list_remove_after st (Some 1) = Some (2, st') \<and> list_repr st' [1])"
proof -
  let ?st = "((\<lambda>a. if a = 1 then Some 2 else None), \<lparr>fl_head = Some 1, fl_tail = Some 2, fl_count = 2\<rparr>) :: list_state"
  have "list_repr ?st [1, 2]"
    by (simp add: list_repr_def)
  note r = mux_frame_list_refines [OF this]
  have "list_repr (mux_frame_list_push ?st 3) ([1, 2] @ [3])"
    using r [THEN conjunct1, rule_format, of 3] by simp
  moreover have "\<exists>st'. mux_frame_list_remove_after ?st (Some 1) = Some (2, st') \<and> list_repr st' ([] @ [1])"
    using r [THEN conjunct2, THEN conjunct2, THEN conjunct1, rule_format, of "[]" 1 2 "[]"] by simp
  ultimately show ?thesis
    by simp
qed

end
