(* ===== verification/Wndfilter.thy ===== *)
theory Wndfilter
  imports Main
begin

text \<open>
  The windowed min/max tracker of
  \<^verbatim>\<open>contrib/csnippets/algo/wndfilter.c\<close>, which the bandwidth and
  round-trip estimators filter their samples with.  It keeps three samples instead of
  the whole window.  The invariant relates them to the history of all samples fed
  in: each of the three is a sample of the history that nothing after it beats.
\<close>

record wndfilter_sample =
  ws_t :: int
  ws_v :: int

record wndfilter =
  wf_s0 :: wndfilter_sample
  wf_s1 :: wndfilter_sample
  wf_s2 :: wndfilter_sample
  wf_ready :: bool

definition wndfilter_get :: "wndfilter \<Rightarrow> int" where
  "wndfilter_get w = ws_v (wf_s0 w)"

definition wndfilter_reset :: "int \<Rightarrow> int \<Rightarrow> wndfilter" where
  "wndfilter_reset t v =
    (let val = \<lparr>ws_t = t, ws_v = v\<rparr>
     in \<lparr>wf_s0 = val, wf_s1 = val, wf_s2 = val, wf_ready = True\<rparr>)"

text \<open>The elapsed time as an unsigned 64-bit difference.\<close>

definition time_delta :: "int \<Rightarrow> int \<Rightarrow> nat" where
  "time_delta now before = nat ((now - before) mod 2 ^ 64)"

definition subwin_update :: "wndfilter \<Rightarrow> int \<Rightarrow> wndfilter_sample \<Rightarrow> wndfilter" where
  "subwin_update w wnd val =
    (let uwnd = nat (wnd mod 2 ^ 64);
         dt = time_delta (ws_t val) (ws_t (wf_s0 w))
     in if dt > uwnd then
          (let w = w\<lparr>wf_s0 := wf_s1 w, wf_s1 := wf_s2 w, wf_s2 := val\<rparr>
           in if time_delta (ws_t val) (ws_t (wf_s0 w)) > uwnd
              then w\<lparr>wf_s0 := wf_s1 w, wf_s1 := wf_s2 w, wf_s2 := val\<rparr>
              else w)
        else if ws_t (wf_s1 w) = ws_t (wf_s0 w) \<and> dt > uwnd div 4 then w\<lparr>wf_s1 := val, wf_s2 := val\<rparr>
        else if ws_t (wf_s2 w) = ws_t (wf_s1 w) \<and> dt > uwnd div 2 then w\<lparr>wf_s2 := val\<rparr>
        else w)"

text \<open>The C functions return the tracked value, which is \<^const>\<open>wndfilter_get\<close> of the
  new state.\<close>

definition wndfilter_update_min :: "wndfilter \<Rightarrow> int \<Rightarrow> int \<Rightarrow> int \<Rightarrow> wndfilter" where
  "wndfilter_update_min w wnd t v =
    (if \<not> wf_ready w then wndfilter_reset t v
     else if v \<le> ws_v (wf_s0 w) \<or> time_delta t (ws_t (wf_s2 w)) > nat (wnd mod 2 ^ 64)
     then wndfilter_reset t v
     else let val = \<lparr>ws_t = t, ws_v = v\<rparr>;
              w = (if v \<le> ws_v (wf_s1 w) then w\<lparr>wf_s1 := val, wf_s2 := val\<rparr>
                   else if v \<le> ws_v (wf_s2 w) then w\<lparr>wf_s2 := val\<rparr>
                   else w)
          in subwin_update w wnd val)"

definition wndfilter_update_max :: "wndfilter \<Rightarrow> int \<Rightarrow> int \<Rightarrow> int \<Rightarrow> wndfilter" where
  "wndfilter_update_max w wnd t v =
    (if \<not> wf_ready w then wndfilter_reset t v
     else if v \<ge> ws_v (wf_s0 w) \<or> time_delta t (ws_t (wf_s2 w)) > nat (wnd mod 2 ^ 64)
     then wndfilter_reset t v
     else let val = \<lparr>ws_t = t, ws_v = v\<rparr>;
              w = (if v \<ge> ws_v (wf_s1 w) then w\<lparr>wf_s1 := val, wf_s2 := val\<rparr>
                   else if v \<ge> ws_v (wf_s2 w) then w\<lparr>wf_s2 := val\<rparr>
                   else w)
          in subwin_update w wnd val)"

section \<open>Relation to the history\<close>

text \<open>\<open>dominates h s i\<close>: sample \<open>s\<close> is the \<open>i\<close>-th of the history and no later sample is
  larger.\<close>

definition dominates :: "wndfilter_sample list \<Rightarrow> wndfilter_sample \<Rightarrow> nat \<Rightarrow> bool" where
  "dominates h s i \<longleftrightarrow> i < length h \<and> h ! i = s \<and> (\<forall>j. i \<le> j \<and> j < length h \<longrightarrow> ws_v (h ! j) \<le> ws_v s)"

text \<open>The three slots are samples of the history, in order, each dominating what followed
  it.\<close>

definition slots_ok :: "wndfilter_sample list \<Rightarrow> wndfilter \<Rightarrow> bool" where
  "slots_ok h w \<longleftrightarrow> (\<exists>i j k. i \<le> j \<and> j \<le> k \<and> dominates h (wf_s0 w) i \<and> dominates h (wf_s1 w) j
      \<and> dominates h (wf_s2 w) k)"

definition max_inv :: "wndfilter_sample list \<Rightarrow> wndfilter \<Rightarrow> bool" where
  "max_inv h w \<longleftrightarrow> (if h = [] then \<not> wf_ready w else wf_ready w \<and> slots_ok h w)"

lemma slots_okI:
  "dominates h (wf_s0 w) i \<Longrightarrow> dominates h (wf_s1 w) j \<Longrightarrow> dominates h (wf_s2 w) k \<Longrightarrow>
    i \<le> j \<Longrightarrow> j \<le> k \<Longrightarrow> slots_ok h w"
  by (auto simp: slots_ok_def)

lemma dominates_snoc:
  "dominates h s i \<Longrightarrow> ws_v x \<le> ws_v s \<Longrightarrow> dominates (h @ [x]) s i"
  by (auto simp: dominates_def nth_append less_Suc_eq_le)

lemma dominates_last: "dominates (h @ [x]) x (length h)"
  by (auto simp: dominates_def nth_append)

lemma dominates_le: "dominates (h @ [x]) s i \<Longrightarrow> i \<le> length h"
  by (simp add: dominates_def)

lemma max_inv_reset: "max_inv (h @ [\<lparr>ws_t = t, ws_v = v\<rparr>]) (wndfilter_reset t v)"
  using dominates_last [of h "\<lparr>ws_t = t, ws_v = v\<rparr>"]
  by (auto simp: max_inv_def wndfilter_reset_def Let_def intro: slots_okI)

lemma subwin_update_slots:
  assumes "slots_ok (h @ [x]) w"
  shows "slots_ok (h @ [x]) (subwin_update w wnd x)"
proof -
  let ?h = "h @ [x]" and ?n = "length h"
  obtain i j k where d: "dominates ?h (wf_s0 w) i" "dominates ?h (wf_s1 w) j"
      "dominates ?h (wf_s2 w) k" "i \<le> j" "j \<le> k"
    using assms by (auto simp: slots_ok_def)
  note l = dominates_last [of h x] and le = dominates_le [OF d(3)]
  have "slots_ok ?h (w\<lparr>wf_s0 := wf_s1 w, wf_s1 := wf_s2 w, wf_s2 := x\<rparr>)"
    by (rule slots_okI [of _ _ j k ?n]) (use d l le in auto)
  moreover have "slots_ok ?h (w\<lparr>wf_s0 := wf_s2 w, wf_s1 := x, wf_s2 := x\<rparr>)"
    by (rule slots_okI [of _ _ k ?n ?n]) (use d l le in auto)
  moreover have "slots_ok ?h (w\<lparr>wf_s1 := x, wf_s2 := x\<rparr>)"
    by (rule slots_okI [of _ _ i ?n ?n]) (use d l le in auto)
  moreover have "slots_ok ?h (w\<lparr>wf_s2 := x\<rparr>)"
    by (rule slots_okI [of _ _ i j ?n]) (use d l le in auto)
  ultimately show ?thesis
    using assms by (simp add: subwin_update_def Let_def)
qed

lemma subwin_update_ready [simp]: "wf_ready (subwin_update w wnd x) = wf_ready w"
  by (simp add: subwin_update_def Let_def)

lemma file_sample_slots:
  assumes "slots_ok h w" "ws_v x < ws_v (wf_s0 w)"
  shows "slots_ok (h @ [x])
    (if ws_v x \<ge> ws_v (wf_s1 w) then w\<lparr>wf_s1 := x, wf_s2 := x\<rparr>
     else if ws_v x \<ge> ws_v (wf_s2 w) then w\<lparr>wf_s2 := x\<rparr> else w)"
proof -
  let ?n = "length h"
  obtain i j k where d: "dominates h (wf_s0 w) i" "dominates h (wf_s1 w) j"
      "dominates h (wf_s2 w) k" "i \<le> j" "j \<le> k"
    using assms by (auto simp: slots_ok_def)
  then have le: "i \<le> ?n" "j \<le> ?n" "k \<le> ?n"
    by (auto simp: dominates_def)
  note l = dominates_last [of h x] and s = dominates_snoc [of h _ _ x]
  have "slots_ok (h @ [x]) (w\<lparr>wf_s1 := x, wf_s2 := x\<rparr>)"
    by (rule slots_okI [of _ _ i ?n ?n]) (use d l le s assms(2) in auto)
  moreover have "slots_ok (h @ [x]) (w\<lparr>wf_s2 := x\<rparr>)" if "ws_v x < ws_v (wf_s1 w)"
    by (rule slots_okI [of _ _ i j ?n]) (use d l le s that assms(2) in auto)
  moreover have "slots_ok (h @ [x]) w" if "ws_v x < ws_v (wf_s1 w)" "ws_v x < ws_v (wf_s2 w)"
    by (rule slots_okI [of _ _ i j k]) (use d l le s that assms(2) in auto)
  ultimately show ?thesis
    by auto
qed

lemma update_max_inv:
  assumes "max_inv h w"
  shows "max_inv (h @ [\<lparr>ws_t = t, ws_v = v\<rparr>]) (wndfilter_update_max w wnd t v)"
proof (cases "\<not> wf_ready w \<or> v \<ge> ws_v (wf_s0 w) \<or> time_delta t (ws_t (wf_s2 w)) > nat (wnd mod 2 ^ 64)")
  case True
  then show ?thesis
    using max_inv_reset by (auto simp: wndfilter_update_max_def)
next
  case False
  let ?x = "\<lparr>ws_t = t, ws_v = v\<rparr>"
  have "slots_ok h w"
    using assms False by (auto simp: max_inv_def split: if_splits)
  from subwin_update_slots [OF file_sample_slots [OF this, of ?x], of wnd]
  show ?thesis
    using False by (simp add: wndfilter_update_max_def max_inv_def Let_def split: if_splits)
qed

text \<open>The tracked sample is never older than the window.\<close>

lemma time_delta_self [simp]: "time_delta t t = 0"
  by (simp add: time_delta_def)

lemma subwin_update_fresh:
  "time_delta (ws_t x) (ws_t (wf_s2 w)) \<le> nat (wnd mod 2 ^ 64) \<Longrightarrow>
    time_delta (ws_t x) (ws_t (wf_s0 (subwin_update w wnd x))) \<le> nat (wnd mod 2 ^ 64)"
  unfolding subwin_update_def Let_def by (auto split: if_split)

lemma update_max_fresh:
  "time_delta t (ws_t (wf_s0 (wndfilter_update_max w wnd t v))) \<le> nat (wnd mod 2 ^ 64)"
proof (cases "\<not> wf_ready w \<or> v \<ge> ws_v (wf_s0 w) \<or> time_delta t (ws_t (wf_s2 w)) > nat (wnd mod 2 ^ 64)")
  case True
  then show ?thesis
    by (auto simp: wndfilter_update_max_def wndfilter_reset_def Let_def)
next
  case False
  let ?x = "\<lparr>ws_t = t, ws_v = v\<rparr>"
  let ?w = "if v \<ge> ws_v (wf_s1 w) then w\<lparr>wf_s1 := ?x, wf_s2 := ?x\<rparr>
     else if v \<ge> ws_v (wf_s2 w) then w\<lparr>wf_s2 := ?x\<rparr> else w"
  have "time_delta t (ws_t (wf_s2 ?w)) \<le> nat (wnd mod 2 ^ 64)"
    using False by simp
  then show ?thesis
    using False subwin_update_fresh [of ?x ?w wnd] by (simp add: wndfilter_update_max_def Let_def)
qed

section \<open>Minimum and maximum are dual\<close>

definition neg_sample :: "wndfilter_sample \<Rightarrow> wndfilter_sample" where
  "neg_sample s = s\<lparr>ws_v := - ws_v s\<rparr>"

definition neg_filter :: "wndfilter \<Rightarrow> wndfilter" where
  "neg_filter w = \<lparr>wf_s0 = neg_sample (wf_s0 w), wf_s1 = neg_sample (wf_s1 w),
    wf_s2 = neg_sample (wf_s2 w), wf_ready = wf_ready w\<rparr>"

lemma neg_sample_simps [simp]:
  "ws_t (neg_sample s) = ws_t s" "ws_v (neg_sample s) = - ws_v s"
  by (simp_all add: neg_sample_def)

lemma neg_neg_sample [simp]: "neg_sample (neg_sample s) = s"
  by (simp add: neg_sample_def)

lemma neg_filter_simps [simp]:
  "wf_s0 (neg_filter w) = neg_sample (wf_s0 w)" "wf_s1 (neg_filter w) = neg_sample (wf_s1 w)"
  "wf_s2 (neg_filter w) = neg_sample (wf_s2 w)" "wf_ready (neg_filter w) = wf_ready w"
  by (simp_all add: neg_filter_def)

lemma subwin_update_neg:
  "subwin_update (neg_filter w) wnd (neg_sample x) = neg_filter (subwin_update w wnd x)"
  unfolding subwin_update_def Let_def by (simp add: neg_filter_def split: if_split)

lemma wndfilter_reset_neg: "wndfilter_reset t (- v) = neg_filter (wndfilter_reset t v)"
  by (simp add: wndfilter_reset_def neg_filter_def neg_sample_def Let_def)

lemma update_max_neg:
  "wndfilter_update_max (neg_filter w) wnd t (- v) = neg_filter (wndfilter_update_min w wnd t v)"
proof -
  let ?x = "\<lparr>ws_t = t, ws_v = v\<rparr>"
  have x: "\<lparr>ws_t = t, ws_v = - v\<rparr> = neg_sample ?x"
    by (simp add: neg_sample_def)
  have u: "(neg_filter w)\<lparr>wf_s1 := neg_sample ?x, wf_s2 := neg_sample ?x\<rparr> =
        neg_filter (w\<lparr>wf_s1 := ?x, wf_s2 := ?x\<rparr>)"
      "(neg_filter w)\<lparr>wf_s2 := neg_sample ?x\<rparr> = neg_filter (w\<lparr>wf_s2 := ?x\<rparr>)"
    by (simp_all add: neg_filter_def)
  show ?thesis
    unfolding wndfilter_update_min_def wndfilter_update_max_def Let_def x
    by (simp add: u wndfilter_reset_neg subwin_update_neg)
qed

section \<open>A history of samples\<close>

text \<open>The filter after a sequence of samples, and the samples it has kept as its three choices.\<close>

definition feed_max :: "int \<Rightarrow> wndfilter \<Rightarrow> wndfilter_sample list \<Rightarrow> wndfilter" where
  "feed_max wnd w h = fold (\<lambda>x w. wndfilter_update_max w wnd (ws_t x) (ws_v x)) h w"

definition feed_min :: "int \<Rightarrow> wndfilter \<Rightarrow> wndfilter_sample list \<Rightarrow> wndfilter" where
  "feed_min wnd w h = fold (\<lambda>x w. wndfilter_update_min w wnd (ws_t x) (ws_v x)) h w"

definition choices :: "wndfilter \<Rightarrow> wndfilter_sample set" where
  "choices w = (if wf_ready w then {wf_s0 w, wf_s1 w, wf_s2 w} else {})"

text \<open>Times that a monotonic clock can deliver to a signed 64-bit integer.\<close>

definition timed :: "wndfilter_sample list \<Rightarrow> bool" where
  "timed h \<longleftrightarrow> sorted (map ws_t h) \<and> (\<forall>s\<in>set h. - (2 ^ 63) \<le> ws_t s \<and> ws_t s < 2 ^ 63)"

lemma feed_snoc:
  "feed_max wnd w (h @ [x]) = wndfilter_update_max (feed_max wnd w h) wnd (ws_t x) (ws_v x)"
  by (simp add: feed_max_def)

lemma feed_max_inv: "\<not> wf_ready w \<Longrightarrow> max_inv h (feed_max wnd w h)"
proof (induction h rule: rev_induct)
  case (snoc x h)
  then show ?case
    using update_max_inv [of h "feed_max wnd w h" "ws_t x" "ws_v x" wnd] by (cases x) (simp add: feed_snoc)
qed (simp add: feed_max_def max_inv_def)

lemma feed_min_neg: "neg_filter (feed_min wnd w h) = feed_max wnd (neg_filter w) (map neg_sample h)"
  by (induction h arbitrary: w) (simp_all add: feed_min_def feed_max_def update_max_neg [symmetric])

lemma feed_max_cold: "\<not> wf_ready w \<Longrightarrow> \<not> wf_ready u \<Longrightarrow> h \<noteq> [] \<Longrightarrow> feed_max wnd w h = feed_max wnd u h"
  by (cases h) (simp_all add: feed_max_def wndfilter_update_max_def)

lemma timed_snoc: "timed (h @ [x]) \<Longrightarrow> timed h"
  by (simp add: timed_def sorted_append)

text \<open>The choices are samples of the history, ordered by time and by value.\<close>

lemma choices_ordered:
  assumes "max_inv h w" "sorted (map ws_t h)" "h \<noteq> []"
  shows "wf_ready w" "choices w \<subseteq> set h" "ws_t (wf_s0 w) \<le> ws_t (wf_s1 w)" "ws_t (wf_s1 w) \<le> ws_t (wf_s2 w)"
    "ws_v (wf_s1 w) \<le> ws_v (wf_s0 w)" "ws_v (wf_s2 w) \<le> ws_v (wf_s1 w)"
proof -
  show r: "wf_ready w"
    using assms by (simp add: max_inv_def)
  obtain i j k where d: "i \<le> j" "j \<le> k" "dominates h (wf_s0 w) i" "dominates h (wf_s1 w) j" "dominates h (wf_s2 w) k"
    using assms by (auto simp: max_inv_def slots_ok_def)
  then have l: "h ! i = wf_s0 w" "h ! j = wf_s1 w" "h ! k = wf_s2 w" "i < length h" "j < length h" "k < length h"
    by (simp_all add: dominates_def)
  have "wf_s0 w \<in> set h" "wf_s1 w \<in> set h" "wf_s2 w \<in> set h"
    using l nth_mem by metis+
  then show "choices w \<subseteq> set h"
    by (simp add: choices_def r)
  show "ws_t (wf_s0 w) \<le> ws_t (wf_s1 w)" "ws_t (wf_s1 w) \<le> ws_t (wf_s2 w)"
    using sorted_nth_mono [OF assms(2) d(1)] sorted_nth_mono [OF assms(2) d(2)] l by simp_all
  show "ws_v (wf_s1 w) \<le> ws_v (wf_s0 w)" "ws_v (wf_s2 w) \<le> ws_v (wf_s1 w)"
    using d l by (metis dominates_def)+
qed

lemma time_delta_exact: "t' \<le> t \<Longrightarrow> t - t' < 2 ^ 64 \<Longrightarrow> time_delta t t' = nat (t - t')"
  by (simp add: time_delta_def)

text \<open>One step on ordered choices: the new value is the largest of the sample and of the
  choices that are still in the window.\<close>

lemma update_max_step:
  fixes t v wnd :: int
  assumes "wf_ready w" "0 \<le> wnd" "wnd < 2 ^ 63"
    "ws_t (wf_s0 w) \<le> ws_t (wf_s1 w)" "ws_t (wf_s1 w) \<le> ws_t (wf_s2 w)" "ws_t (wf_s2 w) \<le> t"
    "t - ws_t (wf_s0 w) < 2 ^ 64"
    "ws_v (wf_s1 w) \<le> ws_v (wf_s0 w)" "ws_v (wf_s2 w) \<le> ws_v (wf_s1 w)"
  shows "wndfilter_get (wndfilter_update_max w wnd t v)
    = Max (insert v (ws_v ` {s \<in> choices w. t - ws_t s \<le> wnd}))"
proof -
  obtain a b c where w: "wf_s0 w = a" "wf_s1 w = b" "wf_s2 w = c"
    by simp
  have u: "nat (wnd mod 2 ^ 64) = nat wnd"
    using assms(2,3) by simp
  have d: "time_delta t (ws_t a) > nat wnd \<longleftrightarrow> t - ws_t a > wnd" "time_delta t (ws_t b) > nat wnd \<longleftrightarrow> t - ws_t b > wnd"
    "time_delta t (ws_t c) > nat wnd \<longleftrightarrow> t - ws_t c > wnd"
    using assms(2-7) by (auto simp: w time_delta_exact)
  have g: "wndfilter_get (wndfilter_update_max w wnd t v) =
    (if v \<ge> ws_v a \<or> t - ws_t c > wnd then v
     else if t - ws_t a \<le> wnd then ws_v a
     else if ws_v b \<le> v then v
     else if t - ws_t b \<le> wnd then ws_v b
     else if ws_v c \<le> v then v else ws_v c)"
    unfolding wndfilter_update_max_def subwin_update_def Let_def u w
    using assms(1) d by (simp add: w wndfilter_get_def wndfilter_reset_def Let_def)
  show ?thesis
    unfolding g using assms(1,4-9)
    by (intro Max_eqI [symmetric]) (auto simp: choices_def w split: if_splits)
qed

lemma feed_step:
  assumes "\<not> wf_ready w0" "timed (h @ [x])" "0 \<le> wnd" "wnd < 2 ^ 63"
  shows "wndfilter_get (feed_max wnd w0 (h @ [x]))
    = Max (insert (ws_v x) (ws_v ` {s \<in> choices (feed_max wnd w0 h). ws_t x - ws_t s \<le> wnd}))"
proof (cases "h = []")
  case True
  then show ?thesis
    using assms(1) by (simp add: feed_max_def wndfilter_update_max_def wndfilter_reset_def wndfilter_get_def choices_def
        Let_def)
next
  case False
  define w where "w = feed_max wnd w0 h"
  have "sorted (map ws_t h)"
    using timed_snoc [OF assms(2)] by (simp add: timed_def)
  note o = choices_ordered [OF feed_max_inv [OF assms(1)] this False, of wnd, folded w_def]
  have "wf_s2 w \<in> set h" "wf_s0 w \<in> set h"
    using o(1,2) by (simp_all add: choices_def)
  then have "ws_t (wf_s2 w) \<le> ws_t x" "ws_t x - ws_t (wf_s0 w) < 2 ^ 64"
    using assms(2) by (auto simp: timed_def sorted_append)
  then show ?thesis
    unfolding feed_snoc w_def [symmetric] by (rule update_max_step [OF o(1) assms(3,4) o(3,4) _ _ o(5,6)])
qed

text \<open>While the whole history fits into the window nothing is lost.\<close>

lemma feed_within:
  assumes "\<not> wf_ready w0" "0 \<le> wnd" "wnd < 2 ^ 63" "h \<noteq> []" "timed h" "ws_t (last h) - ws_t (hd h) \<le> wnd"
  shows "wndfilter_get (feed_max wnd w0 h) = Max (ws_v ` set h)"
  using assms(4-6)
proof (induction h rule: rev_induct)
  case (snoc x h)
  note step = feed_step [OF assms(1) snoc.prems(2) assms(2,3)]
  show ?case
  proof (cases "h = []")
    case True
    then show ?thesis
      using step assms(1) by (simp add: feed_max_def choices_def)
  next
    case False
    define w where "w = feed_max wnd w0 h"
    have t: "timed h" "sorted (map ws_t h)" "ws_t (hd h) \<le> ws_t s" if "s \<in> set h" for s
      using timed_snoc [OF snoc.prems(2)] that False by (cases h; auto simp: timed_def)+
    have le: "ws_t (last h) \<le> ws_t x"
      using snoc.prems(2) False by (simp add: timed_def sorted_append)
    have w: "wndfilter_get w = Max (ws_v ` set h)"
      unfolding w_def using snoc.IH [OF False] t(1) [of "hd h"] snoc.prems(3) False le by simp
    note o = choices_ordered [OF feed_max_inv [OF assms(1)] _ False, of wnd, folded w_def]
    have s: "sorted (map ws_t h)"
      using t(2) [of "hd h"] False by simp
    have c: "{s \<in> choices w. ws_t x - ws_t s \<le> wnd} = {wf_s0 w, wf_s1 w, wf_s2 w}"
      using o(1,2) [OF s] t(3) snoc.prems(3) False by (force simp: choices_def)
    have "Max (insert (ws_v x) (ws_v ` {s \<in> choices w. ws_t x - ws_t s \<le> wnd})) = max (ws_v x) (wndfilter_get w)"
      unfolding c using o(5,6) [OF s] by (simp add: wndfilter_get_def)
    then show ?thesis
      using step False by (simp add: w_def [symmetric] w)
  qed
qed simp

text \<open>C13. What the filter reports after any history of samples in time order.  After each sample it
  is exactly the largest of that sample and of those of its three choices that are still in the
  window; the choices are samples of the history.  Hence it is the maximum of a suffix of the
  history that starts inside the window, it is the maximum of the whole history as long as that
  fits into the window, and the minimum filter is its dual.\<close>

theorem wndfilter_update_max_suffix:
  fixes h :: "wndfilter_sample list" and x :: wndfilter_sample
  assumes "\<not> wf_ready w0" "timed (h @ [x])" "0 \<le> wnd" "wnd < 2 ^ 63"
  defines "w \<equiv> feed_max wnd w0 h" and "h' \<equiv> h @ [x]" and "w' \<equiv> feed_max wnd w0 (h @ [x])"
  shows "wndfilter_get w' = Max (insert (ws_v x) (ws_v ` {s \<in> choices w. ws_t x - ws_t s \<le> wnd}))
    \<and> choices w' \<subseteq> set h'
    \<and> (\<exists>i<length h'. h' ! i = wf_s0 w' \<and> wndfilter_get w' = Max (ws_v ` set (drop i h'))
        \<and> ws_t x - ws_t (h' ! i) \<le> wnd)
    \<and> (ws_t x - ws_t (hd h') \<le> wnd \<longrightarrow> wndfilter_get w' = Max (ws_v ` set h'))
    \<and> wndfilter_get (feed_min wnd w0 h') = - wndfilter_get (feed_max wnd w0 (map neg_sample h'))"
proof -
  have ne: "h' \<noteq> []" and s: "sorted (map ws_t h')"
    using assms(2) by (simp_all add: h'_def timed_def)
  have inv: "max_inv h' w'"
    unfolding w'_def h'_def using assms(1) by (rule feed_max_inv)
  then obtain i where i: "dominates h' (wf_s0 w') i"
    using ne by (auto simp: max_inv_def slots_ok_def)
  have m: "ws_v y \<le> wndfilter_get w'" if "y \<in> set (drop i h')" for y
    using i that by (auto simp: dominates_def wndfilter_get_def in_set_conv_nth)
  have "wf_s0 w' \<in> set (drop i h')"
    using i by (auto simp: dominates_def in_set_conv_nth intro!: exI [of _ 0])
  then have "wndfilter_get w' = Max (ws_v ` set (drop i h'))"
    using m by (intro Max_eqI [symmetric]) (auto simp: wndfilter_get_def)
  moreover have "ws_t x - ws_t (wf_s0 w') \<le> wnd"
  proof -
    have "wf_s0 w' \<in> set h'"
      using choices_ordered(1,2) [OF inv s ne] by (simp add: choices_def)
    then have "ws_t (wf_s0 w') \<le> ws_t x" "ws_t x - ws_t (wf_s0 w') < 2 ^ 64"
      using assms(2) by (auto simp: timed_def sorted_append h'_def)
    then show ?thesis
      using update_max_fresh [of "ws_t x" w wnd "ws_v x"] assms(3,4)
      by (simp add: w'_def feed_snoc w_def [symmetric] time_delta_exact)
  qed
  moreover have "- wndfilter_get (feed_min wnd w0 h') = wndfilter_get (feed_max wnd w0 (map neg_sample h'))"
    using feed_max_cold [of w0 "neg_filter w0" "map neg_sample h'" wnd] assms(1) ne feed_min_neg [of wnd w0 h', symmetric]
    by (simp add: wndfilter_get_def)
  ultimately show ?thesis
    using feed_step [OF assms(1-4)] feed_within [OF assms(1,3,4) ne] choices_ordered(2) [OF inv s ne] assms(2) i
    by (auto simp: w_def w'_def h'_def dominates_def)
qed

definition sample_history :: "wndfilter_sample list" where
  "sample_history = [\<lparr>ws_t = 0, ws_v = 50\<rparr>, \<lparr>ws_t = 30, ws_v = 40\<rparr>, \<lparr>ws_t = 60, ws_v = 45\<rparr>]"

theorem wndfilter_update_max_suffix_witness:
  "let w0 = (wndfilter_reset 0 0)\<lparr>wf_ready := False\<rparr>; x = \<lparr>ws_t = 105, ws_v = 30\<rparr>;
       w = feed_max 100 w0 sample_history; w' = feed_max 100 w0 (sample_history @ [x])
   in wndfilter_get w = 50 \<and> wndfilter_get w' = 45
    \<and> wndfilter_get w' = Max (insert 30 (ws_v ` {s \<in> choices w. 105 - ws_t s \<le> 100}))"
proof -
  define w0 where "w0 = (wndfilter_reset 0 0)\<lparr>wf_ready := False\<rparr>"
  have "\<not> wf_ready w0" "timed (sample_history @ [\<lparr>ws_t = 105, ws_v = 30\<rparr>])"
    by (simp_all add: w0_def timed_def sample_history_def)
  note * = wndfilter_update_max_suffix [OF this, of 100]
  have "wndfilter_get (feed_max 100 w0 sample_history) = 50"
    "wndfilter_get (feed_max 100 w0 (sample_history @ [\<lparr>ws_t = 105, ws_v = 30\<rparr>])) = 45"
    unfolding w0_def by code_simp+
  then show ?thesis
    using * by (simp add: Let_def w0_def)
qed

end
