(* ===== verification/Mux_State.thy ===== *)
theory Mux_State
  imports Frame_Ring Wndfilter Serial Complex_Main
begin

text \<open>
  The state of one session of the mux core: the structs of
  \<^verbatim>\<open>mux/session.h\<close>, \<^verbatim>\<open>mux/stream.h\<close>,
  \<^verbatim>\<open>mux/wire.h\<close>, \<^verbatim>\<open>mux/sched.h\<close>,
  \<^verbatim>\<open>mux/unacked.h\<close>, \<^verbatim>\<open>mux/estimator.h\<close> and
  \<^verbatim>\<open>mux/handshake.h\<close> as records, together with the environment
  the handlers run in (the frame pool, the heap, the local sockets, the clocks) and a
  log of what the session hands to its owner.  The modelled build is the plaintext,
  single-threaded one (\<^verbatim>\<open>WITH_TLS\<close> and \<^verbatim>\<open>WITH_THREADS\<close>
  off); log output is left out.

  The stream table is an association list from stream ID to stream, in table
  iteration order; a stream pointer is the ID of the entry it points to, and the
  scheduler's intrusive lists are lists of IDs.
\<close>

section \<open>Event-loop watchers\<close>

text \<open>The part of libev's timers and I/O watchers the code reads back: whether a watcher
  is active, a timer's initial delay and repeat interval, an I/O watcher's descriptor
  (\<open>-1\<close> for none) and interest set.\<close>

record ev_timer =
  t_active :: bool
  t_at :: rat
  t_repeat :: rat

definition ev_timer_set :: "ev_timer \<Rightarrow> rat \<Rightarrow> rat \<Rightarrow> ev_timer" where
  "ev_timer_set w a r = w\<lparr>t_at := a, t_repeat := r\<rparr>"

definition ev_timer_start :: "ev_timer \<Rightarrow> ev_timer" where
  "ev_timer_start w = w\<lparr>t_active := True\<rparr>"

definition ev_timer_stop :: "ev_timer \<Rightarrow> ev_timer" where
  "ev_timer_stop w = w\<lparr>t_active := False\<rparr>"

definition ev_timer_again :: "ev_timer \<Rightarrow> ev_timer" where
  "ev_timer_again w =
    (if t_repeat w \<noteq> 0 then w\<lparr>t_at := t_repeat w, t_active := True\<rparr> else w\<lparr>t_active := False\<rparr>)"

record ev_io =
  io_active :: bool
  io_fd :: int
  io_read :: bool
  io_write :: bool

definition ev_io_start :: "ev_io \<Rightarrow> ev_io" where
  "ev_io_start w = w\<lparr>io_active := True\<rparr>"

definition ev_io_stop :: "ev_io \<Rightarrow> ev_io" where
  "ev_io_stop w = w\<lparr>io_active := False\<rparr>"

definition ev_io_set :: "ev_io \<Rightarrow> int \<Rightarrow> bool \<Rightarrow> bool \<Rightarrow> ev_io" where
  "ev_io_set w fd r wr = w\<lparr>io_fd := fd, io_read := r, io_write := wr\<rparr>"

definition modify_io_events :: "ev_io \<Rightarrow> bool \<Rightarrow> bool \<Rightarrow> ev_io" where
  "modify_io_events w r wr =
    (if \<not> r \<and> \<not> wr then (if io_active w then ev_io_stop w else w)
     else let w = (if (r, wr) \<noteq> (io_read w, io_write w)
                   then ev_io_set (ev_io_stop w) (io_fd w) r wr else w)
          in if \<not> io_active w then ev_io_start w else w)"

section \<open>Configuration and counters\<close>

record mux_session_config =
  max_streams :: int
  max_halfopen :: int
  conf_connect_timeout :: int
  conf_timeout :: int
  conf_keepalive :: int
  conf_send_timeout :: int
  conf_idle_timeout :: int
  conf_resume_timeout :: int
  conf_session_window :: int
  conf_stream_window :: int
  max_frame_payload :: int
  conf_readahead :: int
  mem_pressure_hi :: int
  mem_pressure_lo :: int
  lossymux_queue :: int
  nodelay :: bool
  reject_inbound :: bool
  lossymux :: bool

datatype mux_counter =
    num_session_created | num_session_connect | num_session_connected
  | num_session_disconnected | num_session_finalized | num_sessions | num_session_halfopen
  | num_streams | num_stream_halfopen | num_stream_opened | num_stream_accepted
  | num_stream_fastopen | num_stream_established | num_stream_succeeded | num_stream_failed
  | num_rst_sent | num_rst_recv | num_stream_errors
  | cnt_recv_buffered_bytes | cnt_send_buffered_frames | cnt_unacked_frames
  | byt_mux_recv | byt_mux_sent | byt_push_recv | byt_push_sent
  | pkt_dgram_sent | pkt_dgram_recv | pkt_dgram_dropped | byt_dgram_sent | byt_dgram_recv

section \<open>Streams\<close>

datatype sched_queue = SCHED_QUEUE_NONE | SCHED_QUEUE_DRR | SCHED_QUEUE_LP

datatype stream_state =
    STREAM_INIT | STREAM_SYN_SENT | STREAM_SYN_RECEIVED | STREAM_ESTABLISHED
  | STREAM_FIN_WAIT | STREAM_CLOSE_WAIT | STREAM_CLOSING | STREAM_CLOSED

text \<open>A direct-mode watcher: the events the application asked for and those fed to it but
  not yet delivered.\<close>

record mux_stream_io =
  mio_read :: bool
  mio_write :: bool
  mio_pend_read :: bool
  mio_pend_write :: bool

record mux_stream =
  s_id :: u16
  s_sched_queue :: sched_queue
  s_is_direct :: bool
  s_user_closed :: bool
  s_pending_attach :: bool
  s_orphaned :: bool
  s_ack_pending :: bool
  s_rx_eof :: bool
  s_tx_shutdown :: bool
  s_rst_received :: bool
  s_halfopen_counted :: bool
  s_nagle_flush :: bool
  s_delay_pending :: bool
  s_rst_sent :: bool
  s_aborted :: bool
  s_delay_ticks :: u8
  s_state :: stream_state
  s_io :: ev_io
  s_timeout :: ev_timer
  s_connected :: bool
  s_w_io :: "mux_stream_io option"
  s_send_queue :: "mux_frame list"
  s_recvbuf :: bytebuf
  s_bytes_sent :: u32
  s_send_window :: u32
  s_unacked_bytes :: u32
  s_deficit :: u32
  s_queued_send_bytes :: u32
  s_bytes_received :: u32
  s_buffered_bytes :: u32
  s_recv_window :: u32
  s_grant_sent :: u32
  s_syn_sent_ns :: int
  s_tombstone :: ev_timer

section \<open>Session parts\<close>

record wire_ctx =
  rx_open :: bool
  tx_pending :: bool
  send_blocked :: bool
  wire_rx_eof :: bool
  sendbuf_staging :: bool
  dgram_turn :: bool
  kernel_send_timeout :: bool
  wire_err :: int
  sendbuf :: "mux_frame list"
  oobbuf :: "mux_frame list"
  dgrambuf :: "mux_frame list"
  recvbuf :: bytebuf

record sched_ctx =
  streams :: "(u16 \<times> mux_stream) list option"
  num_tombstones :: nat
  num_closed :: nat
  sched_fifo :: "u16 list"
  drr_active :: "u16 option"
  delay_list :: "u16 list"
  lp_fifo :: "u16 list"
  lp_pending :: bool
  w_coalesce :: ev_timer
  orphans :: "mux_stream list"
  next_stream_id :: u16

text \<open>\<open>retransmit_off\<close> is \<^const>\<open>None\<close> for \<^verbatim>\<open>SIZE_MAX\<close>, and \<open>retransmit_copy\<close> is
  the address of the copy in flight.\<close>

record unacked_ctx =
  u_ring :: "mux_frame mux_frame_ring option"
  u_frames :: nat
  u_bytes :: nat
  partial_offset :: nat
  recv_seq :: u32
  unreported :: u32
  last_ack_recv :: u32
  ack_ticks :: u8
  stalled :: bool
  retransmit_off :: "nat option"
  retransmitted_frames :: nat
  retransmit_copy :: "nat option"
  retransmit_copy_count :: nat
  retransmit_copy_sent :: nat

record handshake_ctx =
  session_id :: "u8 list"
  has_session_id :: bool
  peer_rejects_inbound_streams :: bool
  offered_lossymux :: bool
  peer_lossymux :: bool
  identity :: "string option"
  peer_identity :: "string option"

datatype estimator_phase = ESTIMATOR_STARTUP | ESTIMATOR_TRACK

record estimator_dir_ctx =
  e_sample :: nat
  bw_wnd :: wndfilter
  e_bdp :: nat
  effective_bdp :: nat
  e_phase :: estimator_phase
  stable_rounds :: nat

record estimator_ctx =
  last_probe_ns :: int
  rtt_wnd :: wndfilter
  e_rtt :: int
  e_rx :: estimator_dir_ctx
  e_tx :: estimator_dir_ctx
  ping_in_flight :: bool

datatype session_state =
    SESSION_INIT | SESSION_CONNECT | SESSION_HANDSHAKE | SESSION_ESTABLISHED
  | SESSION_SUSPENDED | SESSION_CLOSING | SESSION_CLOSE_WAIT | SESSION_CLOSED

section \<open>The hello message\<close>

text \<open>The object the generated JSON codec (\<^verbatim>\<open>mux/proto_schema.gen.h\<close>) reads and writes;
  a string is \<^const>\<open>None\<close> where its pointer is null, and may hold embedded zero bytes.\<close>

record json_proto_extensions =
  jx_identity :: "string option"
  jx_lossymux :: bool
  jx_reject_inbound :: bool

record json_proto =
  jp_extensions :: json_proto_extensions
  jp_session_id :: "string option"
  jp_type :: "string option"
  jp_resume_seq :: u32
  jp_msgid :: int

section \<open>The environment\<close>

text \<open>The environment of a handler: the operating system, the clocks, a random number, and the JSON
  codec, which a build step generates.  What a non-blocking \<^verbatim>\<open>socket_send\<close> or \<^verbatim>\<open>socket_recv\<close> answers: success
  (with the number of bytes taken, or the bytes delivered, none meaning end of
  stream), \<^verbatim>\<open>EAGAIN\<close>, or an error number.\<close>

datatype send_answer = Send_ok nat | Send_again | Send_err int

datatype recv_answer = Recv_ok "u8 list" | Recv_again | Recv_err int

record os_env =
  os_send :: "nat \<Rightarrow> send_answer"
  os_send_calls :: nat
  os_recv :: "nat \<Rightarrow> recv_answer"
  os_recv_calls :: nat
  os_sockerr :: "nat \<Rightarrow> int"
  os_sockerr_calls :: nat
  os_user_timeout :: bool
  os_getpeer :: bool
  os_clock_ns :: int
  os_ev_now :: rat
  os_frand :: rat
  json_marshal_proto :: "json_proto \<Rightarrow> u8 list option"
  json_unmarshal_proto :: "u8 list \<Rightarrow> json_proto option"

text \<open>What the session tells its owner and the operating system, latest first.\<close>

datatype mux_event =
    MUX_EVENT_CONNECT
  | MUX_EVENT_CONNECT_FAILED int
  | MUX_EVENT_ESTABLISHED int "string option"
  | MUX_EVENT_LOST
  | MUX_EVENT_SUSPENDED
  | MUX_EVENT_RESUMED int "string option"
  | MUX_EVENT_STREAM_ESTABLISHED int
  | MUX_EVENT_CLOSED bool bool int

datatype mux_output =
    Out_event mux_event
  | Out_invoke_read u16
  | Out_close_fd int
  | Out_shutdown_fd int
  | Out_linger_fd int
  | Out_wire "u8 list"
  | Out_local int "u8 list"
  | Out_dgram u16 "u8 list"
  | Out_dgram_close u16

text \<open>The owner's callbacks, \<^const>\<open>None\<close> or \<^const>\<open>False\<close> where none is installed: what
  the application does with an inbound stream, whether it accepts the peer's identity,
  whether it takes over the transport for a resume, and whether it answers the report of a
  reset stream by closing the stream from within the callback.\<close>

datatype accept_answer = Accept_reject | Accept_fd int | Accept_direct mux_stream_io

record mux_callbacks =
  on_accept :: "(u16 \<Rightarrow> accept_answer) option"
  on_verify_identity :: "(string option \<Rightarrow> bool) option"
  on_resume :: "(u8 list \<Rightarrow> u32 \<Rightarrow> bool) option"
  on_dgram :: bool
  on_dgram_close :: bool
  admit_session :: "bool option"
  on_reset :: "u16 \<Rightarrow> bool"

section \<open>The session\<close>

record mux_session =
  conf :: mux_session_config
  pool :: frame_pool
  heap :: heap_env
  os :: os_env
  cb :: mux_callbacks
  max_payload :: u32
  readahead :: nat
  cnt :: "mux_counter \<Rightarrow> 64 word"
  num_halfopen :: nat
  recv_buffered_bytes :: nat
  send_buffered_frames :: nat
  last_connect_latency_ns :: int
  bytes_recv :: "64 word"
  ping_recv_last_ns :: int
  ss_state :: session_state
  last_modified :: int
  peer_addr_set :: bool
  w_socket :: ev_io
  w_timeout :: ev_timer
  w_keepalive :: ev_timer
  w_send_timeout :: ev_timer
  w_connect_timeout :: ev_timer
  w_idle_timeout :: ev_timer
  accepted :: bool
  auto_stream_window :: bool
  auto_session_window :: bool
  draining :: bool
  session_window :: u32
  stream_window :: u32
  peer_stream_window :: u32
  pub_state :: session_state
  pub_stream_window :: nat
  pub_peer_stream_window :: nat
  pub_rtt :: int
  pub_bdp_rx :: nat
  pub_bdp_tx :: nat
  wire :: wire_ctx
  sched :: sched_ctx
  unacked :: unacked_ctx
  handshake :: handshake_ctx
  estimator :: estimator_ctx
  connect_started :: int
  suspended_at :: rat
  out :: "mux_output list"

section \<open>Zero-initialised objects\<close>

text \<open>The objects as \<^verbatim>\<open>(struct T)\{ 0 \}\<close> leaves them.\<close>

definition zero_timer :: ev_timer where
  "zero_timer = \<lparr>t_active = False, t_at = 0, t_repeat = 0\<rparr>"

definition zero_io :: ev_io where
  "zero_io = \<lparr>io_active = False, io_fd = 0, io_read = False, io_write = False\<rparr>"

definition zero_bytebuf :: bytebuf where
  "zero_bytebuf = \<lparr>rb_off = 0, rb_len = 0, rb_cap = 0, rb_data = []\<rparr>"

definition zero_stream :: mux_stream where
  "zero_stream = \<lparr>s_id = 0, s_sched_queue = SCHED_QUEUE_NONE, s_is_direct = False,
    s_user_closed = False, s_pending_attach = False, s_orphaned = False, s_ack_pending = False,
    s_rx_eof = False, s_tx_shutdown = False, s_rst_received = False, s_halfopen_counted = False,
    s_nagle_flush = False, s_delay_pending = False, s_rst_sent = False, s_aborted = False,
    s_delay_ticks = 0, s_state = STREAM_INIT, s_io = zero_io, s_timeout = zero_timer,
    s_connected = False, s_w_io = None, s_send_queue = [], s_recvbuf = zero_bytebuf,
    s_bytes_sent = 0, s_send_window = 0, s_unacked_bytes = 0, s_deficit = 0,
    s_queued_send_bytes = 0, s_bytes_received = 0, s_buffered_bytes = 0, s_recv_window = 0,
    s_grant_sent = 0, s_syn_sent_ns = 0, s_tombstone = zero_timer\<rparr>"

definition zero_wndfilter :: wndfilter where
  "zero_wndfilter =
    (let z = \<lparr>ws_t = 0, ws_v = 0\<rparr> in \<lparr>wf_s0 = z, wf_s1 = z, wf_s2 = z, wf_ready = False\<rparr>)"

definition zero_dir :: estimator_dir_ctx where
  "zero_dir = \<lparr>e_sample = 0, bw_wnd = zero_wndfilter, e_bdp = 0, effective_bdp = 0,
    e_phase = ESTIMATOR_STARTUP, stable_rounds = 0\<rparr>"

definition zero_estimator :: estimator_ctx where
  "zero_estimator = \<lparr>last_probe_ns = 0, rtt_wnd = zero_wndfilter, e_rtt = 0, e_rx = zero_dir,
    e_tx = zero_dir, ping_in_flight = False\<rparr>"

definition zero_wire :: wire_ctx where
  "zero_wire = \<lparr>rx_open = False, tx_pending = False, send_blocked = False, wire_rx_eof = False,
    sendbuf_staging = False, dgram_turn = False, kernel_send_timeout = False, wire_err = 0,
    sendbuf = [], oobbuf = [], dgrambuf = [], recvbuf = zero_bytebuf\<rparr>"

definition zero_sched :: sched_ctx where
  "zero_sched = \<lparr>streams = None, num_tombstones = 0, num_closed = 0, sched_fifo = [],
    drr_active = None, delay_list = [], lp_fifo = [], lp_pending = False, w_coalesce = zero_timer,
    orphans = [], next_stream_id = 0\<rparr>"

definition zero_unacked :: unacked_ctx where
  "zero_unacked = \<lparr>u_ring = None, u_frames = 0, u_bytes = 0, partial_offset = 0, recv_seq = 0,
    unreported = 0, last_ack_recv = 0, ack_ticks = 0, stalled = False, retransmit_off = Some 0,
    retransmitted_frames = 0, retransmit_copy = None, retransmit_copy_count = 0,
    retransmit_copy_sent = 0\<rparr>"

definition zero_handshake :: handshake_ctx where
  "zero_handshake = \<lparr>session_id = replicate 16 0, has_session_id = False,
    peer_rejects_inbound_streams = False, offered_lossymux = False, peer_lossymux = False,
    identity = None, peer_identity = None\<rparr>"

definition zero_session ::
  "mux_session_config \<Rightarrow> frame_pool \<Rightarrow> heap_env \<Rightarrow> os_env \<Rightarrow> mux_callbacks \<Rightarrow> (mux_counter \<Rightarrow> 64 word) \<Rightarrow> mux_session" where
  "zero_session cf pl hp oe cbs ct = \<lparr>conf = cf, pool = pl, heap = hp, os = oe, cb = cbs,
    max_payload = 0, readahead = 0, cnt = ct, num_halfopen = 0, recv_buffered_bytes = 0, send_buffered_frames = 0,
    last_connect_latency_ns = 0, bytes_recv = 0, ping_recv_last_ns = 0, ss_state = SESSION_INIT,
    last_modified = 0, peer_addr_set = False, w_socket = zero_io, w_timeout = zero_timer,
    w_keepalive = zero_timer, w_send_timeout = zero_timer, w_connect_timeout = zero_timer,
    w_idle_timeout = zero_timer, accepted = False, auto_stream_window = False,
    auto_session_window = False, draining = False, session_window = 0, stream_window = 0,
    peer_stream_window = 0, pub_state = SESSION_INIT, pub_stream_window = 0,
    pub_peer_stream_window = 0, pub_rtt = 0, pub_bdp_rx = 0, pub_bdp_tx = 0, wire = zero_wire,
    sched = zero_sched, unacked = zero_unacked, handshake = zero_handshake,
    estimator = zero_estimator, connect_started = 0, suspended_at = 0, out = []\<rparr>"

text \<open>A sample environment: the default configuration, allocations that succeed and sockets
  that accept everything, for evaluating the model on concrete inputs.\<close>

definition sample_conf :: mux_session_config where
  "sample_conf = \<lparr>max_streams = 1024, max_halfopen = 256, conf_connect_timeout = 15,
    conf_timeout = 60, conf_keepalive = 25, conf_send_timeout = 15, conf_idle_timeout = 0,
    conf_resume_timeout = 60, conf_session_window = 64, conf_stream_window = 16,
    max_frame_payload = 16384, conf_readahead = 0, mem_pressure_hi = 0, mem_pressure_lo = 0,
    lossymux_queue = 16, nodelay = False, reject_inbound = False, lossymux = False\<rparr>"

definition sample_pool :: frame_pool where
  "sample_pool = \<lparr>pool_alloc = (\<lambda>n. Some (n + 1)), pool_calls = 0, pool_freed = []\<rparr>"

definition sample_heap :: heap_env where
  "sample_heap = \<lparr>heap_ok = (\<lambda>_. True), heap_calls = 0\<rparr>"

text \<open>A stand-in for the codec that carries what the samples send: the message type, the ID and
  whether the extensions are offered.\<close>

definition sample_json :: "json_proto \<Rightarrow> u8 list" where
  "sample_json obj =
    [of_int (jp_msgid obj), of_bool (jx_lossymux (jp_extensions obj)), of_bool (jx_reject_inbound (jp_extensions obj)),
     of_bool (jp_session_id obj \<noteq> None)]
    @ map of_char (case jp_session_id obj of None \<Rightarrow> [] | Some s \<Rightarrow> s)"

definition sample_unjson :: "u8 list \<Rightarrow> json_proto option" where
  "sample_unjson b =
    (case b of
       m # l # r # i # s \<Rightarrow> Some \<lparr>jp_extensions = \<lparr>jx_identity = None, jx_lossymux = (l \<noteq> 0), jx_reject_inbound = (r \<noteq> 0)\<rparr>,
         jp_session_id = (if i \<noteq> 0 then Some (map (\<lambda>b. char_of (unat b)) s) else None),
         jp_type = Some ''application/x-multiplexd-proto; version=1'', jp_resume_seq = 0, jp_msgid = uint m\<rparr>
     | _ \<Rightarrow> None)"

definition sample_os :: os_env where
  "sample_os = \<lparr>os_send = (\<lambda>_. Send_ok 1000000), os_send_calls = 0, os_recv = (\<lambda>_. Recv_again),
    os_recv_calls = 0, os_sockerr = (\<lambda>_. 0), os_sockerr_calls = 0, os_user_timeout = False, os_getpeer = True,
    os_clock_ns = 1000000000, os_ev_now = 1, os_frand = 1 / 2,
    json_marshal_proto = (\<lambda>obj. Some (sample_json obj)), json_unmarshal_proto = sample_unjson\<rparr>"

definition sample_callbacks :: mux_callbacks where
  "sample_callbacks = \<lparr>on_accept = Some (\<lambda>id. Accept_fd (int (unat id) + 100)),
    on_verify_identity = None, on_resume = None, on_dgram = False, on_dgram_close = False,
    admit_session = None, on_reset = (\<lambda>_. False)\<rparr>"

definition sample_session :: mux_session where
  "sample_session = zero_session sample_conf sample_pool sample_heap sample_os sample_callbacks (\<lambda>_. 0)"

end
