(* ===== verification/Cdouble.thy ===== *)
theory Cdouble
  imports Complex_Main "HOL-Library.Log_Nat"
begin

text \<open>
  The C \<^verbatim>\<open>double\<close> arithmetic the core uses (grant scaling in
  \<^verbatim>\<open>mux/stream.c\<close>, bandwidth-delay products in
  \<^verbatim>\<open>mux/estimator.c\<close>): every operation is the exact rational operation
  followed by \<open>fl\<close>, IEEE 754 round-to-nearest-even to 53 significant bits.  The
  operands stay far inside the binary64 exponent range, so exponents are unbounded.
\<close>

text \<open>The exponent of the leading bit of a positive rational.\<close>

definition ilog2 :: "rat \<Rightarrow> int" where
  "ilog2 x =
    (let (a, b) = quotient_of x; k = bitlen a - bitlen b
     in if 2 powi k \<le> x then k else k - 1)"

definition round_half_even :: "rat \<Rightarrow> int" where
  "round_half_even y =
    (let f = \<lfloor>y\<rfloor>; d = y - of_int f
     in if d < 1 / 2 then f else if 1 / 2 < d then f + 1 else if even f then f else f + 1)"

definition fl :: "rat \<Rightarrow> rat" where
  "fl x =
    (if x \<le> 0 then 0
     else let u = 2 powi (ilog2 x - 52) in of_int (round_half_even (x / u)) * u)"

lemma round_half_even_le: "y \<le> of_int m \<Longrightarrow> round_half_even y \<le> m"
  by (auto simp: round_half_even_def Let_def floor_le_iff not_less)

lemma round_half_even_ge: "of_int m \<le> y \<Longrightarrow> m \<le> round_half_even y"
  using le_floor_iff [of m y] by (auto simp: round_half_even_def Let_def)

lemma bitlen_powi:
  assumes "0 < a"
  shows "2 powi (bitlen a - 1) \<le> (of_int a :: rat) \<and> (of_int a :: rat) < 2 powi bitlen a"
proof -
  have n: "0 \<le> bitlen a - 1" "0 \<le> bitlen a"
    using assms bitlen_nonneg [of a] bitlen_eq_zero_iff [of a] by linarith+
  have b: "2 ^ nat (bitlen a - 1) \<le> a" "a < 2 ^ nat (bitlen a)"
    using bitlen_bounds [OF assms] by simp_all
  have "(2 :: rat) ^ nat (bitlen a - 1) \<le> of_int a" "(of_int a :: rat) < 2 ^ nat (bitlen a)"
    using b by (metis of_int_le_iff of_int_numeral of_int_power, metis of_int_less_iff of_int_numeral of_int_power)
  then show ?thesis
    using n by (simp add: power_int_def)
qed

lemma ilog2_bounds:
  assumes "0 < x"
  shows "2 powi ilog2 x \<le> x \<and> x < 2 powi (ilog2 x + 1)"
proof -
  obtain a b where ab: "quotient_of x = (a, b)"
    by fastforce
  have b: "0 < b" and x: "x = of_int a / of_int b"
    using ab by (simp_all add: quotient_of_denom_pos quotient_of_div)
  have a: "0 < a"
    using assms b x by (simp add: zero_less_divide_iff)
  define k where "k = bitlen a - bitlen b"
  note ba = bitlen_powi [OF a] and bb = bitlen_powi [OF b]
  have "x < 2 powi bitlen a / 2 powi (bitlen b - 1)"
    unfolding x using ba bb a b by (intro frac_less) (auto simp: )
  also have "\<dots> = 2 powi (k + 1)"
    by (simp add: k_def power_int_diff [symmetric] algebra_simps)
  finally have up: "x < 2 powi (k + 1)" .
  have "2 powi (bitlen a - 1) / 2 powi bitlen b < x"
    unfolding x using ba bb a b by (intro frac_less2) auto
  also have "2 powi (bitlen a - 1) / 2 powi bitlen b = (2 powi (k - 1) :: rat)"
    by (simp add: k_def power_int_diff [symmetric] algebra_simps)
  finally have "2 powi (k - 1) < x" .
  then show ?thesis
    using up by (auto simp: ilog2_def ab k_def [symmetric])
qed

lemma fl_nonneg: "0 \<le> fl x"
proof (cases "x \<le> 0")
  case False
  then have "0 \<le> round_half_even (x / 2 powi (ilog2 x - 52))"
    by (intro round_half_even_ge) simp
  then show ?thesis
    by (simp add: fl_def Let_def)
qed (simp add: fl_def)

text \<open>Rounding never crosses a value with at most 53 significant bits.\<close>

lemma fl_le_dyadic:
  assumes "x \<le> of_int m * 2 powi e" "0 \<le> m" "m \<le> 2 ^ 53"
  shows "fl x \<le> of_int m * 2 powi e"
proof (cases "x \<le> 0")
  case True
  then show ?thesis
    using assms(2) by (simp add: fl_def)
next
  case False
  let ?y = "of_int m * 2 powi e :: rat"
  define k where "k = ilog2 x - 52"
  have x: "2 powi (k + 52) \<le> x" "x < 2 powi (k + 53)"
    using ilog2_bounds [of x] False by (simp_all add: k_def algebra_simps)
  have u: "(0 :: rat) < 2 powi k"
    by simp
  have fl: "fl x = of_int (round_half_even (x / 2 powi k)) * 2 powi k"
    using False by (simp add: fl_def k_def Let_def)
  have le: "fl x \<le> of_int n * 2 powi k" if "x \<le> of_int n * 2 powi k" for n
  proof -
    have "round_half_even (x / 2 powi k) \<le> n"
      by (rule round_half_even_le) (use that u in \<open>simp add: divide_le_eq\<close>)
    then show ?thesis
      using u by (simp add: fl)
  qed
  show ?thesis
  proof (cases "k \<le> e")
    case True
    then have "(2 :: rat) powi (e - k) = 2 ^ nat (e - k)"
      by (simp add: power_int_def)
    moreover have "(2 :: rat) powi e = 2 powi (e - k) * 2 powi k"
      by (simp flip: power_int_add)
    ultimately have y: "?y = of_int (m * 2 ^ nat (e - k)) * 2 powi k"
      by simp
    show ?thesis
      using le [of "m * 2 ^ nat (e - k)"] assms(1) unfolding y by blast
  next
    case False
    then have "?y \<le> 2 ^ 53 * 2 powi (k - 1)"
      using assms(2,3) by (intro mult_mono) (auto intro!: power_int_increasing simp flip: of_int_power)
    also have "\<dots> = (2 ^ 52) * 2 powi k"
      by (simp add: power_int_diff)
    finally have "?y \<le> of_int (2 ^ 52) * 2 powi k"
      by simp
    moreover have "of_int (2 ^ 52) * 2 powi k \<le> x"
      using x(1) by (simp add: power_int_add mult.commute)
    ultimately show ?thesis
      using le [of "2 ^ 52"] assms(1) by simp
  qed
qed

lemma fl_le_nat: "x \<le> of_nat n \<Longrightarrow> n \<le> 2 ^ 53 \<Longrightarrow> fl x \<le> of_nat n"
  using fl_le_dyadic [of x "int n" 0] by simp

section \<open>Operations\<close>

definition d_of_nat :: "nat \<Rightarrow> rat" where "d_of_nat n = fl (of_nat n)"

text \<open>Operands and results of the code are non-negative, which \<^const>\<open>fl\<close> assumes.\<close>

definition d_mult :: "rat \<Rightarrow> rat \<Rightarrow> rat" where "d_mult x y = fl (x * y)"
definition d_div :: "rat \<Rightarrow> rat \<Rightarrow> rat" where "d_div x y = fl (x / y)"
definition d_minus :: "rat \<Rightarrow> rat \<Rightarrow> rat" where "d_minus x y = fl (x - y)"

text \<open>The conversion of a non-negative double to an unsigned integer type truncates.\<close>

definition d_trunc :: "rat \<Rightarrow> nat" where "d_trunc x = nat \<lfloor>x\<rfloor>"

lemma d_of_nat_le: "n \<le> 2 ^ 53 \<Longrightarrow> d_of_nat n \<le> of_nat n"
  by (simp add: d_of_nat_def fl_le_nat)

lemma d_nonneg [simp]: "0 \<le> d_of_nat n" "0 \<le> d_mult x y" "0 \<le> d_div x y" "0 \<le> d_minus x y"
  by (simp_all add: d_of_nat_def d_mult_def d_div_def d_minus_def fl_nonneg)

lemma d_minus_le_1: "x \<le> 1 \<Longrightarrow> 0 \<le> y \<Longrightarrow> d_minus x y \<le> 1"
  using fl_le_nat [of "x - y" 1] by (simp add: d_minus_def)

text \<open>Scaling an integer by a factor of at most one does not increase it.\<close>

lemma d_trunc_scale_le:
  assumes "c \<le> 1" "n \<le> 2 ^ 53"
  shows "d_trunc (d_mult (d_of_nat n) c) \<le> n"
proof -
  have "d_of_nat n * c \<le> of_nat n"
    using mult_left_mono [OF assms(1), of "d_of_nat n"] d_of_nat_le [OF assms(2)] by simp
  then have "d_mult (d_of_nat n) c \<le> of_nat n"
    using assms(2) by (simp add: d_mult_def fl_le_nat)
  then have "\<lfloor>d_mult (d_of_nat n) c\<rfloor> \<le> int n"
    by (simp add: floor_le_iff)
  then show ?thesis
    by (simp add: d_trunc_def)
qed

end
