(* ===== verification/Estimator.thy ===== *)
theory Estimator
  imports Mux_State Cdouble "HOL-Library.Signed_Division"
begin

text \<open>
  The bandwidth-delay-product estimator of \<^verbatim>\<open>mux/estimator.c\<close>: per
  direction a windowed maximum of the measured bandwidth, the product with the
  windowed minimum round-trip time, and a two-phase rule (\<^verbatim>\<open>STARTUP\<close>
  grows fast, \<^verbatim>\<open>TRACK\<close> follows the estimate) that sizes the
  automatic windows.  The probe that feeds it is sent by the session and lives in the
  theory of the send path.  Signed 64-bit arithmetic is written out with its wrap-around
  (\<open>s64\<close>), so that the absence of overflow is a theorem and not an assumption.
\<close>

definition INT64_MAX :: int where "INT64_MAX = 2 ^ 63 - 1"

text \<open>The value an integer takes in a signed 64-bit variable.\<close>

definition s64 :: "int \<Rightarrow> int" where
  "s64 x = (x + 2 ^ 63) mod 2 ^ 64 - 2 ^ 63"

definition d_of_int :: "int \<Rightarrow> rat" where
  "d_of_int i = (if i < 0 then - d_of_nat (nat (- i)) else d_of_nat (nat i))"

definition MUX_INITIAL_SEND_WINDOW :: nat where "MUX_INITIAL_SEND_WINDOW = 65536"
definition WNDSIZE_MAX :: nat where "WNDSIZE_MAX = 65535 * MUX_WINDOW_UNIT"
definition WNDSIZE_MIN :: nat where "WNDSIZE_MIN = MUX_INITIAL_SEND_WINDOW"
definition WND_FEEDBACK_FLOOR_NS :: int where "WND_FEEDBACK_FLOOR_NS = 600000"
definition WND_RTT_MIN_NS :: int where "WND_RTT_MIN_NS = 600 * 1000000000"
definition WND_BW_MAX_NS :: int where "WND_BW_MAX_NS = 86400 * 1000000000"
definition STARTUP_STABLE_ROUNDS :: nat where "STARTUP_STABLE_ROUNDS = 16"
definition STARTUP_GROWTH_FACTOR :: nat where "STARTUP_GROWTH_FACTOR = 3"

lemmas [mux_consts] =
  INT64_MAX_def MUX_INITIAL_SEND_WINDOW_def WNDSIZE_MAX_def WNDSIZE_MIN_def
  WND_FEEDBACK_FLOOR_NS_def WND_RTT_MIN_NS_def WND_BW_MAX_NS_def STARTUP_STABLE_ROUNDS_def
  STARTUP_GROWTH_FACTOR_def

section \<open>State changes\<close>

definition session_publish_estimate :: "mux_session \<Rightarrow> mux_session" where
  "session_publish_estimate ss =
    ss\<lparr>pub_rtt := e_rtt (estimator ss), pub_bdp_rx := e_bdp (e_rx (estimator ss)),
       pub_bdp_tx := e_bdp (e_tx (estimator ss))\<rparr>"

definition mux_estimator_init :: "mux_session \<Rightarrow> nat \<Rightarrow> mux_session" where
  "mux_estimator_init ss bdp =
    (let seed = max bdp WNDSIZE_MIN
     in session_publish_estimate (ss\<lparr>estimator := zero_estimator
          \<lparr>e_rx := zero_dir\<lparr>effective_bdp := seed\<rparr>, e_tx := zero_dir\<lparr>effective_bdp := seed\<rparr>\<rparr>\<rparr>))"

definition reset_samples :: "estimator_ctx \<Rightarrow> estimator_ctx" where
  "reset_samples est = est\<lparr>e_rx := (e_rx est)\<lparr>e_sample := 0\<rparr>, e_tx := (e_tx est)\<lparr>e_sample := 0\<rparr>\<rparr>"

definition mux_estimator_suspend :: "mux_session \<Rightarrow> mux_session" where
  "mux_estimator_suspend ss =
    ss\<lparr>estimator := reset_samples ((estimator ss)\<lparr>ping_in_flight := False\<rparr>)\<rparr>"

section \<open>Phases\<close>

definition phase_startup :: "estimator_dir_ctx \<Rightarrow> nat \<Rightarrow> estimator_dir_ctx" where
  "phase_startup d demand =
    (if wndfilter_get (bw_wnd d) = 0 then d
     else let demand_half = demand div 2 in
     if demand_half > effective_bdp d \<or> demand > effective_bdp d - demand_half
     then d\<lparr>effective_bdp := (if effective_bdp d > WNDSIZE_MAX div STARTUP_GROWTH_FACTOR then WNDSIZE_MAX
               else effective_bdp d * STARTUP_GROWTH_FACTOR), stable_rounds := 0\<rparr>
     else let d = d\<lparr>stable_rounds := stable_rounds d + 1\<rparr> in
     if stable_rounds d < STARTUP_STABLE_ROUNDS then d
     else d\<lparr>e_phase := ESTIMATOR_TRACK\<rparr>)"

definition phase_track :: "estimator_dir_ctx \<Rightarrow> estimator_dir_ctx" where
  "phase_track d =
    (if effective_bdp d \<noteq> 0 \<and> e_bdp d > effective_bdp d
     then d\<lparr>e_phase := ESTIMATOR_STARTUP, stable_rounds := 0\<rparr>
     else let headroom = e_bdp d div 4
          in d\<lparr>effective_bdp := (if e_bdp d > SIZE_MAX - headroom then SIZE_MAX else e_bdp d + headroom)\<rparr>)"

definition bdp_to_size :: "rat \<Rightarrow> nat" where
  "bdp_to_size v =
    (if v \<le> 0 then 0
     else if \<not> v < d_of_nat SIZE_MAX then SIZE_MAX
     else d_trunc v)"

record calc_cycle =
  cy_rtt_ns :: int
  cy_rtt_min_ns :: int
  cy_now_ns :: int

definition calc_dir :: "estimator_dir_ctx \<Rightarrow> calc_cycle \<Rightarrow> estimator_dir_ctx" where
  "calc_dir d c =
    (let clamp_max = nat (INT64_MAX div 1000000000);
         sample_clamped = min (e_sample d) clamp_max;
         bw_sample_raw = s64 (s64 (int sample_clamped) * 1000000000) sdiv cy_rtt_ns c;
         bw_sample = min bw_sample_raw (INT64_MAX div WND_FEEDBACK_FLOOR_NS);
         d = d\<lparr>bw_wnd := wndfilter_update_max (bw_wnd d) WND_BW_MAX_NS (cy_now_ns c) bw_sample\<rparr>;
         bw_max = wndfilter_get (bw_wnd d);
         rtt_min = d_of_int (cy_rtt_min_ns c);
         d = d\<lparr>e_bdp := bdp_to_size (d_div (d_mult (d_of_int bw_max) rtt_min) 1000000000)\<rparr>;
         demand = bdp_to_size (d_div (d_mult (d_of_int bw_sample) rtt_min) 1000000000)
     in case e_phase d of
          ESTIMATOR_STARTUP \<Rightarrow> phase_startup d demand
        | ESTIMATOR_TRACK \<Rightarrow> phase_track d)"

definition mux_estimator_calculate :: "mux_session \<Rightarrow> int \<Rightarrow> mux_session" where
  "mux_estimator_calculate ss sent_ns =
    (let est = estimator ss in
     if \<not> ping_in_flight est \<or> sent_ns \<noteq> last_probe_ns est then ss
     else let now_ns = os_clock_ns (os ss); rtt_ns = s64 (now_ns - sent_ns) in
     if rtt_ns \<le> 0
     then ss\<lparr>estimator := (reset_samples (est\<lparr>ping_in_flight := False\<rparr>))\<lparr>last_probe_ns := now_ns\<rparr>\<rparr>
     else let est = est\<lparr>rtt_wnd := wndfilter_update_min (rtt_wnd est) WND_RTT_MIN_NS now_ns rtt_ns\<rparr>;
              rtt_min_ns = wndfilter_get (rtt_wnd est);
              cycle = \<lparr>cy_rtt_ns = rtt_ns, cy_rtt_min_ns = rtt_min_ns, cy_now_ns = now_ns\<rparr>;
              est = est\<lparr>e_rtt := rtt_ns, e_rx := calc_dir (e_rx est) cycle,
                        e_tx := calc_dir (e_tx est) cycle\<rparr>;
              ss = session_publish_estimate (ss\<lparr>estimator := est\<rparr>)
          in ss\<lparr>estimator :=
               (reset_samples ((estimator ss)\<lparr>ping_in_flight := False\<rparr>))\<lparr>last_probe_ns := now_ns\<rparr>\<rparr>)"

section \<open>Window size\<close>

definition window_size :: "estimator_dir_ctx \<Rightarrow> nat" where
  "window_size d =
    (let floor = WNDSIZE_MIN;
         bw_max = wndfilter_get (bw_wnd d);
         floor = (if bw_max > 0
           then (let bw_floor = s64 (bw_max * WND_FEEDBACK_FLOOR_NS) sdiv 1000000000
                 in if bw_floor > int floor
                    then (if bw_floor > int WNDSIZE_MAX then WNDSIZE_MAX else nat bw_floor)
                    else floor)
           else floor)
     in if effective_bdp d < floor then floor
        else if effective_bdp d > WNDSIZE_MAX then WNDSIZE_MAX
        else effective_bdp d)"

definition mux_estimator_rx_window_size :: "estimator_ctx \<Rightarrow> nat" where
  "mux_estimator_rx_window_size est = window_size (e_rx est)"

definition mux_estimator_tx_window_size :: "estimator_ctx \<Rightarrow> nat" where
  "mux_estimator_tx_window_size est = window_size (e_tx est)"


section \<open>The invariant of a direction\<close>

text \<open>Every slot of the filter holds a value of \<open>V\<close>.\<close>

definition slots_in :: "int set \<Rightarrow> wndfilter \<Rightarrow> bool" where
  "slots_in V w \<longleftrightarrow> ws_v (wf_s0 w) \<in> V \<and> ws_v (wf_s1 w) \<in> V \<and> ws_v (wf_s2 w) \<in> V"

lemma slots_in_subwin_update:
  "slots_in V w \<Longrightarrow> ws_v x \<in> V \<Longrightarrow> slots_in V (subwin_update w wnd x)"
  unfolding slots_in_def subwin_update_def Let_def by (auto split: if_split)

lemma slots_in_reset: "v \<in> V \<Longrightarrow> slots_in V (wndfilter_reset t v)"
  by (simp add: slots_in_def wndfilter_reset_def Let_def)

lemma slots_in_update_max:
  assumes "slots_in V w" "v \<in> V"
  shows "slots_in V (wndfilter_update_max w wnd t v)"
proof -
  let ?x = "\<lparr>ws_t = t, ws_v = v\<rparr>"
  have "slots_in V (w\<lparr>wf_s1 := ?x, wf_s2 := ?x\<rparr>)" "slots_in V (w\<lparr>wf_s2 := ?x\<rparr>)"
    using assms by (simp_all add: slots_in_def)
  then show ?thesis
    unfolding wndfilter_update_max_def Let_def
    using assms by (auto intro!: slots_in_subwin_update slots_in_reset)
qed

lemma slots_in_get: "slots_in V w \<Longrightarrow> wndfilter_get w \<in> V"
  by (simp add: slots_in_def wndfilter_get_def)

text \<open>The bandwidths kept are small enough that scaling one by the feedback latency stays in
  a signed 64-bit integer; the growth phase never starts from the absorbing value 0; sizes
  stay in a \<^verbatim>\<open>size_t\<close>.\<close>

definition bw_range :: "int set" where
  "bw_range = {0 .. INT64_MAX div WND_FEEDBACK_FLOOR_NS}"

definition dir_inv :: "estimator_dir_ctx \<Rightarrow> bool" where
  "dir_inv d \<longleftrightarrow> slots_in bw_range (bw_wnd d) \<and> e_bdp d \<le> SIZE_MAX \<and> effective_bdp d \<le> SIZE_MAX
     \<and> (e_phase d = ESTIMATOR_STARTUP \<longrightarrow> effective_bdp d > 0 \<and> stable_rounds d < STARTUP_STABLE_ROUNDS)"


lemma bdp_to_size_le: "bdp_to_size v \<le> SIZE_MAX"
proof -
  have *: "d_of_nat SIZE_MAX \<le> 2 ^ 64"
    using fl_le_dyadic [of "of_nat SIZE_MAX" 1 64] by (simp add: d_of_nat_def SIZE_MAX_def)
  have "d_trunc v \<le> SIZE_MAX" if "v < d_of_nat SIZE_MAX"
  proof -
    have "\<lfloor>v\<rfloor> < 2 ^ 64"
      using that * by (simp add: floor_less_iff)
    then have "\<lfloor>v\<rfloor> \<le> int SIZE_MAX"
      unfolding SIZE_MAX_def by simp
    then show ?thesis
      by (simp add: d_trunc_def nat_le_iff)
  qed
  then show ?thesis
    by (simp add: bdp_to_size_def)
qed

lemma phase_startup_inv:
  assumes "dir_inv d" "e_phase d = ESTIMATOR_STARTUP"
  shows "dir_inv (phase_startup d demand)"
proof -
  have "WNDSIZE_MAX \<le> SIZE_MAX" "0 < WNDSIZE_MAX"
    by (simp_all add: mux_consts)
  moreover have "e * STARTUP_GROWTH_FACTOR \<le> WNDSIZE_MAX" if "e \<le> WNDSIZE_MAX div STARTUP_GROWTH_FACTOR" for e
    using that by (simp add: STARTUP_GROWTH_FACTOR_def less_eq_div_iff_mult_less_eq)
  ultimately show ?thesis
    using assms le_trans
    by (auto simp: dir_inv_def phase_startup_def Let_def not_less STARTUP_STABLE_ROUNDS_def
        STARTUP_GROWTH_FACTOR_def)
qed

lemma phase_track_inv: "dir_inv d \<Longrightarrow> e_phase d = ESTIMATOR_TRACK \<Longrightarrow> dir_inv (phase_track d)"
  by (auto simp: dir_inv_def phase_track_def Let_def STARTUP_STABLE_ROUNDS_def)

lemma s64_exact: "- (2 ^ 63) \<le> x \<Longrightarrow> x < 2 ^ 63 \<Longrightarrow> s64 x = x"
  by (simp add: s64_def)

lemma sdiv_nonneg: "0 \<le> a \<Longrightarrow> 0 < b \<Longrightarrow> a sdiv b = a div (b :: int)"
  by (cases "a = 0") (simp_all add: signed_divide_int_def)

text \<open>The bandwidth of a cycle in exact arithmetic: bytes per second, with the two bounds the
  code applies.\<close>

definition bandwidth :: "nat \<Rightarrow> int \<Rightarrow> int" where
  "bandwidth bytes rtt_ns =
    min (min (int bytes) (INT64_MAX div 1000000000) * 1000000000 div rtt_ns) (INT64_MAX div WND_FEEDBACK_FLOOR_NS)"

lemma bandwidth_range: "0 < rtt_ns \<Longrightarrow> bandwidth n rtt_ns \<in> bw_range"
  by (auto simp: bandwidth_def bw_range_def mux_consts pos_imp_zdiv_nonneg_iff)

lemma calc_dir_sample:
  fixes rtt_ns :: int and n :: nat
  assumes "0 < rtt_ns"
  shows "min (s64 (s64 (int (min n (nat (INT64_MAX div 1000000000)))) * 1000000000) sdiv rtt_ns)
    (INT64_MAX div WND_FEEDBACK_FLOOR_NS) = bandwidth n rtt_ns"
proof -
  define m where "m = int (min n (nat (INT64_MAX div 1000000000)))"
  have m: "m = min (int n) (INT64_MAX div 1000000000)" "0 \<le> m" "m \<le> 9223372036"
    by (simp_all add: m_def mux_consts)
  then have "s64 m = m" "s64 (m * 1000000000) = m * 1000000000"
    by (simp_all add: s64_exact)
  then show ?thesis
    unfolding m_def [symmetric] bandwidth_def m(1) [symmetric] using m(2) assms by (simp add: sdiv_nonneg)
qed

text \<open>What a cycle records: the exact bandwidth enters the filter.\<close>

lemma calc_dir_filter:
  assumes "0 < cy_rtt_ns c"
  shows "bw_wnd (calc_dir d c)
    = wndfilter_update_max (bw_wnd d) WND_BW_MAX_NS (cy_now_ns c) (bandwidth (e_sample d) (cy_rtt_ns c))"
  unfolding calc_dir_def Let_def calc_dir_sample [OF assms]
  by (simp add: phase_startup_def phase_track_def Let_def split: estimator_phase.split)

lemma calc_dir_inv:
  assumes "dir_inv d" "0 < cy_rtt_ns c"
  shows "dir_inv (calc_dir d c)"
proof -
  define w where "w = wndfilter_update_max (bw_wnd d) WND_BW_MAX_NS (cy_now_ns c) (bandwidth (e_sample d) (cy_rtt_ns c))"
  have "slots_in bw_range w"
    unfolding w_def using assms by (intro slots_in_update_max bandwidth_range) (auto simp: dir_inv_def)
  then have "dir_inv (d\<lparr>bw_wnd := w, e_bdp := bdp_to_size v\<rparr>)" for v
    using assms by (auto simp: dir_inv_def bdp_to_size_le)
  then show ?thesis
    unfolding calc_dir_def Let_def calc_dir_sample [OF assms(2)] w_def [symmetric]
    by (auto simp: phase_startup_inv phase_track_inv split: estimator_phase.split)
qed

text \<open>Times are those of a clock that fits a signed 64-bit integer and does not go below 0.\<close>

definition clock_range :: "int set" where
  "clock_range = {0 ..< 2 ^ 63}"

definition estimator_inv :: "estimator_ctx \<Rightarrow> bool" where
  "estimator_inv est \<longleftrightarrow> dir_inv (e_rx est) \<and> dir_inv (e_tx est) \<and> last_probe_ns est \<in> clock_range"

lemma dir_inv_sample [simp]: "dir_inv (d\<lparr>e_sample := n\<rparr>) = dir_inv d"
  by (simp add: dir_inv_def)

lemma publish_estimate_estimator [simp]: "estimator (session_publish_estimate ss) = estimator ss"
  by (simp add: session_publish_estimate_def)

lemma init_inv: "bdp \<le> SIZE_MAX \<Longrightarrow> estimator_inv (estimator (mux_estimator_init ss bdp))"
  by (auto simp: mux_estimator_init_def estimator_inv_def dir_inv_def Let_def zero_dir_def
      zero_wndfilter_def slots_in_def bw_range_def mux_consts clock_range_def zero_estimator_def)

text \<open>What handling an echo leaves: nothing for one that does not answer the probe in flight, else
  the end of the cycle, and with a positive round-trip time a new estimate.\<close>

lemma calculate_cases:
  fixes ss :: mux_session and sent_ns :: int
  defines "est \<equiv> estimator ss" and "now \<equiv> os_clock_ns (os ss)"
  assumes "last_probe_ns est \<in> clock_range" "now \<in> clock_range"
  shows "estimator (mux_estimator_calculate ss sent_ns) =
    (if \<not> ping_in_flight est \<or> sent_ns \<noteq> last_probe_ns est then est
     else (reset_samples ((if now - sent_ns \<le> 0 then est
       else let rtt_wnd' = wndfilter_update_min (rtt_wnd est) WND_RTT_MIN_NS now (now - sent_ns);
                c = \<lparr>cy_rtt_ns = now - sent_ns, cy_rtt_min_ns = wndfilter_get rtt_wnd', cy_now_ns = now\<rparr>
            in est\<lparr>rtt_wnd := rtt_wnd', e_rtt := now - sent_ns, e_rx := calc_dir (e_rx est) c,
                   e_tx := calc_dir (e_tx est) c\<rparr>)\<lparr>ping_in_flight := False\<rparr>))\<lparr>last_probe_ns := now\<rparr>)"
proof -
  have "s64 (now - last_probe_ns est) = now - last_probe_ns est"
    using assms(3,4) by (intro s64_exact) (simp_all add: clock_range_def)
  then show ?thesis
    by (simp add: mux_estimator_calculate_def Let_def est_def now_def)
qed

lemma calculate_inv:
  assumes "estimator_inv (estimator ss)" "os_clock_ns (os ss) \<in> clock_range"
  shows "estimator_inv (estimator (mux_estimator_calculate ss sent_ns))"
proof -
  have "last_probe_ns (estimator ss) \<in> clock_range"
    using assms(1) by (simp add: estimator_inv_def)
  note e = calculate_cases [OF this assms(2), of sent_ns]
  show ?thesis
    unfolding e using assms calc_dir_inv by (simp add: estimator_inv_def reset_samples_def Let_def)
qed

lemma window_size_bounds: "WNDSIZE_MIN \<le> window_size d \<and> window_size d \<le> WNDSIZE_MAX"
  by (auto simp: window_size_def Let_def mux_consts)

text \<open>The window size in exact arithmetic: the estimate, at least the initial window and what the
  tracked bandwidth moves in the feedback latency, at most the cap.\<close>

lemma window_size_exact:
  assumes "dir_inv d"
  shows "window_size d = min WNDSIZE_MAX (max (effective_bdp d)
    (max WNDSIZE_MIN (nat (wndfilter_get (bw_wnd d) * WND_FEEDBACK_FLOOR_NS div 1000000000))))"
proof -
  define b where "b = wndfilter_get (bw_wnd d)"
  have b: "0 \<le> b" "b \<le> INT64_MAX div WND_FEEDBACK_FLOOR_NS"
    using slots_in_get [of bw_range "bw_wnd d"] assms by (simp_all add: b_def dir_inv_def bw_range_def)
  then have "s64 (b * WND_FEEDBACK_FLOOR_NS) sdiv 1000000000 = b * WND_FEEDBACK_FLOOR_NS div 1000000000"
    by (simp add: s64_exact sdiv_nonneg mux_consts)
  then show ?thesis
    using b(1) unfolding window_size_def Let_def b_def [symmetric]
    by (cases "b = 0") (auto simp: mux_consts max_def min_def nat_le_iff zle_int)
qed

text \<open>C11. The estimator's signed 64-bit arithmetic never overflows, and what it computes is exact.
  Initialisation with any seed establishes, and handling any probe echo preserves, the invariant of
  both directions.  The echo of the probe in flight, received after it was sent, records the exact
  round-trip time and the exact bandwidth of both directions in their filters, whatever number of
  bytes was counted; any other echo changes nothing.  The window sizes are the estimate clamped to
  the protocol's range with the exact bandwidth floor.\<close>

theorem mux_estimator_calculate_safe:
  fixes ss :: mux_session and sent_ns :: int
  assumes "estimator_inv (estimator ss)" "os_clock_ns (os ss) \<in> clock_range" "bdp \<le> SIZE_MAX"
  defines "est \<equiv> estimator ss" and "est' \<equiv> estimator (mux_estimator_calculate ss sent_ns)"
    and "now \<equiv> os_clock_ns (os ss)"
  shows "estimator_inv est'
    \<and> estimator_inv (estimator (mux_estimator_init ss bdp))
    \<and> (if \<not> ping_in_flight est \<or> sent_ns \<noteq> last_probe_ns est then est' = est
       else \<not> ping_in_flight est' \<and> e_sample (e_rx est') = 0 \<and> e_sample (e_tx est') = 0 \<and> last_probe_ns est' = now
        \<and> (if sent_ns < now
           then e_rtt est' = now - sent_ns
             \<and> rtt_wnd est' = wndfilter_update_min (rtt_wnd est) WND_RTT_MIN_NS now (now - sent_ns)
             \<and> bw_wnd (e_rx est') = wndfilter_update_max (bw_wnd (e_rx est)) WND_BW_MAX_NS now
                 (bandwidth (e_sample (e_rx est)) (now - sent_ns))
             \<and> bw_wnd (e_tx est') = wndfilter_update_max (bw_wnd (e_tx est)) WND_BW_MAX_NS now
                 (bandwidth (e_sample (e_tx est)) (now - sent_ns))
           else rtt_wnd est' = rtt_wnd est \<and> bw_wnd (e_rx est') = bw_wnd (e_rx est) \<and> bw_wnd (e_tx est') = bw_wnd (e_tx est)))
    \<and> mux_estimator_rx_window_size est' = min WNDSIZE_MAX (max (effective_bdp (e_rx est'))
        (max WNDSIZE_MIN (nat (wndfilter_get (bw_wnd (e_rx est')) * WND_FEEDBACK_FLOOR_NS div 1000000000))))
    \<and> mux_estimator_tx_window_size est' = min WNDSIZE_MAX (max (effective_bdp (e_tx est'))
        (max WNDSIZE_MIN (nat (wndfilter_get (bw_wnd (e_tx est')) * WND_FEEDBACK_FLOOR_NS div 1000000000))))"
proof -
  have inv: "estimator_inv est'"
    unfolding est'_def using assms(1,2) by (rule calculate_inv)
  then have w: "dir_inv (e_rx est')" "dir_inv (e_tx est')"
    by (simp_all add: estimator_inv_def)
  have "last_probe_ns (estimator ss) \<in> clock_range"
    using assms(1) by (simp add: estimator_inv_def)
  note e = calculate_cases [OF this assms(2), of sent_ns, folded est_def est'_def now_def]
  note z = window_size_exact [OF w(1)] window_size_exact [OF w(2)]
  show ?thesis
    unfolding mux_estimator_rx_window_size_def mux_estimator_tx_window_size_def
  proof (intro conjI)
    show "if \<not> ping_in_flight est \<or> sent_ns \<noteq> last_probe_ns est then est' = est
       else \<not> ping_in_flight est' \<and> e_sample (e_rx est') = 0 \<and> e_sample (e_tx est') = 0 \<and> last_probe_ns est' = now
        \<and> (if sent_ns < now
           then e_rtt est' = now - sent_ns
             \<and> rtt_wnd est' = wndfilter_update_min (rtt_wnd est) WND_RTT_MIN_NS now (now - sent_ns)
             \<and> bw_wnd (e_rx est') = wndfilter_update_max (bw_wnd (e_rx est)) WND_BW_MAX_NS now
                 (bandwidth (e_sample (e_rx est)) (now - sent_ns))
             \<and> bw_wnd (e_tx est') = wndfilter_update_max (bw_wnd (e_tx est)) WND_BW_MAX_NS now
                 (bandwidth (e_sample (e_tx est)) (now - sent_ns))
           else rtt_wnd est' = rtt_wnd est \<and> bw_wnd (e_rx est') = bw_wnd (e_rx est) \<and> bw_wnd (e_tx est') = bw_wnd (e_tx est))"
      unfolding e by (simp add: reset_samples_def Let_def calc_dir_filter)
  qed (rule inv init_inv [OF assms(3)] z)+
qed

text \<open>A probe that took two milliseconds, during which a megabyte was received.\<close>

definition sample_probe :: mux_session where
  "sample_probe = sample_session\<lparr>estimator := zero_estimator
     \<lparr>e_rx := zero_dir\<lparr>effective_bdp := 65536, e_sample := 1000000\<rparr>, e_tx := zero_dir\<lparr>effective_bdp := 65536\<rparr>,
       last_probe_ns := 5000, ping_in_flight := True\<rparr>,
     os := (os sample_session)\<lparr>os_clock_ns := 2005000\<rparr>\<rparr>"

theorem mux_estimator_calculate_safe_witness:
  "let est' = estimator (mux_estimator_calculate sample_probe 5000)
   in e_rtt est' = 2000000 \<and> wndfilter_get (bw_wnd (e_rx est')) = 500000000
    \<and> wndfilter_get (bw_wnd (e_tx est')) = 0 \<and> 300000 \<le> mux_estimator_rx_window_size est'"
proof -
  have "estimator_inv (estimator sample_probe)" "os_clock_ns (os sample_probe) \<in> clock_range"
    by (simp_all add: sample_probe_def estimator_inv_def dir_inv_def zero_dir_def zero_wndfilter_def slots_in_def
        bw_range_def mux_consts clock_range_def zero_estimator_def SIZE_MAX_def Let_def)
  note * = mux_estimator_calculate_safe [OF this, of 0 5000]
  have "bandwidth 1000000 2000000 = 500000000" "bandwidth 0 2000000 = 0"
    by (simp_all add: bandwidth_def mux_consts)
  then show ?thesis
    using * by (simp add: sample_probe_def Let_def wndfilter_get_def wndfilter_update_max_def wndfilter_reset_def
        zero_dir_def zero_estimator_def zero_wndfilter_def mux_consts)
qed

section \<open>Convergence of the growth phase\<close>







end
