(* ===== verification/Session_Base.thy ===== *)
theory Session_Base
  imports Estimator
begin

text \<open>
  What every component of the core uses of a session: counters and gauges, the events it
  reports, access to the stream table, the frame pool, and the inline predicates of
  \<^verbatim>\<open>mux/stream.h\<close> and \<^verbatim>\<open>mux/session.h\<close>.
\<close>

section \<open>Counters, events, frames\<close>

definition counter_add :: "mux_counter \<Rightarrow> nat \<Rightarrow> mux_session \<Rightarrow> mux_session" where
  "counter_add c n ss = ss\<lparr>cnt := (cnt ss)(c := cnt ss c + of_nat n)\<rparr>"

definition counter_sub :: "mux_counter \<Rightarrow> nat \<Rightarrow> mux_session \<Rightarrow> mux_session" where
  "counter_sub c n ss = ss\<lparr>cnt := (cnt ss)(c := cnt ss c - of_nat n)\<rparr>"

definition put_out :: "mux_output \<Rightarrow> mux_session \<Rightarrow> mux_session" where
  "put_out x ss = ss\<lparr>out := x # out ss\<rparr>"

definition session_emit :: "mux_session \<Rightarrow> mux_event \<Rightarrow> mux_session" where
  "session_emit ss event = put_out (Out_event event) ss"

definition pool_put :: "mux_frame \<Rightarrow> mux_session \<Rightarrow> mux_session" where
  "pool_put f ss = ss\<lparr>pool := mux_frame_put (pool ss) f\<rparr>"

text \<open>\<^verbatim>\<open>mux_frame_list_clear\<close> on a queue the session model keeps as a plain list.\<close>

definition pool_put_all :: "mux_frame list \<Rightarrow> mux_session \<Rightarrow> mux_session" where
  "pool_put_all fs ss = fold pool_put fs ss"

definition pool_get :: "mux_session \<Rightarrow> nat \<Rightarrow> mux_frame option \<times> mux_session" where
  "pool_get ss cap = (let (f, pl) = mux_frame_get (pool ss) cap in (f, ss\<lparr>pool := pl\<rparr>))"

section \<open>The stream table\<close>

definition tab :: "mux_session \<Rightarrow> (u16 \<times> mux_stream) list" where
  "tab ss = (case streams (sched ss) of None \<Rightarrow> [] | Some t \<Rightarrow> t)"

definition table_size :: "mux_session \<Rightarrow> nat" where
  "table_size ss = length (tab ss)"

text \<open>A stream pointer is an ID of the table.  Reading through a pointer that is no longer
  there yields a closed stream, writing through it changes nothing.\<close>

definition dead_stream :: mux_stream where
  "dead_stream = zero_stream\<lparr>s_state := STREAM_CLOSED\<rparr>"

definition stm :: "mux_session \<Rightarrow> u16 \<Rightarrow> mux_stream" where
  "stm ss i = (case map_of (tab ss) i of None \<Rightarrow> dead_stream | Some s \<Rightarrow> s)"

definition put_entry :: "u16 \<Rightarrow> mux_stream \<Rightarrow> (u16 \<times> mux_stream) list \<Rightarrow> (u16 \<times> mux_stream) list" where
  "put_entry i s t = map (\<lambda>(j, s'). if j = i then (j, s) else (j, s')) t"

definition put_stm :: "u16 \<Rightarrow> mux_stream \<Rightarrow> mux_session \<Rightarrow> mux_session" where
  "put_stm i s ss = ss\<lparr>sched := (sched ss)\<lparr>streams := map_option (put_entry i s) (streams (sched ss))\<rparr>\<rparr>"

definition upd_stm :: "u16 \<Rightarrow> (mux_stream \<Rightarrow> mux_stream) \<Rightarrow> mux_session \<Rightarrow> mux_session" where
  "upd_stm i f ss = put_stm i (f (stm ss i)) ss"

text \<open>Run an operation that works on the session and one of its streams.\<close>

definition on_stm ::
    "u16 \<Rightarrow> (mux_session \<times> mux_stream \<Rightarrow> mux_session \<times> mux_stream) \<Rightarrow> mux_session \<Rightarrow> mux_session" where
  "on_stm i f ss = (let (ss, s) = f (ss, stm ss i) in put_stm i s ss)"

section \<open>Inline predicates of streams\<close>

definition stream_avail_window :: "mux_stream \<Rightarrow> nat" where
  "stream_avail_window s =
    (if s_recv_window s > s_buffered_bytes s then unat (s_recv_window s - s_buffered_bytes s) else 0)"

definition stream_credit_avail :: "mux_stream \<Rightarrow> nat" where
  "stream_credit_avail s = unat (s_send_window s - s_bytes_sent s)"

definition stream_read_credit_avail :: "mux_stream \<Rightarrow> nat" where
  "stream_read_credit_avail s =
    (let send_credit = stream_credit_avail s in
     if send_credit > unat (s_queued_send_bytes s) then send_credit - unat (s_queued_send_bytes s) else 0)"

definition stream_fin_pending :: "mux_stream \<Rightarrow> bool" where
  "stream_fin_pending s \<longleftrightarrow> s_rx_eof s \<and> s_send_queue s = []
    \<and> (s_state s = STREAM_ESTABLISHED \<or> s_state s = STREAM_CLOSE_WAIT)"

definition stream_has_mode :: "mux_stream \<Rightarrow> bool" where
  "stream_has_mode s \<longleftrightarrow> s_is_direct s \<or> io_fd (s_io s) \<noteq> - 1"

definition stream_can_send_data :: "mux_stream \<Rightarrow> bool" where
  "stream_can_send_data s \<longleftrightarrow>
    s_state s = STREAM_INIT \<or> s_state s = STREAM_ESTABLISHED \<or> s_state s = STREAM_CLOSE_WAIT"

definition stream_may_originate :: "mux_stream \<Rightarrow> bool" where
  "stream_may_originate s \<longleftrightarrow> \<not> s_rx_eof s \<and> stream_can_send_data s"

definition stream_direct_read_ready :: "mux_stream \<Rightarrow> bool" where
  "stream_direct_read_ready s \<longleftrightarrow> bytebuf_readable (s_recvbuf s) > 0
    \<or> s_state s = STREAM_CLOSE_WAIT \<or> s_state s = STREAM_CLOSING \<or> s_rst_received s \<or> s_aborted s"

definition stream_direct_write_ready :: "mux_stream \<Rightarrow> bool" where
  "stream_direct_write_ready s \<longleftrightarrow> stream_may_originate s \<and> stream_read_credit_avail s > 0"

definition stream_grantable_bytes :: "mux_stream \<Rightarrow> nat" where
  "stream_grantable_bytes s =
    (let outstanding = unat (s_grant_sent s - s_bytes_received s); avail = stream_avail_window s
     in if avail > outstanding then avail - outstanding else 0)"

definition mux_stream_app_held :: "mux_stream \<Rightarrow> bool" where
  "mux_stream_app_held s \<longleftrightarrow> s_pending_attach s \<or> (s_is_direct s \<and> \<not> s_user_closed s)"

section \<open>Inline operations of sessions\<close>

definition session_closed_data :: "mux_session \<Rightarrow> bool \<Rightarrow> mux_event" where
  "session_closed_data ss expired = MUX_EVENT_CLOSED (wire_rx_eof (wire ss)) expired (wire_err (wire ss))"

definition session_connect_failed_data :: "mux_session \<Rightarrow> mux_event" where
  "session_connect_failed_data ss = MUX_EVENT_CONNECT_FAILED (wire_err (wire ss))"

definition session_set_stream_window :: "mux_session \<Rightarrow> u32 \<Rightarrow> mux_session" where
  "session_set_stream_window ss frames = ss\<lparr>stream_window := frames, pub_stream_window := unat frames\<rparr>"

definition session_set_peer_stream_window :: "mux_session \<Rightarrow> u32 \<Rightarrow> mux_session" where
  "session_set_peer_stream_window ss frames =
    ss\<lparr>peer_stream_window := frames, pub_peer_stream_window := unat frames\<rparr>"

definition session_dgram_negotiated :: "mux_session \<Rightarrow> bool" where
  "session_dgram_negotiated ss \<longleftrightarrow> offered_lossymux (handshake ss) \<and> peer_lossymux (handshake ss)"

definition session_streams_freed :: "mux_session \<Rightarrow> bool" where
  "session_streams_freed ss \<longleftrightarrow> streams (sched ss) = None"

section \<open>The socket watcher\<close>

definition mux_session_update_watcher :: "mux_session \<Rightarrow> mux_session" where
  "mux_session_update_watcher ss =
    (case ss_state ss of
       SESSION_CONNECT \<Rightarrow> ss\<lparr>w_socket := modify_io_events (w_socket ss) False True\<rparr>
     | SESSION_HANDSHAKE \<Rightarrow> ss\<lparr>w_socket := modify_io_events (w_socket ss) (rx_open (wire ss))
         (tx_pending (wire ss) \<or> \<not> rx_open (wire ss))\<rparr>
     | SESSION_ESTABLISHED \<Rightarrow> ss\<lparr>w_socket := modify_io_events (w_socket ss) (rx_open (wire ss))
         (tx_pending (wire ss) \<or> \<not> rx_open (wire ss))\<rparr>
     | SESSION_CLOSING \<Rightarrow> ss\<lparr>w_socket := modify_io_events (w_socket ss) (rx_open (wire ss))
         (tx_pending (wire ss) \<or> \<not> rx_open (wire ss))\<rparr>
     | SESSION_CLOSE_WAIT \<Rightarrow> ss\<lparr>w_socket := modify_io_events (w_socket ss) (rx_open (wire ss))
         (\<not> rx_open (wire ss))\<rparr>
     | _ \<Rightarrow> ss)"

definition mux_session_notify :: "mux_session \<Rightarrow> mux_session" where
  "mux_session_notify ss =
    (let ss = ss\<lparr>wire := (wire ss)\<lparr>tx_pending := True\<rparr>\<rparr>
     in if io_fd (w_socket ss) \<noteq> - 1 then mux_session_update_watcher ss else ss)"

section \<open>Frame conditions\<close>

text \<open>What the helpers leave alone.\<close>

lemma counter_add_proj [simp]:
  "conf (counter_add c n ss) = conf ss" "pool (counter_add c n ss) = pool ss"
  "heap (counter_add c n ss) = heap ss" "os (counter_add c n ss) = os ss"
  "cb (counter_add c n ss) = cb ss" "max_payload (counter_add c n ss) = max_payload ss"
  "readahead (counter_add c n ss) = readahead ss" "num_halfopen (counter_add c n ss) = num_halfopen ss"
  "recv_buffered_bytes (counter_add c n ss) = recv_buffered_bytes ss"
  "send_buffered_frames (counter_add c n ss) = send_buffered_frames ss"
  "last_connect_latency_ns (counter_add c n ss) = last_connect_latency_ns ss"
  "bytes_recv (counter_add c n ss) = bytes_recv ss"
  "ping_recv_last_ns (counter_add c n ss) = ping_recv_last_ns ss"
  "ss_state (counter_add c n ss) = ss_state ss" "last_modified (counter_add c n ss) = last_modified ss"
  "peer_addr_set (counter_add c n ss) = peer_addr_set ss" "w_socket (counter_add c n ss) = w_socket ss"
  "w_timeout (counter_add c n ss) = w_timeout ss" "w_keepalive (counter_add c n ss) = w_keepalive ss"
  "w_send_timeout (counter_add c n ss) = w_send_timeout ss"
  "w_connect_timeout (counter_add c n ss) = w_connect_timeout ss"
  "w_idle_timeout (counter_add c n ss) = w_idle_timeout ss"
  "accepted (counter_add c n ss) = accepted ss"
  "auto_stream_window (counter_add c n ss) = auto_stream_window ss"
  "auto_session_window (counter_add c n ss) = auto_session_window ss"
  "draining (counter_add c n ss) = draining ss"
  "session_window (counter_add c n ss) = session_window ss"
  "stream_window (counter_add c n ss) = stream_window ss"
  "peer_stream_window (counter_add c n ss) = peer_stream_window ss"
  "wire (counter_add c n ss) = wire ss" "sched (counter_add c n ss) = sched ss"
  "unacked (counter_add c n ss) = unacked ss" "handshake (counter_add c n ss) = handshake ss"
  "estimator (counter_add c n ss) = estimator ss"
  "connect_started (counter_add c n ss) = connect_started ss"
  "suspended_at (counter_add c n ss) = suspended_at ss" "out (counter_add c n ss) = out ss"
  by (simp_all add: counter_add_def)

lemma counter_sub_proj [simp]:
  "conf (counter_sub c n ss) = conf ss" "pool (counter_sub c n ss) = pool ss"
  "heap (counter_sub c n ss) = heap ss" "os (counter_sub c n ss) = os ss"
  "cb (counter_sub c n ss) = cb ss" "max_payload (counter_sub c n ss) = max_payload ss"
  "readahead (counter_sub c n ss) = readahead ss" "num_halfopen (counter_sub c n ss) = num_halfopen ss"
  "recv_buffered_bytes (counter_sub c n ss) = recv_buffered_bytes ss"
  "send_buffered_frames (counter_sub c n ss) = send_buffered_frames ss"
  "last_connect_latency_ns (counter_sub c n ss) = last_connect_latency_ns ss"
  "bytes_recv (counter_sub c n ss) = bytes_recv ss"
  "ping_recv_last_ns (counter_sub c n ss) = ping_recv_last_ns ss"
  "ss_state (counter_sub c n ss) = ss_state ss" "last_modified (counter_sub c n ss) = last_modified ss"
  "peer_addr_set (counter_sub c n ss) = peer_addr_set ss" "w_socket (counter_sub c n ss) = w_socket ss"
  "w_timeout (counter_sub c n ss) = w_timeout ss" "w_keepalive (counter_sub c n ss) = w_keepalive ss"
  "w_send_timeout (counter_sub c n ss) = w_send_timeout ss"
  "w_connect_timeout (counter_sub c n ss) = w_connect_timeout ss"
  "w_idle_timeout (counter_sub c n ss) = w_idle_timeout ss"
  "accepted (counter_sub c n ss) = accepted ss"
  "auto_stream_window (counter_sub c n ss) = auto_stream_window ss"
  "auto_session_window (counter_sub c n ss) = auto_session_window ss"
  "draining (counter_sub c n ss) = draining ss"
  "session_window (counter_sub c n ss) = session_window ss"
  "stream_window (counter_sub c n ss) = stream_window ss"
  "peer_stream_window (counter_sub c n ss) = peer_stream_window ss"
  "wire (counter_sub c n ss) = wire ss" "sched (counter_sub c n ss) = sched ss"
  "unacked (counter_sub c n ss) = unacked ss" "handshake (counter_sub c n ss) = handshake ss"
  "estimator (counter_sub c n ss) = estimator ss"
  "connect_started (counter_sub c n ss) = connect_started ss"
  "suspended_at (counter_sub c n ss) = suspended_at ss" "out (counter_sub c n ss) = out ss"
  by (simp_all add: counter_sub_def)

lemma put_out_proj [simp]:
  "conf (put_out x ss) = conf ss" "pool (put_out x ss) = pool ss" "heap (put_out x ss) = heap ss"
  "os (put_out x ss) = os ss" "cb (put_out x ss) = cb ss" "max_payload (put_out x ss) = max_payload ss"
  "readahead (put_out x ss) = readahead ss" "cnt (put_out x ss) = cnt ss"
  "num_halfopen (put_out x ss) = num_halfopen ss"
  "recv_buffered_bytes (put_out x ss) = recv_buffered_bytes ss"
  "send_buffered_frames (put_out x ss) = send_buffered_frames ss"
  "last_connect_latency_ns (put_out x ss) = last_connect_latency_ns ss"
  "bytes_recv (put_out x ss) = bytes_recv ss" "ping_recv_last_ns (put_out x ss) = ping_recv_last_ns ss"
  "ss_state (put_out x ss) = ss_state ss" "last_modified (put_out x ss) = last_modified ss"
  "peer_addr_set (put_out x ss) = peer_addr_set ss" "w_socket (put_out x ss) = w_socket ss"
  "w_timeout (put_out x ss) = w_timeout ss" "w_keepalive (put_out x ss) = w_keepalive ss"
  "w_send_timeout (put_out x ss) = w_send_timeout ss"
  "w_connect_timeout (put_out x ss) = w_connect_timeout ss"
  "w_idle_timeout (put_out x ss) = w_idle_timeout ss" "accepted (put_out x ss) = accepted ss"
  "auto_stream_window (put_out x ss) = auto_stream_window ss"
  "auto_session_window (put_out x ss) = auto_session_window ss" "draining (put_out x ss) = draining ss"
  "session_window (put_out x ss) = session_window ss" "stream_window (put_out x ss) = stream_window ss"
  "peer_stream_window (put_out x ss) = peer_stream_window ss" "wire (put_out x ss) = wire ss"
  "sched (put_out x ss) = sched ss" "unacked (put_out x ss) = unacked ss"
  "handshake (put_out x ss) = handshake ss" "estimator (put_out x ss) = estimator ss"
  "connect_started (put_out x ss) = connect_started ss" "suspended_at (put_out x ss) = suspended_at ss"
  by (simp_all add: put_out_def)

lemma session_emit_proj [simp]:
  "conf (session_emit ss x) = conf ss" "pool (session_emit ss x) = pool ss"
  "heap (session_emit ss x) = heap ss" "os (session_emit ss x) = os ss" "cb (session_emit ss x) = cb ss"
  "max_payload (session_emit ss x) = max_payload ss" "readahead (session_emit ss x) = readahead ss"
  "cnt (session_emit ss x) = cnt ss" "num_halfopen (session_emit ss x) = num_halfopen ss"
  "recv_buffered_bytes (session_emit ss x) = recv_buffered_bytes ss"
  "send_buffered_frames (session_emit ss x) = send_buffered_frames ss"
  "last_connect_latency_ns (session_emit ss x) = last_connect_latency_ns ss"
  "bytes_recv (session_emit ss x) = bytes_recv ss"
  "ping_recv_last_ns (session_emit ss x) = ping_recv_last_ns ss"
  "ss_state (session_emit ss x) = ss_state ss" "last_modified (session_emit ss x) = last_modified ss"
  "peer_addr_set (session_emit ss x) = peer_addr_set ss" "w_socket (session_emit ss x) = w_socket ss"
  "w_timeout (session_emit ss x) = w_timeout ss" "w_keepalive (session_emit ss x) = w_keepalive ss"
  "w_send_timeout (session_emit ss x) = w_send_timeout ss"
  "w_connect_timeout (session_emit ss x) = w_connect_timeout ss"
  "w_idle_timeout (session_emit ss x) = w_idle_timeout ss" "accepted (session_emit ss x) = accepted ss"
  "auto_stream_window (session_emit ss x) = auto_stream_window ss"
  "auto_session_window (session_emit ss x) = auto_session_window ss"
  "draining (session_emit ss x) = draining ss" "session_window (session_emit ss x) = session_window ss"
  "stream_window (session_emit ss x) = stream_window ss"
  "peer_stream_window (session_emit ss x) = peer_stream_window ss" "wire (session_emit ss x) = wire ss"
  "sched (session_emit ss x) = sched ss" "unacked (session_emit ss x) = unacked ss"
  "handshake (session_emit ss x) = handshake ss" "estimator (session_emit ss x) = estimator ss"
  "connect_started (session_emit ss x) = connect_started ss"
  "suspended_at (session_emit ss x) = suspended_at ss"
  by (simp_all add: session_emit_def)

lemma pool_put_proj [simp]:
  "conf (pool_put f ss) = conf ss" "heap (pool_put f ss) = heap ss" "os (pool_put f ss) = os ss"
  "cb (pool_put f ss) = cb ss" "max_payload (pool_put f ss) = max_payload ss"
  "readahead (pool_put f ss) = readahead ss" "cnt (pool_put f ss) = cnt ss"
  "num_halfopen (pool_put f ss) = num_halfopen ss"
  "recv_buffered_bytes (pool_put f ss) = recv_buffered_bytes ss"
  "send_buffered_frames (pool_put f ss) = send_buffered_frames ss"
  "last_connect_latency_ns (pool_put f ss) = last_connect_latency_ns ss"
  "bytes_recv (pool_put f ss) = bytes_recv ss"
  "ping_recv_last_ns (pool_put f ss) = ping_recv_last_ns ss" "ss_state (pool_put f ss) = ss_state ss"
  "last_modified (pool_put f ss) = last_modified ss" "peer_addr_set (pool_put f ss) = peer_addr_set ss"
  "w_socket (pool_put f ss) = w_socket ss" "w_timeout (pool_put f ss) = w_timeout ss"
  "w_keepalive (pool_put f ss) = w_keepalive ss" "w_send_timeout (pool_put f ss) = w_send_timeout ss"
  "w_connect_timeout (pool_put f ss) = w_connect_timeout ss"
  "w_idle_timeout (pool_put f ss) = w_idle_timeout ss" "accepted (pool_put f ss) = accepted ss"
  "auto_stream_window (pool_put f ss) = auto_stream_window ss"
  "auto_session_window (pool_put f ss) = auto_session_window ss"
  "draining (pool_put f ss) = draining ss" "session_window (pool_put f ss) = session_window ss"
  "stream_window (pool_put f ss) = stream_window ss"
  "peer_stream_window (pool_put f ss) = peer_stream_window ss" "wire (pool_put f ss) = wire ss"
  "sched (pool_put f ss) = sched ss" "unacked (pool_put f ss) = unacked ss"
  "handshake (pool_put f ss) = handshake ss" "estimator (pool_put f ss) = estimator ss"
  "connect_started (pool_put f ss) = connect_started ss"
  "suspended_at (pool_put f ss) = suspended_at ss" "out (pool_put f ss) = out ss"
  by (simp_all add: pool_put_def)

lemma pool_put_all_eq:
  "pool_put_all fs ss = ss\<lparr>pool := (pool ss)\<lparr>pool_freed := rev (map f_addr fs) @ pool_freed (pool ss)\<rparr>\<rparr>"
  by (induction fs arbitrary: ss) (simp_all add: pool_put_all_def pool_put_def mux_frame_put_def)

lemma pool_put_all_proj [simp]:
  "conf (pool_put_all fs ss) = conf ss" "heap (pool_put_all fs ss) = heap ss"
  "os (pool_put_all fs ss) = os ss" "cb (pool_put_all fs ss) = cb ss"
  "max_payload (pool_put_all fs ss) = max_payload ss" "readahead (pool_put_all fs ss) = readahead ss"
  "cnt (pool_put_all fs ss) = cnt ss" "num_halfopen (pool_put_all fs ss) = num_halfopen ss"
  "recv_buffered_bytes (pool_put_all fs ss) = recv_buffered_bytes ss"
  "send_buffered_frames (pool_put_all fs ss) = send_buffered_frames ss"
  "last_connect_latency_ns (pool_put_all fs ss) = last_connect_latency_ns ss"
  "bytes_recv (pool_put_all fs ss) = bytes_recv ss"
  "ping_recv_last_ns (pool_put_all fs ss) = ping_recv_last_ns ss"
  "ss_state (pool_put_all fs ss) = ss_state ss" "last_modified (pool_put_all fs ss) = last_modified ss"
  "peer_addr_set (pool_put_all fs ss) = peer_addr_set ss" "w_socket (pool_put_all fs ss) = w_socket ss"
  "w_timeout (pool_put_all fs ss) = w_timeout ss" "w_keepalive (pool_put_all fs ss) = w_keepalive ss"
  "w_send_timeout (pool_put_all fs ss) = w_send_timeout ss"
  "w_connect_timeout (pool_put_all fs ss) = w_connect_timeout ss"
  "w_idle_timeout (pool_put_all fs ss) = w_idle_timeout ss"
  "accepted (pool_put_all fs ss) = accepted ss"
  "auto_stream_window (pool_put_all fs ss) = auto_stream_window ss"
  "auto_session_window (pool_put_all fs ss) = auto_session_window ss"
  "draining (pool_put_all fs ss) = draining ss"
  "session_window (pool_put_all fs ss) = session_window ss"
  "stream_window (pool_put_all fs ss) = stream_window ss"
  "peer_stream_window (pool_put_all fs ss) = peer_stream_window ss"
  "wire (pool_put_all fs ss) = wire ss" "sched (pool_put_all fs ss) = sched ss"
  "unacked (pool_put_all fs ss) = unacked ss" "handshake (pool_put_all fs ss) = handshake ss"
  "estimator (pool_put_all fs ss) = estimator ss"
  "connect_started (pool_put_all fs ss) = connect_started ss"
  "suspended_at (pool_put_all fs ss) = suspended_at ss" "out (pool_put_all fs ss) = out ss"
  by (simp_all add: pool_put_all_eq)

lemma put_stm_proj [simp]:
  "conf (put_stm i s ss) = conf ss" "pool (put_stm i s ss) = pool ss" "heap (put_stm i s ss) = heap ss"
  "os (put_stm i s ss) = os ss" "cb (put_stm i s ss) = cb ss"
  "max_payload (put_stm i s ss) = max_payload ss" "readahead (put_stm i s ss) = readahead ss"
  "cnt (put_stm i s ss) = cnt ss" "num_halfopen (put_stm i s ss) = num_halfopen ss"
  "recv_buffered_bytes (put_stm i s ss) = recv_buffered_bytes ss"
  "send_buffered_frames (put_stm i s ss) = send_buffered_frames ss"
  "last_connect_latency_ns (put_stm i s ss) = last_connect_latency_ns ss"
  "bytes_recv (put_stm i s ss) = bytes_recv ss"
  "ping_recv_last_ns (put_stm i s ss) = ping_recv_last_ns ss" "ss_state (put_stm i s ss) = ss_state ss"
  "last_modified (put_stm i s ss) = last_modified ss"
  "peer_addr_set (put_stm i s ss) = peer_addr_set ss" "w_socket (put_stm i s ss) = w_socket ss"
  "w_timeout (put_stm i s ss) = w_timeout ss" "w_keepalive (put_stm i s ss) = w_keepalive ss"
  "w_send_timeout (put_stm i s ss) = w_send_timeout ss"
  "w_connect_timeout (put_stm i s ss) = w_connect_timeout ss"
  "w_idle_timeout (put_stm i s ss) = w_idle_timeout ss" "accepted (put_stm i s ss) = accepted ss"
  "auto_stream_window (put_stm i s ss) = auto_stream_window ss"
  "auto_session_window (put_stm i s ss) = auto_session_window ss"
  "draining (put_stm i s ss) = draining ss" "session_window (put_stm i s ss) = session_window ss"
  "stream_window (put_stm i s ss) = stream_window ss"
  "peer_stream_window (put_stm i s ss) = peer_stream_window ss" "wire (put_stm i s ss) = wire ss"
  "unacked (put_stm i s ss) = unacked ss" "handshake (put_stm i s ss) = handshake ss"
  "estimator (put_stm i s ss) = estimator ss" "connect_started (put_stm i s ss) = connect_started ss"
  "suspended_at (put_stm i s ss) = suspended_at ss" "out (put_stm i s ss) = out ss"
  by (simp_all add: put_stm_def)

lemma upd_stm_proj [simp]:
  "conf (upd_stm i f ss) = conf ss" "pool (upd_stm i f ss) = pool ss" "heap (upd_stm i f ss) = heap ss"
  "os (upd_stm i f ss) = os ss" "cb (upd_stm i f ss) = cb ss"
  "max_payload (upd_stm i f ss) = max_payload ss" "readahead (upd_stm i f ss) = readahead ss"
  "cnt (upd_stm i f ss) = cnt ss" "num_halfopen (upd_stm i f ss) = num_halfopen ss"
  "recv_buffered_bytes (upd_stm i f ss) = recv_buffered_bytes ss"
  "send_buffered_frames (upd_stm i f ss) = send_buffered_frames ss"
  "last_connect_latency_ns (upd_stm i f ss) = last_connect_latency_ns ss"
  "bytes_recv (upd_stm i f ss) = bytes_recv ss"
  "ping_recv_last_ns (upd_stm i f ss) = ping_recv_last_ns ss" "ss_state (upd_stm i f ss) = ss_state ss"
  "last_modified (upd_stm i f ss) = last_modified ss"
  "peer_addr_set (upd_stm i f ss) = peer_addr_set ss" "w_socket (upd_stm i f ss) = w_socket ss"
  "w_timeout (upd_stm i f ss) = w_timeout ss" "w_keepalive (upd_stm i f ss) = w_keepalive ss"
  "w_send_timeout (upd_stm i f ss) = w_send_timeout ss"
  "w_connect_timeout (upd_stm i f ss) = w_connect_timeout ss"
  "w_idle_timeout (upd_stm i f ss) = w_idle_timeout ss" "accepted (upd_stm i f ss) = accepted ss"
  "auto_stream_window (upd_stm i f ss) = auto_stream_window ss"
  "auto_session_window (upd_stm i f ss) = auto_session_window ss"
  "draining (upd_stm i f ss) = draining ss" "session_window (upd_stm i f ss) = session_window ss"
  "stream_window (upd_stm i f ss) = stream_window ss"
  "peer_stream_window (upd_stm i f ss) = peer_stream_window ss" "wire (upd_stm i f ss) = wire ss"
  "unacked (upd_stm i f ss) = unacked ss" "handshake (upd_stm i f ss) = handshake ss"
  "estimator (upd_stm i f ss) = estimator ss" "connect_started (upd_stm i f ss) = connect_started ss"
  "suspended_at (upd_stm i f ss) = suspended_at ss" "out (upd_stm i f ss) = out ss"
  by (simp_all add: upd_stm_def)

lemma put_stm_sched [simp]:
  "num_tombstones (sched (put_stm i s ss)) = num_tombstones (sched ss)"
  "num_closed (sched (put_stm i s ss)) = num_closed (sched ss)"
  "sched_fifo (sched (put_stm i s ss)) = sched_fifo (sched ss)"
  "drr_active (sched (put_stm i s ss)) = drr_active (sched ss)"
  "delay_list (sched (put_stm i s ss)) = delay_list (sched ss)"
  "lp_fifo (sched (put_stm i s ss)) = lp_fifo (sched ss)"
  "orphans (sched (put_stm i s ss)) = orphans (sched ss)"
  "streams (sched (put_stm i s ss)) = map_option (put_entry i s) (streams (sched ss))"
  by (simp_all add: put_stm_def)

lemma mux_session_update_watcher_proj [simp]:
  "conf (mux_session_update_watcher ss) = conf ss" "pool (mux_session_update_watcher ss) = pool ss"
  "heap (mux_session_update_watcher ss) = heap ss" "os (mux_session_update_watcher ss) = os ss"
  "cb (mux_session_update_watcher ss) = cb ss"
  "max_payload (mux_session_update_watcher ss) = max_payload ss"
  "readahead (mux_session_update_watcher ss) = readahead ss"
  "cnt (mux_session_update_watcher ss) = cnt ss"
  "num_halfopen (mux_session_update_watcher ss) = num_halfopen ss"
  "recv_buffered_bytes (mux_session_update_watcher ss) = recv_buffered_bytes ss"
  "send_buffered_frames (mux_session_update_watcher ss) = send_buffered_frames ss"
  "last_connect_latency_ns (mux_session_update_watcher ss) = last_connect_latency_ns ss"
  "bytes_recv (mux_session_update_watcher ss) = bytes_recv ss"
  "ping_recv_last_ns (mux_session_update_watcher ss) = ping_recv_last_ns ss"
  "ss_state (mux_session_update_watcher ss) = ss_state ss"
  "last_modified (mux_session_update_watcher ss) = last_modified ss"
  "peer_addr_set (mux_session_update_watcher ss) = peer_addr_set ss"
  "w_timeout (mux_session_update_watcher ss) = w_timeout ss"
  "w_keepalive (mux_session_update_watcher ss) = w_keepalive ss"
  "w_send_timeout (mux_session_update_watcher ss) = w_send_timeout ss"
  "w_connect_timeout (mux_session_update_watcher ss) = w_connect_timeout ss"
  "w_idle_timeout (mux_session_update_watcher ss) = w_idle_timeout ss"
  "accepted (mux_session_update_watcher ss) = accepted ss"
  "auto_stream_window (mux_session_update_watcher ss) = auto_stream_window ss"
  "auto_session_window (mux_session_update_watcher ss) = auto_session_window ss"
  "draining (mux_session_update_watcher ss) = draining ss"
  "session_window (mux_session_update_watcher ss) = session_window ss"
  "stream_window (mux_session_update_watcher ss) = stream_window ss"
  "peer_stream_window (mux_session_update_watcher ss) = peer_stream_window ss"
  "wire (mux_session_update_watcher ss) = wire ss" "sched (mux_session_update_watcher ss) = sched ss"
  "unacked (mux_session_update_watcher ss) = unacked ss"
  "handshake (mux_session_update_watcher ss) = handshake ss"
  "estimator (mux_session_update_watcher ss) = estimator ss"
  "connect_started (mux_session_update_watcher ss) = connect_started ss"
  "suspended_at (mux_session_update_watcher ss) = suspended_at ss"
  "out (mux_session_update_watcher ss) = out ss"
  by (simp_all add: mux_session_update_watcher_def split: session_state.split)

lemma mux_session_notify_proj [simp]:
  "conf (mux_session_notify ss) = conf ss" "pool (mux_session_notify ss) = pool ss"
  "heap (mux_session_notify ss) = heap ss" "os (mux_session_notify ss) = os ss"
  "cb (mux_session_notify ss) = cb ss" "max_payload (mux_session_notify ss) = max_payload ss"
  "readahead (mux_session_notify ss) = readahead ss" "cnt (mux_session_notify ss) = cnt ss"
  "num_halfopen (mux_session_notify ss) = num_halfopen ss"
  "recv_buffered_bytes (mux_session_notify ss) = recv_buffered_bytes ss"
  "send_buffered_frames (mux_session_notify ss) = send_buffered_frames ss"
  "last_connect_latency_ns (mux_session_notify ss) = last_connect_latency_ns ss"
  "bytes_recv (mux_session_notify ss) = bytes_recv ss"
  "ping_recv_last_ns (mux_session_notify ss) = ping_recv_last_ns ss"
  "ss_state (mux_session_notify ss) = ss_state ss"
  "last_modified (mux_session_notify ss) = last_modified ss"
  "peer_addr_set (mux_session_notify ss) = peer_addr_set ss"
  "w_timeout (mux_session_notify ss) = w_timeout ss"
  "w_keepalive (mux_session_notify ss) = w_keepalive ss"
  "w_send_timeout (mux_session_notify ss) = w_send_timeout ss"
  "w_connect_timeout (mux_session_notify ss) = w_connect_timeout ss"
  "w_idle_timeout (mux_session_notify ss) = w_idle_timeout ss"
  "accepted (mux_session_notify ss) = accepted ss"
  "auto_stream_window (mux_session_notify ss) = auto_stream_window ss"
  "auto_session_window (mux_session_notify ss) = auto_session_window ss"
  "draining (mux_session_notify ss) = draining ss"
  "session_window (mux_session_notify ss) = session_window ss"
  "stream_window (mux_session_notify ss) = stream_window ss"
  "peer_stream_window (mux_session_notify ss) = peer_stream_window ss"
  "sched (mux_session_notify ss) = sched ss" "unacked (mux_session_notify ss) = unacked ss"
  "handshake (mux_session_notify ss) = handshake ss" "estimator (mux_session_notify ss) = estimator ss"
  "connect_started (mux_session_notify ss) = connect_started ss"
  "suspended_at (mux_session_notify ss) = suspended_at ss" "out (mux_session_notify ss) = out ss"
  by (simp_all add: mux_session_notify_def Let_def)

end
