(* ===== verification/Teardown.thy ===== *)
theory Teardown
  imports Session_Base "HOL-Library.Multiset"
begin

text \<open>
  How streams and sessions end: the closing primitives of \<^verbatim>\<open>mux/stream.c\<close>, the bulk
  release of the stream table in \<^verbatim>\<open>mux/sched.c\<close>, the session state machine,
  reset and graceful shutdown of \<^verbatim>\<open>mux/session.c\<close>, and the release of the send
  queues and the retransmit log.  These are the operations every other component may reach
  on an error, so they come first.
\<close>

section \<open>Closing one stream\<close>

definition stream_set_state ::
    "stream_state \<Rightarrow> mux_session \<times> mux_stream \<Rightarrow> mux_session \<times> mux_stream" where
  "stream_set_state newstate p =
    (let (ss, s) = p;
         new_halfopen = (newstate = STREAM_INIT \<or> newstate = STREAM_SYN_SENT \<or> newstate = STREAM_SYN_RECEIVED);
         (ss, s) =
           (if \<not> s_halfopen_counted s \<and> new_halfopen
            then (counter_add num_stream_halfopen 1 (ss\<lparr>num_halfopen := num_halfopen ss + 1\<rparr>),
                  s\<lparr>s_halfopen_counted := True\<rparr>)
            else if s_halfopen_counted s \<and> \<not> new_halfopen
            then (counter_sub num_stream_halfopen 1 (ss\<lparr>num_halfopen := num_halfopen ss - 1\<rparr>),
                  s\<lparr>s_halfopen_counted := False\<rparr>)
            else (ss, s))
     in if s_state s = newstate then (ss, s)
        else (if newstate = STREAM_ESTABLISHED then counter_add num_stream_established 1 ss else ss,
              s\<lparr>s_state := newstate\<rparr>))"

text \<open>Unlinking from the coalescing list; the caller checks that the stream is on it.\<close>

definition mux_sched_delay_remove :: "mux_session \<times> mux_stream \<Rightarrow> mux_session \<times> mux_stream" where
  "mux_sched_delay_remove p =
    (let (ss, s) = p
     in (ss\<lparr>sched := (sched ss)\<lparr>delay_list := remove1 (s_id s) (delay_list (sched ss))\<rparr>\<rparr>,
         s\<lparr>s_delay_pending := False, s_delay_ticks := 0\<rparr>))"

text \<open>An orphan is off the table, so it is never the stream \<^verbatim>\<open>drr_active\<close> points to even when a
  later stream reuses its ID.\<close>

definition stream_stop :: "mux_session \<times> mux_stream \<Rightarrow> mux_session \<times> mux_stream" where
  "stream_stop p =
    (let (ss, s) = p;
         s = s\<lparr>s_tombstone := ev_timer_stop (s_tombstone s)\<rparr>;
         (ss, s) = (if s_delay_pending s then mux_sched_delay_remove (ss, s) else (ss, s));
         ss = (if drr_active (sched ss) = Some (s_id s) \<and> \<not> s_orphaned s
               then ss\<lparr>sched := (sched ss)\<lparr>drr_active := None\<rparr>\<rparr> else ss)
     in if s_is_direct s then (ss, s)
        else (ss, s\<lparr>s_io := ev_io_stop (s_io s), s_timeout := ev_timer_stop (s_timeout s)\<rparr>))"

definition stream_release_buffers :: "mux_session \<times> mux_stream \<Rightarrow> mux_session \<times> mux_stream" where
  "stream_release_buffers p =
    (let (ss, s) = p;
         n = length (s_send_queue s);
         ss = counter_sub cnt_send_buffered_frames n (ss\<lparr>send_buffered_frames := send_buffered_frames ss - n\<rparr>);
         ss = pool_put_all (s_send_queue s) ss;
         s = s\<lparr>s_send_queue := [], s_queued_send_bytes := 0\<rparr>;
         len = rb_len (s_recvbuf s);
         ss = counter_sub cnt_recv_buffered_bytes len (ss\<lparr>recv_buffered_bytes := recv_buffered_bytes ss - len\<rparr>);
         (rb, hp) = mux_bytebuf_shrink (heap ss) (bytebuf_reset (s_recvbuf s)) 0
     in (ss\<lparr>heap := hp\<rparr>, s\<lparr>s_recvbuf := rb, s_buffered_bytes := 0\<rparr>))"

definition stream_rst_notify_socket :: "mux_session \<times> mux_stream \<Rightarrow> mux_session" where
  "stream_rst_notify_socket p =
    (let (ss, s) = p
     in if io_fd (s_io s) = - 1 then ss else put_out (Out_linger_fd (io_fd (s_io s))) ss)"

definition stream_detach_user :: "mux_stream \<Rightarrow> mux_stream" where
  "stream_detach_user s =
    (if \<not> s_is_direct s then s
     else case s_w_io s of None \<Rightarrow> s | Some w \<Rightarrow> s\<lparr>s_w_io := None\<rparr>)"

definition mux_stream_free :: "mux_session \<times> mux_stream \<Rightarrow> mux_session" where
  "mux_stream_free p =
    (let (ss, s) = p;
         (ss, s) = (if s_halfopen_counted s
           then (counter_sub num_stream_halfopen 1 (ss\<lparr>num_halfopen := num_halfopen ss - 1\<rparr>),
                 s\<lparr>s_halfopen_counted := False\<rparr>)
           else (ss, s));
         ss = counter_sub num_streams 1 ss;
         (ss, s) = stream_stop (ss, stream_detach_user s);
         n = length (s_send_queue s);
         ss = counter_sub cnt_send_buffered_frames n (ss\<lparr>send_buffered_frames := send_buffered_frames ss - n\<rparr>);
         ss = pool_put_all (s_send_queue s) ss;
         len = rb_len (s_recvbuf s);
         ss = counter_sub cnt_recv_buffered_bytes len (ss\<lparr>recv_buffered_bytes := recv_buffered_bytes ss - len\<rparr>)
     in if \<not> s_is_direct s \<and> io_fd (s_io s) \<noteq> - 1
        then put_out (Out_close_fd (io_fd (s_io s))) (stream_rst_notify_socket (ss, s))
        else ss)"

definition mux_stream_orphan :: "mux_session \<times> mux_stream \<Rightarrow> mux_session \<times> mux_stream" where
  "mux_stream_orphan p =
    (let (ss, s) = stream_release_buffers (stream_stop p);
         (ss, s) = (if s_state s \<noteq> STREAM_CLOSED
           then stream_set_state STREAM_CLOSED (ss, s\<lparr>s_aborted := True\<rparr>) else (ss, s));
         s = s\<lparr>s_sched_queue := SCHED_QUEUE_NONE, s_orphaned := True\<rparr>
     in if \<not> s_is_direct s then (ss, s)
        else (ss, s\<lparr>s_w_io := map_option (\<lambda>w. w\<lparr>mio_pend_read := True\<rparr>) (s_w_io s)\<rparr>))"

section \<open>Releasing the stream table\<close>

definition sched_orphan_push :: "mux_session \<times> mux_stream \<Rightarrow> mux_session" where
  "sched_orphan_push p =
    (let (ss, s) = p in ss\<lparr>sched := (sched ss)\<lparr>orphans := s # orphans (sched ss)\<rparr>\<rparr>)"

definition fail_and_free_cb :: "mux_stream \<Rightarrow> mux_session \<Rightarrow> mux_session" where
  "fail_and_free_cb s ss =
    (let ss = (if s_state s \<noteq> STREAM_CLOSED then counter_add num_stream_failed 1 ss else ss)
     in if mux_stream_app_held s then sched_orphan_push (mux_stream_orphan (ss, s))
        else mux_stream_free (ss, s))"

text \<open>The orphan list is a list of stream objects; an orphan is named by its position.\<close>

definition mux_sched_free_orphan :: "mux_session \<Rightarrow> nat \<Rightarrow> mux_session" where
  "mux_sched_free_orphan ss k =
    (let s = orphans (sched ss) ! k;
         ss = ss\<lparr>sched := (sched ss)\<lparr>orphans := take k (orphans (sched ss)) @ drop (Suc k) (orphans (sched ss))\<rparr>\<rparr>
     in mux_stream_free (ss, s))"

definition mux_sched_free_orphans :: "mux_session \<Rightarrow> mux_session" where
  "mux_sched_free_orphans ss = fold (\<lambda>_ ss. mux_sched_free_orphan ss 0) (orphans (sched ss)) ss"

text \<open>The loop that clears \<^verbatim>\<open>delay_pending\<close> along the coalescing list.\<close>

definition clear_delays :: "u16 list \<Rightarrow> (u16 \<times> mux_stream) list \<Rightarrow> (u16 \<times> mux_stream) list" where
  "clear_delays dl t = map (\<lambda>(i, s). (i, if i \<in> set dl then s\<lparr>s_delay_pending := False\<rparr> else s)) t"

definition mux_sched_free_streams :: "mux_session \<Rightarrow> mux_session" where
  "mux_sched_free_streams ss =
    (let t = clear_delays (delay_list (sched ss)) (tab ss);
         ss = ss\<lparr>sched := (sched ss)\<lparr>sched_fifo := [], drr_active := None, lp_fifo := [], delay_list := [],
                num_tombstones := 0, num_closed := 0, next_stream_id := 0\<rparr>\<rparr>
     in if streams (sched ss) = None then ss
        else let ss = fold (\<lambda>(i, s). fail_and_free_cb s) t ss
             in ss\<lparr>sched := (sched ss)\<lparr>streams := None\<rparr>\<rparr>)"

section \<open>Releasing the send queues and the retransmit log\<close>

definition mux_wire_discard_buffers :: "mux_session \<Rightarrow> mux_session" where
  "mux_wire_discard_buffers ss =
    (let ss = pool_put_all (sendbuf (wire ss)) ss;
         ss = pool_put_all (oobbuf (wire ss)) ss;
         ss = pool_put_all (dgrambuf (wire ss)) ss
     in ss\<lparr>wire := (wire ss)\<lparr>sendbuf := [], oobbuf := [], dgrambuf := [], sendbuf_staging := False,
          recvbuf := bytebuf_reset (recvbuf (wire ss))\<rparr>\<rparr>)"

definition unacked_set_replay_off :: "unacked_ctx \<Rightarrow> nat option \<Rightarrow> unacked_ctx" where
  "unacked_set_replay_off u off = u\<lparr>retransmit_off := off, retransmitted_frames := 0\<rparr>"

definition mux_unacked_free_all :: "mux_session \<Rightarrow> mux_session" where
  "mux_unacked_free_all ss =
    (let (r, pl) = mux_frame_ring_free (u_ring (unacked ss)) (pool ss);
         ss = ss\<lparr>pool := pl, unacked := (unacked ss)\<lparr>u_ring := r\<rparr>\<rparr>;
         ss = counter_sub cnt_unacked_frames (u_frames (unacked ss)) ss;
         u = unacked_set_replay_off ((unacked ss)\<lparr>u_frames := 0, u_bytes := 0, partial_offset := 0\<rparr>) None
     in ss\<lparr>unacked := u\<lparr>retransmit_copy := None, retransmit_copy_count := 0,
          retransmit_copy_sent := 0, stalled := False\<rparr>\<rparr>)"

section \<open>The session state machine\<close>

definition session_stop_timers :: "mux_session \<Rightarrow> mux_session" where
  "session_stop_timers ss =
    ss\<lparr>sched := (sched ss)\<lparr>lp_pending := False, w_coalesce := ev_timer_stop (w_coalesce (sched ss))\<rparr>,
       w_timeout := ev_timer_stop (w_timeout ss), w_keepalive := ev_timer_stop (w_keepalive ss),
       w_send_timeout := ev_timer_stop (w_send_timeout ss),
       w_connect_timeout := ev_timer_stop (w_connect_timeout ss),
       w_idle_timeout := ev_timer_stop (w_idle_timeout ss)\<rparr>"

definition session_reset_stream_window_floor :: "mux_session \<Rightarrow> mux_session" where
  "session_reset_stream_window_floor ss =
    (if \<not> auto_stream_window ss then ss
     else session_set_stream_window ss (of_nat
       (max (mux_estimator_rx_window_size (estimator ss) div 2 div MUX_WINDOW_UNIT)
            (MUX_INITIAL_SEND_WINDOW div MUX_WINDOW_UNIT))))"

definition session_stop :: "mux_session \<Rightarrow> mux_session" where
  "session_stop ss =
    session_reset_stream_window_floor
      (session_stop_timers (ss\<lparr>w_socket := ev_io_stop (w_socket ss)\<rparr>))"

text \<open>The transport socket is closed at most once.\<close>

definition close_socket :: "mux_session \<Rightarrow> mux_session" where
  "close_socket ss =
    (if io_fd (w_socket ss) \<noteq> - 1
     then put_out (Out_close_fd (io_fd (w_socket ss))) (ss\<lparr>w_socket := (w_socket ss)\<lparr>io_fd := - 1\<rparr>\<rparr>) else ss)"

definition session_cleanup :: "mux_session \<Rightarrow> mux_session" where
  "session_cleanup ss = mux_unacked_free_all (mux_wire_discard_buffers (close_socket (mux_sched_free_streams ss)))"

definition mux_session_set_state :: "mux_session \<Rightarrow> session_state \<Rightarrow> mux_session" where
  "mux_session_set_state ss newstate =
    (if ss_state ss = newstate then ss
     else let oldstate = ss_state ss;
              ss = ss\<lparr>ss_state := newstate, pub_state := newstate\<rparr> in
     if oldstate = SESSION_ESTABLISHED then
       (let ss = session_reset_stream_window_floor (mux_estimator_suspend (session_stop_timers ss));
            ss = counter_sub num_sessions 1 (counter_add num_session_disconnected 1 ss)
        in session_emit ss MUX_EVENT_LOST)
     else if (oldstate = SESSION_CONNECT \<or> oldstate = SESSION_HANDSHAKE) \<and> newstate \<noteq> SESSION_CONNECT
        \<and> newstate \<noteq> SESSION_HANDSHAKE \<and> newstate \<noteq> SESSION_ESTABLISHED then
       (let ss = counter_sub num_session_halfopen 1 ss
        in if newstate \<noteq> SESSION_SUSPENDED then session_emit ss (session_connect_failed_data ss) else ss)
     else if (newstate = SESSION_CONNECT \<or> newstate = SESSION_HANDSHAKE) \<and> oldstate \<noteq> SESSION_CONNECT
        \<and> oldstate \<noteq> SESSION_HANDSHAKE then
       session_emit (counter_add num_session_halfopen 1 (counter_add num_session_connect 1 ss)) MUX_EVENT_CONNECT
     else if newstate = SESSION_ESTABLISHED then
       (let ss = (if connect_started ss > 0
              then ss\<lparr>last_connect_latency_ns := os_clock_ns (os ss) - connect_started ss, connect_started := 0\<rparr>
              else ss);
            first_establish = (\<not> peer_addr_set ss);
            ss = (if os_getpeer (os ss) then ss\<lparr>peer_addr_set := True\<rparr> else ss);
            ss = ss\<lparr>w_keepalive := ev_timer_again (w_keepalive ss)\<rparr>;
            ss = counter_add num_sessions 1
                   (counter_sub num_session_halfopen 1 (counter_add num_session_connected 1 ss))
        in session_emit ss
             ((if first_establish then MUX_EVENT_ESTABLISHED else MUX_EVENT_RESUMED)
                (last_connect_latency_ns ss) (peer_identity (handshake ss))))
     else ss)"

definition mux_session_reset :: "mux_session \<Rightarrow> mux_session" where
  "mux_session_reset ss =
    (if ss_state ss = SESSION_CLOSED then ss
     else let ss = session_cleanup (session_stop (mux_session_set_state ss SESSION_CLOSED)) in
     if accepted ss then ss
     else ss\<lparr>peer_addr_set := False, num_halfopen := 0,
             handshake := (handshake ss)\<lparr>has_session_id := False\<rparr>\<rparr>)"

definition mux_session_notify_closed :: "mux_session \<Rightarrow> bool \<Rightarrow> mux_session" where
  "mux_session_notify_closed ss expired =
    (let was_closed = (ss_state ss = SESSION_CLOSED);
         ss = mux_session_reset ss
     in if \<not> was_closed \<and> ss_state ss = SESSION_CLOSED
        then session_emit ss (session_closed_data ss expired) else ss)"

definition mux_session_initiate_shutdown :: "mux_session \<Rightarrow> mux_session" where
  "mux_session_initiate_shutdown ss =
    (if ss_state ss \<noteq> SESSION_ESTABLISHED \<and> ss_state ss \<noteq> SESSION_HANDSHAKE
     then mux_session_notify_closed ss False
     else let ss = session_reset_stream_window_floor (session_stop_timers ss);
              ss = mux_unacked_free_all (mux_wire_discard_buffers (mux_sched_free_streams ss));
              ss = mux_session_set_state ss SESSION_CLOSING;
              ss = (if conf_connect_timeout (conf ss) > 0
                    then ss\<lparr>w_connect_timeout := ev_timer_start
                           (ev_timer_set (w_connect_timeout ss) (of_int (conf_connect_timeout (conf ss))) 0)\<rparr>
                    else ss)
          in mux_session_update_watcher (ss\<lparr>wire := (wire ss)\<lparr>tx_pending := True\<rparr>\<rparr>))"

definition mux_session_close :: "mux_session \<Rightarrow> mux_session" where
  "mux_session_close ss =
    (let ss = mux_sched_free_orphans (session_cleanup (session_stop (mux_session_reset ss)));
         ss = ss\<lparr>handshake := (handshake ss)\<lparr>identity := None, peer_identity := None\<rparr>\<rparr>
     in counter_add num_session_finalized 1 ss)"

section \<open>Closing the last stream of a session\<close>

definition mux_sched_check_no_active_streams :: "mux_session \<Rightarrow> mux_session" where
  "mux_sched_check_no_active_streams ss =
    (if table_size ss \<noteq> num_closed (sched ss) then ss
     else if ss_state ss \<noteq> SESSION_ESTABLISHED then ss
     else if draining ss then mux_session_initiate_shutdown ss
     else if \<not> accepted ss \<and> conf_idle_timeout (conf ss) > 0
     then ss\<lparr>w_idle_timeout := ev_timer_again (w_idle_timeout ss)\<rparr>
     else ss)"

definition mux_session_drain :: "mux_session \<Rightarrow> mux_session" where
  "mux_session_drain ss = mux_sched_check_no_active_streams (ss\<lparr>draining := True\<rparr>)"


section \<open>What closing leaves alone\<close>

text \<open>The part of a session the per-stream operations never touch.\<close>

definition core_rest :: "mux_session \<Rightarrow> mux_session" where
  "core_rest ss = ss\<lparr>num_halfopen := 0, send_buffered_frames := 0, recv_buffered_bytes := 0,
     pool := \<lparr>pool_alloc = (\<lambda>_. None), pool_calls = 0, pool_freed = []\<rparr>,
     heap := \<lparr>heap_ok = (\<lambda>_. False), heap_calls = 0\<rparr>, cnt := (\<lambda>_. 0), out := [], sched := zero_sched\<rparr>"

lemma core_restD:
  assumes "core_rest a = core_rest b"
  shows "wire a = wire b" "unacked a = unacked b" "ss_state a = ss_state b" "conf a = conf b"
    "w_socket a = w_socket b" "accepted a = accepted b" "draining a = draining b"
    "handshake a = handshake b" "estimator a = estimator b" "os a = os b" "cb a = cb b"
    "w_timeout a = w_timeout b" "w_keepalive a = w_keepalive b" "w_send_timeout a = w_send_timeout b"
    "w_connect_timeout a = w_connect_timeout b" "w_idle_timeout a = w_idle_timeout b"
    "session_window a = session_window b" "max_payload a = max_payload b"
proof -
  have *: "f a = f b" if "\<And>ss. f (core_rest ss) = f ss" for f :: "mux_session \<Rightarrow> 'x"
    using that [of a] that [of b] assms by simp
  show "wire a = wire b" "unacked a = unacked b" "ss_state a = ss_state b" "conf a = conf b"
    "w_socket a = w_socket b" "accepted a = accepted b" "draining a = draining b"
    "handshake a = handshake b" "estimator a = estimator b" "os a = os b" "cb a = cb b"
    "w_timeout a = w_timeout b" "w_keepalive a = w_keepalive b" "w_send_timeout a = w_send_timeout b"
    "w_connect_timeout a = w_connect_timeout b" "w_idle_timeout a = w_idle_timeout b"
    "session_window a = session_window b" "max_payload a = max_payload b"
    by (rule *, simp add: core_rest_def)+
qed

lemmas [mux_defs] = counter_add_def counter_sub_def put_out_def session_emit_def pool_put_def
  mux_frame_put_def pool_put_all_eq

lemma core_rest_simps [simp]:
  "core_rest (ss\<lparr>num_halfopen := a\<rparr>) = core_rest ss"
  "core_rest (ss\<lparr>send_buffered_frames := a\<rparr>) = core_rest ss"
  "core_rest (ss\<lparr>recv_buffered_bytes := a\<rparr>) = core_rest ss"
  "core_rest (ss\<lparr>pool := pl\<rparr>) = core_rest ss"
  "core_rest (ss\<lparr>heap := hp\<rparr>) = core_rest ss"
  "core_rest (ss\<lparr>sched := sc\<rparr>) = core_rest ss"
  "core_rest (counter_add c n ss) = core_rest ss"
  "core_rest (counter_sub c n ss) = core_rest ss"
  "core_rest (put_out x ss) = core_rest ss"
  "core_rest (pool_put_all fs ss) = core_rest ss"
  "core_rest (put_stm i s ss) = core_rest ss"
  by (simp_all add: core_rest_def mux_defs put_stm_def)

lemma core_rest_stream_ops [simp]:
  "core_rest (fst (mux_sched_delay_remove p)) = core_rest (fst p)"
  "core_rest (fst (stream_stop p)) = core_rest (fst p)"
  "core_rest (fst (stream_release_buffers p)) = core_rest (fst p)"
  "core_rest (fst (stream_set_state st p)) = core_rest (fst p)"
  "core_rest (stream_rst_notify_socket p) = core_rest (fst p)"
  by (simp_all add: mux_sched_delay_remove_def stream_stop_def stream_release_buffers_def
      stream_set_state_def stream_rst_notify_socket_def Let_def case_prod_beta)

lemma core_rest_stream_free [simp]: "core_rest (mux_stream_free p) = core_rest (fst p)"
  by (cases p) (simp add: mux_stream_free_def Let_def case_prod_beta)

lemma core_rest_stream_orphan [simp]: "core_rest (fst (mux_stream_orphan p)) = core_rest (fst p)"
  by (simp add: mux_stream_orphan_def Let_def case_prod_beta)

lemma core_rest_fail_and_free [simp]: "core_rest (fail_and_free_cb s ss) = core_rest ss"
  by (simp add: fail_and_free_cb_def sched_orphan_push_def Let_def case_prod_beta)

section \<open>What closing accounts for\<close>

text \<open>The frames given back to the pool, and the effect on the gauges of releasing one
  stream.\<close>

definition freed :: "mux_session \<Rightarrow> nat multiset" where
  "freed ss = mset (pool_freed (pool ss))"

definition addrs :: "mux_frame list \<Rightarrow> nat multiset" where
  "addrs fs = mset (map f_addr fs)"

lemma freed_simps [simp]:
  "freed (counter_add c n ss) = freed ss" "freed (counter_sub c n ss) = freed ss"
  "freed (put_out x ss) = freed ss" "freed (ss\<lparr>sched := sc\<rparr>) = freed ss"
  "freed (ss\<lparr>num_halfopen := a\<rparr>) = freed ss" "freed (ss\<lparr>send_buffered_frames := a\<rparr>) = freed ss"
  "freed (ss\<lparr>recv_buffered_bytes := a\<rparr>) = freed ss" "freed (ss\<lparr>heap := hp\<rparr>) = freed ss"
  "freed (pool_put_all fs ss) = freed ss + addrs fs"
  by (simp_all add: freed_def addrs_def pool_put_all_eq)

lemma addrs_simps [simp]:
  "addrs [] = {#}" "addrs (f # fs) = add_mset (f_addr f) (addrs fs)" "addrs (fs @ gs) = addrs fs + addrs gs"
  "addrs (rev fs) = addrs fs"
  by (simp_all add: addrs_def flip: rev_map)

text \<open>A closed stream has given up its half-open slot.\<close>

definition stream_settled :: "mux_stream \<Rightarrow> bool" where
  "stream_settled s \<longleftrightarrow> (s_state s = STREAM_CLOSED \<longrightarrow> \<not> s_halfopen_counted s)"

lemma stream_stop_proj [simp]:
  "send_buffered_frames (fst (stream_stop p)) = send_buffered_frames (fst p)"
  "recv_buffered_bytes (fst (stream_stop p)) = recv_buffered_bytes (fst p)"
  "num_halfopen (fst (stream_stop p)) = num_halfopen (fst p)"
  "pool (fst (stream_stop p)) = pool (fst p)" "cnt (fst (stream_stop p)) = cnt (fst p)"
  "orphans (sched (fst (stream_stop p))) = orphans (sched (fst p))"
  "s_send_queue (snd (stream_stop p)) = s_send_queue (snd p)"
  "s_recvbuf (snd (stream_stop p)) = s_recvbuf (snd p)"
  "s_state (snd (stream_stop p)) = s_state (snd p)"
  "s_halfopen_counted (snd (stream_stop p)) = s_halfopen_counted (snd p)"
  "s_is_direct (snd (stream_stop p)) = s_is_direct (snd p)"
  by (simp_all add: stream_stop_def mux_sched_delay_remove_def Let_def case_prod_beta)

lemma stream_detach_user_proj [simp]:
  "s_send_queue (stream_detach_user s) = s_send_queue s"
  "s_recvbuf (stream_detach_user s) = s_recvbuf s"
  "s_is_direct (stream_detach_user s) = s_is_direct s"
  by (simp_all add: stream_detach_user_def split: option.split)

lemma stream_release_buffers_proj [simp]:
  "send_buffered_frames (fst (stream_release_buffers p)) =
    send_buffered_frames (fst p) - length (s_send_queue (snd p))"
  "recv_buffered_bytes (fst (stream_release_buffers p)) =
    recv_buffered_bytes (fst p) - rb_len (s_recvbuf (snd p))"
  "num_halfopen (fst (stream_release_buffers p)) = num_halfopen (fst p)"
  "freed (fst (stream_release_buffers p)) = freed (fst p) + addrs (s_send_queue (snd p))"
  "sched (fst (stream_release_buffers p)) = sched (fst p)"
  "s_send_queue (snd (stream_release_buffers p)) = []"
  "s_state (snd (stream_release_buffers p)) = s_state (snd p)"
  "s_halfopen_counted (snd (stream_release_buffers p)) = s_halfopen_counted (snd p)"
  "s_is_direct (snd (stream_release_buffers p)) = s_is_direct (snd p)"
  by (simp_all add: stream_release_buffers_def Let_def case_prod_beta)

lemma stream_set_state_proj [simp]:
  "send_buffered_frames (fst (stream_set_state st p)) = send_buffered_frames (fst p)"
  "recv_buffered_bytes (fst (stream_set_state st p)) = recv_buffered_bytes (fst p)"
  "pool (fst (stream_set_state st p)) = pool (fst p)" "sched (fst (stream_set_state st p)) = sched (fst p)"
  "s_send_queue (snd (stream_set_state st p)) = s_send_queue (snd p)"
  "s_state (snd (stream_set_state st p)) = st"
  "s_is_direct (snd (stream_set_state st p)) = s_is_direct (snd p)"
  by (simp_all add: stream_set_state_def Let_def case_prod_beta)

lemma stream_set_closed_halfopen [simp]:
  "num_halfopen (fst (stream_set_state STREAM_CLOSED p)) = num_halfopen (fst p) - of_bool (s_halfopen_counted (snd p))"
  by (simp add: stream_set_state_def Let_def case_prod_beta)

lemma stream_rst_notify_socket_proj [simp]:
  "send_buffered_frames (stream_rst_notify_socket p) = send_buffered_frames (fst p)"
  "recv_buffered_bytes (stream_rst_notify_socket p) = recv_buffered_bytes (fst p)"
  "num_halfopen (stream_rst_notify_socket p) = num_halfopen (fst p)"
  "pool (stream_rst_notify_socket p) = pool (fst p)" "sched (stream_rst_notify_socket p) = sched (fst p)"
  by (simp_all add: stream_rst_notify_socket_def case_prod_beta)

lemma freed_stream_ops [simp]:
  "freed (fst (stream_stop p)) = freed (fst p)" "freed (fst (stream_set_state st p)) = freed (fst p)"
  "freed (stream_rst_notify_socket p) = freed (fst p)"
  by (simp_all add: freed_def)

lemma mux_stream_free_account:
  "send_buffered_frames (mux_stream_free p) = send_buffered_frames (fst p) - length (s_send_queue (snd p))"
  "recv_buffered_bytes (mux_stream_free p) = recv_buffered_bytes (fst p) - rb_len (s_recvbuf (snd p))"
  "num_halfopen (mux_stream_free p) = num_halfopen (fst p) - of_bool (s_halfopen_counted (snd p))"
  "freed (mux_stream_free p) = freed (fst p) + addrs (s_send_queue (snd p))"
  "orphans (sched (mux_stream_free p)) = orphans (sched (fst p))"
  by (simp_all add: mux_stream_free_def Let_def case_prod_beta)

lemma mux_stream_orphan_account:
  "send_buffered_frames (fst (mux_stream_orphan p)) = send_buffered_frames (fst p) - length (s_send_queue (snd p))"
  "recv_buffered_bytes (fst (mux_stream_orphan p)) = recv_buffered_bytes (fst p) - rb_len (s_recvbuf (snd p))"
  "stream_settled (snd p) \<Longrightarrow>
    num_halfopen (fst (mux_stream_orphan p)) = num_halfopen (fst p) - of_bool (s_halfopen_counted (snd p))"
  "freed (fst (mux_stream_orphan p)) = freed (fst p) + addrs (s_send_queue (snd p))"
  "orphans (sched (fst (mux_stream_orphan p))) = orphans (sched (fst p))"
  "s_send_queue (snd (mux_stream_orphan p)) = []" "s_orphaned (snd (mux_stream_orphan p))"
  "s_state (snd (mux_stream_orphan p)) = STREAM_CLOSED"
  by (simp_all add: mux_stream_orphan_def Let_def case_prod_beta stream_settled_def)

lemma fail_and_free_account:
  "send_buffered_frames (fail_and_free_cb s ss) = send_buffered_frames ss - length (s_send_queue s)"
  "recv_buffered_bytes (fail_and_free_cb s ss) = recv_buffered_bytes ss - rb_len (s_recvbuf s)"
  "stream_settled s \<Longrightarrow> num_halfopen (fail_and_free_cb s ss) = num_halfopen ss - of_bool (s_halfopen_counted s)"
  "freed (fail_and_free_cb s ss) = freed ss + addrs (s_send_queue s)"
  by (simp_all add: fail_and_free_cb_def Let_def case_prod_beta sched_orphan_push_def
      mux_stream_free_account mux_stream_orphan_account)


section \<open>Releasing everything\<close>

definition queued :: "(u16 \<times> mux_stream) list \<Rightarrow> mux_frame list" where
  "queued t = concat (map (s_send_queue \<circ> snd) t)"

lemma queued_simps [simp]: "queued [] = []" "queued (p # t) = s_send_queue (snd p) @ queued t"
  by (simp_all add: queued_def)

text \<open>The frame objects the session owns through its table, its send queues and the
  retransmit log.\<close>

definition held :: "mux_session \<Rightarrow> nat multiset" where
  "held ss = addrs (sendbuf (wire ss)) + addrs (oobbuf (wire ss)) + addrs (dgrambuf (wire ss))
    + addrs (ring_items (u_ring (unacked ss))) + addrs (queued (tab ss))"

text \<open>The session's gauges are the totals over its streams.\<close>

definition gauges_ok :: "mux_session \<Rightarrow> bool" where
  "gauges_ok ss \<longleftrightarrow>
    send_buffered_frames ss = length (queued (tab ss))
    \<and> recv_buffered_bytes ss = sum_list (map (rb_len \<circ> s_recvbuf \<circ> snd) (tab ss))
    \<and> num_halfopen ss = length (filter (s_halfopen_counted \<circ> snd) (tab ss))
    \<and> list_all (stream_settled \<circ> snd) (tab ss)"

lemma fold_fail_and_free:
  fixes t :: "(u16 \<times> mux_stream) list"
  defines "run \<equiv> fold (\<lambda>(i, s). fail_and_free_cb s)"
  shows "core_rest (run t ss) = core_rest ss"
    "send_buffered_frames (run t ss) = send_buffered_frames ss - length (queued t)"
    "recv_buffered_bytes (run t ss) = recv_buffered_bytes ss - sum_list (map (rb_len \<circ> s_recvbuf \<circ> snd) t)"
    "list_all (stream_settled \<circ> snd) t \<Longrightarrow>
      num_halfopen (run t ss) = num_halfopen ss - length (filter (s_halfopen_counted \<circ> snd) t)"
    "freed (run t ss) = freed ss + addrs (queued t)"
  unfolding run_def
  by (induction t arbitrary: ss) (auto simp: fail_and_free_account)

text \<open>The queues and the table itself, which releasing a stream does not touch.\<close>

definition sched_core :: "sched_ctx \<Rightarrow> sched_ctx" where
  "sched_core sc = sc\<lparr>delay_list := [], drr_active := None, orphans := []\<rparr>"

lemma sched_core_stream_ops [simp]:
  "sched_core (sched (fst (stream_stop p))) = sched_core (sched (fst p))"
  by (simp add: stream_stop_def mux_sched_delay_remove_def Let_def case_prod_beta sched_core_def)

lemma sched_core_stream_free [simp]: "sched_core (sched (mux_stream_free p)) = sched_core (sched (fst p))"
  by (simp add: mux_stream_free_def Let_def case_prod_beta)

lemma sched_core_stream_orphan [simp]:
  "sched_core (sched (fst (mux_stream_orphan p))) = sched_core (sched (fst p))"
  by (simp add: mux_stream_orphan_def Let_def case_prod_beta)

lemma sched_core_fail_and_free [simp]: "sched_core (sched (fail_and_free_cb s ss)) = sched_core (sched ss)"
proof -
  have "sched_core (sc\<lparr>orphans := x\<rparr>) = sched_core sc" for sc x
    by (simp add: sched_core_def)
  then show ?thesis
    by (simp add: fail_and_free_cb_def sched_orphan_push_def Let_def case_prod_beta)
qed

lemma sched_coreD:
  "sched_core a = sched_core b \<Longrightarrow> streams a = streams b \<and> sched_fifo a = sched_fifo b \<and> lp_fifo a = lp_fifo b
    \<and> w_coalesce a = w_coalesce b"
  by (cases a; cases b) (simp add: sched_core_def)

lemma fold_fail_and_free_streams:
  fixes t :: "(u16 \<times> mux_stream) list" and ss :: mux_session
  defines "r \<equiv> fold (\<lambda>(i, s). fail_and_free_cb s) t ss"
  shows "streams (sched r) = streams (sched ss)" "sched_fifo (sched r) = sched_fifo (sched ss)"
    "lp_fifo (sched r) = lp_fifo (sched ss)" "w_coalesce (sched r) = w_coalesce (sched ss)"
proof -
  have "sched_core (sched r) = sched_core (sched ss)"
    unfolding r_def by (induction t arbitrary: ss) (auto simp: case_prod_beta)
  then show "streams (sched r) = streams (sched ss)" "sched_fifo (sched r) = sched_fifo (sched ss)"
    "lp_fifo (sched r) = lp_fifo (sched ss)" "w_coalesce (sched r) = w_coalesce (sched ss)"
    by (auto dest: sched_coreD)
qed

lemma clear_delays_rec [simp]:
  "clear_delays dl [] = []"
  "clear_delays dl (p # t) =
    (fst p, if fst p \<in> set dl then (snd p)\<lparr>s_delay_pending := False\<rparr> else snd p) # clear_delays dl t"
  by (simp_all add: clear_delays_def case_prod_beta)

lemma clear_delays_simps [simp]:
  "queued (clear_delays dl t) = queued t"
  "map (rb_len \<circ> s_recvbuf \<circ> snd) (clear_delays dl t) = map (rb_len \<circ> s_recvbuf \<circ> snd) t"
  "length (filter (s_halfopen_counted \<circ> snd) (clear_delays dl t)) = length (filter (s_halfopen_counted \<circ> snd) t)"
  "list_all (stream_settled \<circ> snd) (clear_delays dl t) = list_all (stream_settled \<circ> snd) t"
  by (induction t) (simp_all add: stream_settled_def)

lemma tab_streams: "streams (sched ss) = None \<Longrightarrow> tab ss = []"
  by (simp add: tab_def)

lemma free_streams_core [simp]:
  "core_rest (mux_sched_free_streams ss) = core_rest ss"
  "streams (sched (mux_sched_free_streams ss)) = None"
  "tab (mux_sched_free_streams ss) = []"
  "sched_fifo (sched (mux_sched_free_streams ss)) = []"
  "lp_fifo (sched (mux_sched_free_streams ss)) = []"
  "w_coalesce (sched (mux_sched_free_streams ss)) = w_coalesce (sched ss)"
  by (simp_all add: mux_sched_free_streams_def Let_def fold_fail_and_free fold_fail_and_free_streams tab_def)

lemma free_streams_account:
  "send_buffered_frames (mux_sched_free_streams ss) = send_buffered_frames ss - length (queued (tab ss))"
  "recv_buffered_bytes (mux_sched_free_streams ss) =
    recv_buffered_bytes ss - sum_list (map (rb_len \<circ> s_recvbuf \<circ> snd) (tab ss))"
  "list_all (stream_settled \<circ> snd) (tab ss) \<Longrightarrow> num_halfopen (mux_sched_free_streams ss) =
    num_halfopen ss - length (filter (s_halfopen_counted \<circ> snd) (tab ss))"
  "freed (mux_sched_free_streams ss) = freed ss + addrs (queued (tab ss))"
  by (auto simp: mux_sched_free_streams_def Let_def fold_fail_and_free tab_streams)

lemma unacked_free_all_proj [simp]:
  "conf (mux_unacked_free_all ss) = conf ss" "heap (mux_unacked_free_all ss) = heap ss"
  "os (mux_unacked_free_all ss) = os ss" "cb (mux_unacked_free_all ss) = cb ss"
  "max_payload (mux_unacked_free_all ss) = max_payload ss"
  "readahead (mux_unacked_free_all ss) = readahead ss"
  "num_halfopen (mux_unacked_free_all ss) = num_halfopen ss"
  "recv_buffered_bytes (mux_unacked_free_all ss) = recv_buffered_bytes ss"
  "send_buffered_frames (mux_unacked_free_all ss) = send_buffered_frames ss"
  "last_connect_latency_ns (mux_unacked_free_all ss) = last_connect_latency_ns ss"
  "bytes_recv (mux_unacked_free_all ss) = bytes_recv ss"
  "ping_recv_last_ns (mux_unacked_free_all ss) = ping_recv_last_ns ss"
  "ss_state (mux_unacked_free_all ss) = ss_state ss"
  "last_modified (mux_unacked_free_all ss) = last_modified ss"
  "peer_addr_set (mux_unacked_free_all ss) = peer_addr_set ss"
  "w_socket (mux_unacked_free_all ss) = w_socket ss"
  "w_timeout (mux_unacked_free_all ss) = w_timeout ss"
  "w_keepalive (mux_unacked_free_all ss) = w_keepalive ss"
  "w_send_timeout (mux_unacked_free_all ss) = w_send_timeout ss"
  "w_connect_timeout (mux_unacked_free_all ss) = w_connect_timeout ss"
  "w_idle_timeout (mux_unacked_free_all ss) = w_idle_timeout ss"
  "accepted (mux_unacked_free_all ss) = accepted ss"
  "auto_stream_window (mux_unacked_free_all ss) = auto_stream_window ss"
  "auto_session_window (mux_unacked_free_all ss) = auto_session_window ss"
  "draining (mux_unacked_free_all ss) = draining ss"
  "session_window (mux_unacked_free_all ss) = session_window ss"
  "stream_window (mux_unacked_free_all ss) = stream_window ss"
  "peer_stream_window (mux_unacked_free_all ss) = peer_stream_window ss"
  "wire (mux_unacked_free_all ss) = wire ss" "sched (mux_unacked_free_all ss) = sched ss"
  "handshake (mux_unacked_free_all ss) = handshake ss"
  "estimator (mux_unacked_free_all ss) = estimator ss"
  "connect_started (mux_unacked_free_all ss) = connect_started ss"
  "suspended_at (mux_unacked_free_all ss) = suspended_at ss" "out (mux_unacked_free_all ss) = out ss"
  by (simp_all add: mux_unacked_free_all_def Let_def case_prod_beta)

lemma unacked_free_all_facts:
  assumes "ring_inv (u_ring (unacked ss))"
  shows "freed (mux_unacked_free_all ss) = freed ss + addrs (ring_items (u_ring (unacked ss)))"
    "u_ring (unacked (mux_unacked_free_all ss)) = None"
  using ring_free_refines [OF assms]
  by (simp_all add: mux_unacked_free_all_def Let_def freed_def addrs_def unacked_set_replay_off_def)

lemma wire_discard_proj [simp]:
  "conf (mux_wire_discard_buffers ss) = conf ss" "heap (mux_wire_discard_buffers ss) = heap ss"
  "os (mux_wire_discard_buffers ss) = os ss" "cb (mux_wire_discard_buffers ss) = cb ss"
  "max_payload (mux_wire_discard_buffers ss) = max_payload ss"
  "readahead (mux_wire_discard_buffers ss) = readahead ss" "cnt (mux_wire_discard_buffers ss) = cnt ss"
  "num_halfopen (mux_wire_discard_buffers ss) = num_halfopen ss"
  "recv_buffered_bytes (mux_wire_discard_buffers ss) = recv_buffered_bytes ss"
  "send_buffered_frames (mux_wire_discard_buffers ss) = send_buffered_frames ss"
  "last_connect_latency_ns (mux_wire_discard_buffers ss) = last_connect_latency_ns ss"
  "bytes_recv (mux_wire_discard_buffers ss) = bytes_recv ss"
  "ping_recv_last_ns (mux_wire_discard_buffers ss) = ping_recv_last_ns ss"
  "ss_state (mux_wire_discard_buffers ss) = ss_state ss"
  "last_modified (mux_wire_discard_buffers ss) = last_modified ss"
  "peer_addr_set (mux_wire_discard_buffers ss) = peer_addr_set ss"
  "w_socket (mux_wire_discard_buffers ss) = w_socket ss"
  "w_timeout (mux_wire_discard_buffers ss) = w_timeout ss"
  "w_keepalive (mux_wire_discard_buffers ss) = w_keepalive ss"
  "w_send_timeout (mux_wire_discard_buffers ss) = w_send_timeout ss"
  "w_connect_timeout (mux_wire_discard_buffers ss) = w_connect_timeout ss"
  "w_idle_timeout (mux_wire_discard_buffers ss) = w_idle_timeout ss"
  "accepted (mux_wire_discard_buffers ss) = accepted ss"
  "auto_stream_window (mux_wire_discard_buffers ss) = auto_stream_window ss"
  "auto_session_window (mux_wire_discard_buffers ss) = auto_session_window ss"
  "draining (mux_wire_discard_buffers ss) = draining ss"
  "session_window (mux_wire_discard_buffers ss) = session_window ss"
  "stream_window (mux_wire_discard_buffers ss) = stream_window ss"
  "peer_stream_window (mux_wire_discard_buffers ss) = peer_stream_window ss"
  "sched (mux_wire_discard_buffers ss) = sched ss" "unacked (mux_wire_discard_buffers ss) = unacked ss"
  "handshake (mux_wire_discard_buffers ss) = handshake ss"
  "estimator (mux_wire_discard_buffers ss) = estimator ss"
  "connect_started (mux_wire_discard_buffers ss) = connect_started ss"
  "suspended_at (mux_wire_discard_buffers ss) = suspended_at ss"
  "out (mux_wire_discard_buffers ss) = out ss"
  "sendbuf (wire (mux_wire_discard_buffers ss)) = []" "oobbuf (wire (mux_wire_discard_buffers ss)) = []"
  "dgrambuf (wire (mux_wire_discard_buffers ss)) = []"
  by (simp_all add: mux_wire_discard_buffers_def Let_def)

lemma wire_discard_freed:
  "freed (mux_wire_discard_buffers ss) =
    freed ss + addrs (sendbuf (wire ss)) + addrs (oobbuf (wire ss)) + addrs (dgrambuf (wire ss))"
  by (simp add: mux_wire_discard_buffers_def Let_def freed_def addrs_def mux_defs)

lemma tab_upd [simp]:
  "tab (ss\<lparr>sched := (sched ss)\<lparr>lp_pending := b, w_coalesce := w\<rparr>\<rparr>) = tab ss"
  by (simp add: tab_def)

lemma stream_window_floor_proj [simp]:
  "pool (session_reset_stream_window_floor ss) = pool ss" "heap (session_reset_stream_window_floor ss) = heap ss"
  "wire (session_reset_stream_window_floor ss) = wire ss"
  "unacked (session_reset_stream_window_floor ss) = unacked ss"
  "sched (session_reset_stream_window_floor ss) = sched ss"
  "send_buffered_frames (session_reset_stream_window_floor ss) = send_buffered_frames ss"
  "recv_buffered_bytes (session_reset_stream_window_floor ss) = recv_buffered_bytes ss"
  "num_halfopen (session_reset_stream_window_floor ss) = num_halfopen ss"
  "ss_state (session_reset_stream_window_floor ss) = ss_state ss"
  "w_socket (session_reset_stream_window_floor ss) = w_socket ss"
  "accepted (session_reset_stream_window_floor ss) = accepted ss"
  "handshake (session_reset_stream_window_floor ss) = handshake ss"
  "w_timeout (session_reset_stream_window_floor ss) = w_timeout ss"
  "w_keepalive (session_reset_stream_window_floor ss) = w_keepalive ss"
  "w_send_timeout (session_reset_stream_window_floor ss) = w_send_timeout ss"
  "w_connect_timeout (session_reset_stream_window_floor ss) = w_connect_timeout ss"
  "w_idle_timeout (session_reset_stream_window_floor ss) = w_idle_timeout ss"
  by (simp_all add: session_reset_stream_window_floor_def session_set_stream_window_def)

definition timers_off :: "mux_session \<Rightarrow> bool" where
  "timers_off ss \<longleftrightarrow> \<not> t_active (w_timeout ss) \<and> \<not> t_active (w_keepalive ss)
    \<and> \<not> t_active (w_send_timeout ss) \<and> \<not> t_active (w_connect_timeout ss)
    \<and> \<not> t_active (w_idle_timeout ss) \<and> \<not> t_active (w_coalesce (sched ss))"

lemma session_stop_facts [simp]:
  "pool (session_stop ss) = pool ss" "wire (session_stop ss) = wire ss" "unacked (session_stop ss) = unacked ss"
  "tab (session_stop ss) = tab ss" "ss_state (session_stop ss) = ss_state ss"
  "send_buffered_frames (session_stop ss) = send_buffered_frames ss"
  "recv_buffered_bytes (session_stop ss) = recv_buffered_bytes ss"
  "num_halfopen (session_stop ss) = num_halfopen ss" "accepted (session_stop ss) = accepted ss"
  "io_fd (w_socket (session_stop ss)) = io_fd (w_socket ss)" "\<not> io_active (w_socket (session_stop ss))"
  "timers_off (session_stop ss)"
  by (simp_all add: session_stop_def session_stop_timers_def ev_io_stop_def ev_timer_stop_def timers_off_def
      tab_def)

lemma set_state_facts [simp]:
  "pool (mux_session_set_state ss st) = pool ss" "wire (mux_session_set_state ss st) = wire ss"
  "unacked (mux_session_set_state ss st) = unacked ss" "tab (mux_session_set_state ss st) = tab ss"
  "ss_state (mux_session_set_state ss st) = st"
  "send_buffered_frames (mux_session_set_state ss st) = send_buffered_frames ss"
  "recv_buffered_bytes (mux_session_set_state ss st) = recv_buffered_bytes ss"
  "num_halfopen (mux_session_set_state ss st) = num_halfopen ss"
  "accepted (mux_session_set_state ss st) = accepted ss"
  "w_socket (mux_session_set_state ss st) = w_socket ss"
  by (simp_all add: mux_session_set_state_def Let_def session_stop_timers_def mux_estimator_suspend_def tab_def)

lemma close_socket_proj [simp]:
  "conf (close_socket ss) = conf ss" "pool (close_socket ss) = pool ss"
  "heap (close_socket ss) = heap ss" "os (close_socket ss) = os ss" "cb (close_socket ss) = cb ss"
  "max_payload (close_socket ss) = max_payload ss" "readahead (close_socket ss) = readahead ss"
  "cnt (close_socket ss) = cnt ss" "num_halfopen (close_socket ss) = num_halfopen ss"
  "recv_buffered_bytes (close_socket ss) = recv_buffered_bytes ss"
  "send_buffered_frames (close_socket ss) = send_buffered_frames ss"
  "last_connect_latency_ns (close_socket ss) = last_connect_latency_ns ss"
  "bytes_recv (close_socket ss) = bytes_recv ss"
  "ping_recv_last_ns (close_socket ss) = ping_recv_last_ns ss"
  "ss_state (close_socket ss) = ss_state ss" "last_modified (close_socket ss) = last_modified ss"
  "peer_addr_set (close_socket ss) = peer_addr_set ss" "w_timeout (close_socket ss) = w_timeout ss"
  "w_keepalive (close_socket ss) = w_keepalive ss"
  "w_send_timeout (close_socket ss) = w_send_timeout ss"
  "w_connect_timeout (close_socket ss) = w_connect_timeout ss"
  "w_idle_timeout (close_socket ss) = w_idle_timeout ss" "accepted (close_socket ss) = accepted ss"
  "auto_stream_window (close_socket ss) = auto_stream_window ss"
  "auto_session_window (close_socket ss) = auto_session_window ss"
  "draining (close_socket ss) = draining ss" "session_window (close_socket ss) = session_window ss"
  "stream_window (close_socket ss) = stream_window ss"
  "peer_stream_window (close_socket ss) = peer_stream_window ss" "wire (close_socket ss) = wire ss"
  "sched (close_socket ss) = sched ss" "unacked (close_socket ss) = unacked ss"
  "handshake (close_socket ss) = handshake ss" "estimator (close_socket ss) = estimator ss"
  "connect_started (close_socket ss) = connect_started ss"
  "suspended_at (close_socket ss) = suspended_at ss"
  "io_fd (w_socket (close_socket ss)) = - 1" "io_active (w_socket (close_socket ss)) = io_active (w_socket ss)"
  by (simp_all add: close_socket_def put_out_def)

lemma session_cleanup_facts:
  assumes "ring_inv (u_ring (unacked ss))"
  defines "r \<equiv> session_cleanup ss"
  shows "freed r = freed ss + held ss" "held r = {#}" "streams (sched r) = None"
    "ss_state r = ss_state ss" "accepted r = accepted ss"
    "io_fd (w_socket r) = - 1" "io_active (w_socket r) = io_active (w_socket ss)"
    "send_buffered_frames r = send_buffered_frames ss - length (queued (tab ss))"
    "recv_buffered_bytes r = recv_buffered_bytes ss - sum_list (map (rb_len \<circ> s_recvbuf \<circ> snd) (tab ss))"
    "list_all (stream_settled \<circ> snd) (tab ss) \<Longrightarrow>
      num_halfopen r = num_halfopen ss - length (filter (s_halfopen_counted \<circ> snd) (tab ss))"
    "timers_off r = timers_off ss"
proof -
  note a = core_restD [OF free_streams_core(1), of ss]
  let ?c = "close_socket (mux_sched_free_streams ss)"
  have r: "ring_inv (u_ring (unacked (mux_wire_discard_buffers ?c)))"
    using assms(1) by (simp add: a)
  note u = unacked_free_all_facts [OF r]
  have c: "freed ?c = freed ss + addrs (queued (tab ss))"
    by (simp add: freed_def) (simp add: freed_def [symmetric] free_streams_account)
  show "freed r = freed ss + held ss"
    by (simp add: r_def session_cleanup_def u wire_discard_freed c held_def a)
  show "held r = {#}"
    by (simp add: r_def session_cleanup_def held_def u tab_def a)
  show "num_halfopen r = num_halfopen ss - length (filter (s_halfopen_counted \<circ> snd) (tab ss))"
    if "list_all (stream_settled \<circ> snd) (tab ss)"
    using that by (simp add: r_def session_cleanup_def free_streams_account)
qed (simp_all add: r_def session_cleanup_def free_streams_account timers_off_def
    core_restD [OF free_streams_core(1)])

text \<open>Everything a live session owns is gone: no stream, no queued frame, no retransmit
  log, no armed timer, no socket.\<close>

definition torn_down :: "mux_session \<Rightarrow> bool" where
  "torn_down ss \<longleftrightarrow> ss_state ss = SESSION_CLOSED \<and> streams (sched ss) = None \<and> held ss = {#}
    \<and> io_fd (w_socket ss) = - 1 \<and> \<not> io_active (w_socket ss) \<and> timers_off ss
    \<and> send_buffered_frames ss = 0 \<and> recv_buffered_bytes ss = 0 \<and> num_halfopen ss = 0"

lemma held_set_state [simp]: "held (mux_session_set_state ss st) = held ss"
  by (simp add: held_def)

lemma held_session_stop [simp]: "held (session_stop ss) = held ss"
  by (simp add: held_def)

lemma freed_set_state [simp]:
  "freed (mux_session_set_state ss st) = freed ss" "freed (session_stop ss) = freed ss"
  by (simp_all add: freed_def)

lemma reset_facts:
  assumes "ring_inv (u_ring (unacked ss))" "gauges_ok ss" "ss_state ss \<noteq> SESSION_CLOSED"
  shows "torn_down (mux_session_reset ss)" "freed (mux_session_reset ss) = freed ss + held ss"
proof -
  define r where "r = session_stop (mux_session_set_state ss SESSION_CLOSED)"
  have r: "ring_inv (u_ring (unacked r))" "list_all (stream_settled \<circ> snd) (tab r)"
    using assms by (simp_all add: r_def gauges_ok_def)
  note f = session_cleanup_facts(1-9,11) [OF r(1)] session_cleanup_facts(10) [OF r]
  have td: "torn_down (session_cleanup r)"
    using assms(2) by (simp add: torn_down_def f) (simp add: r_def gauges_ok_def)
  have fr: "freed (session_cleanup r) = freed ss + held ss"
    by (simp add: f) (simp add: r_def)
  have e: "mux_session_reset ss = (if accepted ss then session_cleanup r
      else (session_cleanup r)\<lparr>peer_addr_set := False, num_halfopen := 0,
        handshake := (handshake (session_cleanup r))\<lparr>has_session_id := False\<rparr>\<rparr>)"
    using assms(3) by (simp add: mux_session_reset_def r_def f(5) Let_def)
      (simp add: f(5) [unfolded r_def])
  show "torn_down (mux_session_reset ss)"
    using td by (simp add: e torn_down_def held_def tab_def timers_off_def)
  show "freed (mux_session_reset ss) = freed ss + held ss"
    using fr by (simp add: e freed_def)
qed

section \<open>What becomes of sockets and of the streams the application holds\<close>

text \<open>The sockets closed so far, in order.\<close>

definition closed_fds :: "mux_session \<Rightarrow> int list" where
  "closed_fds ss = concat (map (\<lambda>x. case x of Out_close_fd fd \<Rightarrow> [fd] | _ \<Rightarrow> []) (rev (out ss)))"

text \<open>The sockets of the streams of a table that are freed, and the streams the application still
  holds.\<close>

definition stream_fds :: "(u16 \<times> mux_stream) list \<Rightarrow> int list" where
  "stream_fds t = concat (map (\<lambda>(i, s). if mux_stream_app_held s \<or> s_is_direct s \<or> io_fd (s_io s) = - 1 then []
    else [io_fd (s_io s)]) t)"

definition app_streams :: "(u16 \<times> mux_stream) list \<Rightarrow> mux_stream list" where
  "app_streams t = filter mux_stream_app_held (map snd t)"

text \<open>An orphan that waits for its owner only: closed, without data, timers or a place in a queue.\<close>

definition quiet_orphan :: "mux_stream \<Rightarrow> bool" where
  "quiet_orphan s \<longleftrightarrow> s_orphaned s \<and> s_state s = STREAM_CLOSED \<and> s_send_queue s = [] \<and> rb_len (s_recvbuf s) = 0
    \<and> s_sched_queue s = SCHED_QUEUE_NONE \<and> \<not> s_delay_pending s \<and> \<not> t_active (s_tombstone s)
    \<and> (\<not> s_is_direct s \<longrightarrow> \<not> io_active (s_io s) \<and> \<not> t_active (s_timeout s))"

lemma closed_fds_simps [simp]:
  "closed_fds (put_out x ss) = closed_fds ss @ (case x of Out_close_fd fd \<Rightarrow> [fd] | _ \<Rightarrow> [])"
  "closed_fds (ss\<lparr>sched := sc\<rparr>) = closed_fds ss" "closed_fds (counter_add c n ss) = closed_fds ss"
  "closed_fds (counter_sub c n ss) = closed_fds ss" "closed_fds (ss\<lparr>num_halfopen := a\<rparr>) = closed_fds ss"
  "closed_fds (ss\<lparr>send_buffered_frames := a\<rparr>) = closed_fds ss"
  "closed_fds (ss\<lparr>recv_buffered_bytes := a\<rparr>) = closed_fds ss" "closed_fds (ss\<lparr>heap := hp\<rparr>) = closed_fds ss"
  "closed_fds (pool_put_all fs ss) = closed_fds ss" "closed_fds (mux_unacked_free_all ss) = closed_fds ss"
  "closed_fds (mux_wire_discard_buffers ss) = closed_fds ss"
  by (simp_all add: closed_fds_def put_out_def counter_add_def counter_sub_def pool_put_all_eq)

lemma closed_fds_stream_ops [simp]:
  "closed_fds (fst (stream_stop p)) = closed_fds (fst p)"
  "closed_fds (fst (stream_release_buffers p)) = closed_fds (fst p)"
  "closed_fds (fst (stream_set_state st p)) = closed_fds (fst p)"
  "closed_fds (stream_rst_notify_socket p) = closed_fds (fst p)"
  by (simp_all add: stream_stop_def mux_sched_delay_remove_def stream_release_buffers_def stream_set_state_def
      stream_rst_notify_socket_def Let_def case_prod_beta)

lemma stream_stop_io [simp]: "io_fd (s_io (snd (stream_stop p))) = io_fd (s_io (snd p))"
  by (simp add: stream_stop_def mux_sched_delay_remove_def ev_io_stop_def Let_def case_prod_beta)

lemma detach_user_io [simp]: "s_io (stream_detach_user s) = s_io s"
  by (simp add: stream_detach_user_def split: option.split)

lemma closed_fds_free:
  "closed_fds (mux_stream_free p) = closed_fds (fst p)
    @ (if s_is_direct (snd p) \<or> io_fd (s_io (snd p)) = - 1 then [] else [io_fd (s_io (snd p))])"
  by (simp add: mux_stream_free_def Let_def case_prod_beta)

lemma closed_fds_orphan: "closed_fds (fst (mux_stream_orphan p)) = closed_fds (fst p)"
  by (simp add: mux_stream_orphan_def Let_def case_prod_beta)

lemma orphan_quiet:
  "quiet_orphan (snd (mux_stream_orphan p))" "s_id (snd (mux_stream_orphan p)) = s_id (snd p)"
proof -
  define s where "s = snd (stream_stop p)"
  have "\<not> t_active (s_tombstone s)" "\<not> s_delay_pending s" "s_id s = s_id (snd p)"
    "\<not> s_is_direct s \<longrightarrow> \<not> io_active (s_io s) \<and> \<not> t_active (s_timeout s)"
    by (simp_all add: s_def stream_stop_def mux_sched_delay_remove_def ev_io_stop_def ev_timer_stop_def
        Let_def case_prod_beta split: if_split)
  moreover have "rb_len (fst (mux_bytebuf_shrink h (bytebuf_reset rb) 0)) = 0" for h rb
    by (simp add: mux_bytebuf_shrink_def bytebuf_reset_def bytebuf_compact_def Let_def case_prod_beta)
  ultimately show "quiet_orphan (snd (mux_stream_orphan p))" "s_id (snd (mux_stream_orphan p)) = s_id (snd p)"
    by (auto simp: quiet_orphan_def mux_stream_orphan_def stream_release_buffers_def stream_set_state_def Let_def
        case_prod_beta s_def [symmetric])
qed

lemma fail_and_free_ends:
  "closed_fds (fail_and_free_cb s ss) = closed_fds ss @ stream_fds [(0, s)]"
  "mux_stream_app_held s \<Longrightarrow> \<exists>x. orphans (sched (fail_and_free_cb s ss)) = x # orphans (sched ss)
      \<and> s_id x = s_id s \<and> quiet_orphan x"
  "\<not> mux_stream_app_held s \<Longrightarrow> orphans (sched (fail_and_free_cb s ss)) = orphans (sched ss)"
  using orphan_quiet
  by (auto simp: fail_and_free_cb_def sched_orphan_push_def stream_fds_def closed_fds_free closed_fds_orphan
      mux_stream_free_account mux_stream_orphan_account Let_def case_prod_beta)

text \<open>Freeing a table: what is closed and what becomes an orphan.\<close>

definition orphaned_from :: "mux_stream list \<Rightarrow> mux_stream list \<Rightarrow> mux_stream list \<Rightarrow> bool" where
  "orphaned_from xs0 old new \<longleftrightarrow>
    (\<exists>xs. new = xs @ old \<and> map s_id xs = rev (map s_id xs0) \<and> list_all quiet_orphan xs)"

lemma fold_fail_and_free_ends:
  fixes t :: "(u16 \<times> mux_stream) list"
  defines "run \<equiv> fold (\<lambda>(i, s). fail_and_free_cb s)"
  shows "closed_fds (run t ss) = closed_fds ss @ stream_fds t"
    "orphaned_from (app_streams t) (orphans (sched ss)) (orphans (sched (run t ss)))"
proof -
  show "closed_fds (run t ss) = closed_fds ss @ stream_fds t"
    unfolding run_def by (induction t arbitrary: ss) (auto simp: fail_and_free_ends(1) stream_fds_def)
  show "orphaned_from (app_streams t) (orphans (sched ss)) (orphans (sched (run t ss)))"
    unfolding run_def
  proof (induction t arbitrary: ss)
    case (Cons p t)
    obtain i s where p: "p = (i, s)"
      by fastforce
    define a where "a = fail_and_free_cb s ss"
    note IH = Cons.IH [of a, unfolded orphaned_from_def]
    show ?case
    proof (cases "mux_stream_app_held s")
      case True
      then obtain x where "orphans (sched a) = x # orphans (sched ss)" "s_id x = s_id s" "quiet_orphan x"
        using fail_and_free_ends(2) unfolding a_def by blast
      moreover obtain xs where "orphans (sched (fold (\<lambda>(i, s). fail_and_free_cb s) t a)) = xs @ orphans (sched a)"
        "map s_id xs = rev (map s_id (app_streams t))" "list_all quiet_orphan xs"
        using IH by blast
      ultimately show ?thesis
        using True unfolding orphaned_from_def
        by (intro exI [of _ "xs @ [x]"]) (simp add: p a_def app_streams_def)
    next
      case False
      then show ?thesis
        using IH fail_and_free_ends(3) [OF False, of ss] by (simp add: orphaned_from_def p a_def app_streams_def)
    qed
  qed (simp add: orphaned_from_def app_streams_def)
qed

lemma clear_delays_ends [simp]:
  "stream_fds (clear_delays dl t) = stream_fds t" "map s_id (app_streams (clear_delays dl t)) = map s_id (app_streams t)"
  by (induction t) (auto simp: stream_fds_def app_streams_def mux_stream_app_held_def)

lemma free_streams_ends:
  "closed_fds (mux_sched_free_streams ss) = closed_fds ss @ stream_fds (tab ss)"
  "orphaned_from (app_streams (tab ss)) (orphans (sched ss)) (orphans (sched (mux_sched_free_streams ss)))"
  using fold_fail_and_free_ends(2) [of "clear_delays (delay_list (sched ss)) (tab ss)"
      "ss\<lparr>sched := (sched ss)\<lparr>sched_fifo := [], drr_active := None, lp_fifo := [], delay_list := [],
                num_tombstones := 0, num_closed := 0, next_stream_id := 0\<rparr>\<rparr>"]
  by (auto simp: mux_sched_free_streams_def Let_def fold_fail_and_free_ends tab_streams orphaned_from_def
      stream_fds_def [of "[]"] app_streams_def [of "[]"])

lemma closed_fds_state [simp]:
  "closed_fds (mux_session_set_state ss st) = closed_fds ss" "closed_fds (session_stop ss) = closed_fds ss"
  "orphans (sched (mux_session_set_state ss st)) = orphans (sched ss)"
  "orphans (sched (session_stop ss)) = orphans (sched ss)"
  by (simp_all add: closed_fds_def mux_session_set_state_def session_stop_def session_stop_timers_def
      mux_estimator_suspend_def session_reset_stream_window_floor_def session_set_stream_window_def
      session_emit_def put_out_def counter_add_def counter_sub_def Let_def)

lemma closed_fds_socket:
  "closed_fds (close_socket ss) = closed_fds ss @ (if io_fd (w_socket ss) = - 1 then [] else [io_fd (w_socket ss)])"
  by (simp add: close_socket_def) (simp add: closed_fds_def put_out_def)

lemma reset_ends:
  assumes "ss_state ss \<noteq> SESSION_CLOSED"
  shows "closed_fds (mux_session_reset ss) = closed_fds ss @ stream_fds (tab ss)
      @ (if io_fd (w_socket ss) = - 1 then [] else [io_fd (w_socket ss)])"
    "orphaned_from (app_streams (tab ss)) (orphans (sched ss)) (orphans (sched (mux_session_reset ss)))"
proof -
  define r where "r = session_stop (mux_session_set_state ss SESSION_CLOSED)"
  have e: "closed_fds (mux_session_reset ss) = closed_fds (session_cleanup r)"
    "sched (mux_session_reset ss) = sched (session_cleanup r)"
    using assms by (simp_all add: mux_session_reset_def r_def Let_def closed_fds_def)
  note f = free_streams_ends [of r]
  have r: "tab r = tab ss" "closed_fds r = closed_fds ss" "orphans (sched r) = orphans (sched ss)"
    "io_fd (w_socket r) = io_fd (w_socket ss)"
    by (simp_all add: r_def)
  show "closed_fds (mux_session_reset ss) = closed_fds ss @ stream_fds (tab ss)
      @ (if io_fd (w_socket ss) = - 1 then [] else [io_fd (w_socket ss)])"
    by (simp add: e session_cleanup_def closed_fds_socket f r core_restD [OF free_streams_core(1)])
  show "orphaned_from (app_streams (tab ss)) (orphans (sched ss)) (orphans (sched (mux_session_reset ss)))"
    using f by (simp add: e session_cleanup_def r)
qed

text \<open>The final close frees the orphans too.\<close>

lemma free_orphans_none: "orphans (sched (mux_sched_free_orphans ss)) = []"
proof -
  have "orphans (sched (fold (\<lambda>_ ss. mux_sched_free_orphan ss 0) xs ss)) = drop (length xs) (orphans (sched ss))"
    if "length xs \<le> length (orphans (sched ss))" for xs :: "mux_stream list"
    using that
  proof (induction xs arbitrary: ss)
    case (Cons x xs)
    have "orphans (sched (mux_sched_free_orphan ss 0)) = tl (orphans (sched ss))"
      by (simp add: mux_sched_free_orphan_def Let_def mux_stream_free_account drop_Suc)
    then show ?case
      using Cons.IH [of "mux_sched_free_orphan ss 0"] Cons.prems by (simp add: drop_Suc)
  qed simp
  from this [of "orphans (sched ss)"] show ?thesis
    by (simp add: mux_sched_free_orphans_def)
qed

text \<open>C16. Resetting a session tears it down completely and exactly once.  Every frame object it owned
  -- queued by a stream, waiting on a send queue or kept in the retransmit log -- goes back to the
  pool once.  The sockets of the streams it frees are closed, each once, and then its own.  The
  streams that the application still holds, and no others, join the orphans, closed and with
  nothing pending.  The table, the timers and the log are gone and the gauges are at zero; the
  owner hears of the closure once, a second reset changes nothing, and the final close leaves no
  orphan behind.\<close>

theorem mux_session_reset_releases:
  assumes "ring_inv (u_ring (unacked ss))" "gauges_ok ss" "ss_state ss \<noteq> SESSION_CLOSED"
  defines "r \<equiv> mux_session_reset ss"
  shows "torn_down r \<and> freed r = freed ss + held ss
    \<and> closed_fds r = closed_fds ss @ stream_fds (tab ss) @ (if io_fd (w_socket ss) = - 1 then [] else [io_fd (w_socket ss)])
    \<and> (\<exists>xs. orphans (sched r) = xs @ orphans (sched ss) \<and> map s_id xs = rev (map s_id (app_streams (tab ss)))
        \<and> list_all quiet_orphan xs)
    \<and> mux_session_reset r = r
    \<and> mux_session_notify_closed ss b = session_emit r (session_closed_data r b)
    \<and> mux_session_notify_closed r b = r
    \<and> orphans (sched (mux_session_close ss)) = []"
proof -
  note f = reset_facts [OF assms(1-3)] reset_ends [OF assms(3)]
  then have "ss_state r = SESSION_CLOSED"
    by (simp add: torn_down_def r_def)
  moreover have "orphans (sched (mux_session_close ss)) = []"
    by (simp add: mux_session_close_def Let_def counter_add_def free_orphans_none)
  ultimately show ?thesis
    using f assms(3) by (simp add: r_def mux_session_notify_closed_def mux_session_reset_def [of "mux_session_reset ss"]
        Let_def orphaned_from_def)
qed

definition sample_frame :: "nat \<Rightarrow> u8 list \<Rightarrow> mux_frame" where
  "sample_frame a d = \<lparr>f_addr = a, f_cursor = 0, f_cap = 16384, f_data = d\<rparr>"

text \<open>A session with a stream on a socket and one that the application has not taken over yet.\<close>

definition sample_loaded :: mux_session where
  "sample_loaded = sample_session\<lparr>ss_state := SESSION_ESTABLISHED, send_buffered_frames := 1,
    w_socket := zero_io\<lparr>io_fd := 5\<rparr>, wire := zero_wire\<lparr>sendbuf := [sample_frame 8 []]\<rparr>,
    sched := zero_sched\<lparr>streams := Some [(1, zero_stream\<lparr>s_id := 1, s_state := STREAM_ESTABLISHED,
        s_io := zero_io\<lparr>io_fd := 9\<rparr>, s_send_queue := [sample_frame 7 []]\<rparr>),
      (2, zero_stream\<lparr>s_id := 2, s_state := STREAM_SYN_RECEIVED, s_io := zero_io\<lparr>io_fd := - 1\<rparr>, s_pending_attach := True\<rparr>)]\<rparr>\<rparr>"

theorem mux_session_reset_releases_witness:
  "let r = mux_session_reset sample_loaded
   in freed r = {#7, 8#} \<and> torn_down r \<and> closed_fds r = [9, 5] \<and> map s_id (orphans (sched r)) = [2]"
proof -
  have d: "unacked sample_loaded = zero_unacked" "ss_state sample_loaded = SESSION_ESTABLISHED"
    "freed sample_loaded = {#}" "held sample_loaded = {#7, 8#}" "io_fd (w_socket sample_loaded) = 5"
    by (simp_all add: sample_loaded_def sample_session_def zero_session_def freed_def sample_pool_def held_def
        zero_wire_def zero_unacked_def tab_def sample_frame_def zero_stream_def zero_io_def)
  have e: "closed_fds sample_loaded = []" "stream_fds (tab sample_loaded) = [9]" "orphans (sched sample_loaded) = []"
    "map s_id (app_streams (tab sample_loaded)) = [2]"
    by (simp_all add: sample_loaded_def sample_session_def zero_session_def closed_fds_def stream_fds_def tab_def
        zero_stream_def zero_io_def app_streams_def mux_stream_app_held_def zero_sched_def)
  have "gauges_ok sample_loaded"
    by (simp add: gauges_ok_def sample_loaded_def sample_session_def zero_session_def tab_def zero_stream_def
        zero_bytebuf_def stream_settled_def sample_frame_def)
  from mux_session_reset_releases [OF _ this, of False] show ?thesis
    using d e by (auto simp: zero_unacked_def Let_def)
qed

end
