(* ===== verification/Unacked.thy ===== *)
theory Unacked
  imports Teardown
begin

text \<open>
  The session-level retransmit log of \<^verbatim>\<open>mux/unacked.c\<close>: every frame that left
  on a stream stays in a ring until the peer's session acknowledgement covers it, so that a
  lost transport can be replayed.  A ring entry packs several frames; the head entry may be
  partly acknowledged.  The abstract log is the list of unacknowledged frames; the theory
  shows that flushing appends to it, that acknowledgements drop from its front, and that the
  counters the code keeps incrementally (frame and byte totals, the replay bound) are the
  ones a scan of the log would give.
\<close>

section \<open>Filing flushed frames\<close>

definition unacked_ring_push :: "mux_session \<Rightarrow> mux_frame \<Rightarrow> nat \<Rightarrow> bool \<times> mux_session" where
  "unacked_ring_push ss frame num =
    (let frame = frame\<lparr>f_cursor := num\<rparr>;
         (ok, r, hp) = mux_frame_ring_push (heap ss) (u_ring (unacked ss)) frame;
         ss = ss\<lparr>heap := hp, unacked := (unacked ss)\<lparr>u_ring := r\<rparr>\<rparr>
     in if \<not> ok then (False, ss)
        else (True, counter_add cnt_unacked_frames num
          (ss\<lparr>unacked := (unacked ss)\<lparr>u_frames := u_frames (unacked ss) + num,
             u_bytes := u_bytes (unacked ss) + (f_len frame - num * MUX_FRAME_HEADER_SIZE)\<rparr>\<rparr>)))"

text \<open>The cap of the send-stall gate, in bytes.\<close>

definition stall_limit :: "mux_session \<Rightarrow> nat" where
  "stall_limit ss = unat (session_window ss) * MUX_WINDOW_UNIT"

definition unacked_push :: "mux_session \<Rightarrow> mux_frame \<Rightarrow> nat \<Rightarrow> mux_session" where
  "unacked_push ss frame num =
    (let (ok, ss) = unacked_ring_push ss frame num in
     if \<not> ok then mux_session_reset (pool_put frame ss)
     else if \<not> stalled (unacked ss) \<and> u_bytes (unacked ss) \<ge> stall_limit ss
     then ss\<lparr>unacked := (unacked ss)\<lparr>stalled := True\<rparr>\<rparr>
     else ss)"

text \<open>The in-place compaction loop of \<^verbatim>\<open>mux_unacked_track_sent\<close>: \<open>src\<close> and \<open>dst\<close> are
  offsets into the frame's bytes, \<open>n\<close> counts the frames kept.  \<^const>\<open>None\<close> is the layout
  error.\<close>

function compact_loop :: "u8 list \<Rightarrow> nat \<Rightarrow> nat \<Rightarrow> nat \<Rightarrow> nat \<Rightarrow> (u8 list \<times> nat \<times> nat) option" where
  "compact_loop data e dst src n =
    (if \<not> src < e then Some (data, dst, n)
     else if e - src < MUX_FRAME_HEADER_SIZE then None
     else let hdr = mux_read_header (drop src data);
              entry_len = MUX_FRAME_HEADER_SIZE + unat (h_length hdr) in
     if e - src < entry_len then None
     else if h_stream_id hdr \<noteq> STREAMID_CTRL
     then compact_loop (if dst \<noteq> src then store_at data dst (take entry_len (drop src data)) else data)
            e (dst + entry_len) (src + entry_len) (n + 1)
     else compact_loop data e dst (src + entry_len) n)"
  by pat_completeness auto
termination
  by (relation "measure (\<lambda>(data, e, dst, src, n). e - src)")
    (auto simp: MUX_FRAME_HEADER_SIZE_def)

declare compact_loop.simps [simp del]

definition mux_unacked_track_sent :: "mux_session \<Rightarrow> mux_frame \<Rightarrow> mux_session" where
  "mux_unacked_track_sent ss frame =
    (let hdr = mux_read_header (f_data frame); u = unacked ss in
     if h_version hdr = 0 then pool_put frame ss
     else if retransmit_copy u = Some (f_addr frame)
     then pool_put frame (ss\<lparr>unacked := u\<lparr>
            retransmitted_frames := retransmitted_frames u + retransmit_copy_count u,
            retransmit_off := (case retransmit_off u of Some k \<Rightarrow> Some (k + 1) | None \<Rightarrow> Some 0),
            retransmit_copy := None, retransmit_copy_count := 0, retransmit_copy_sent := 0\<rparr>\<rparr>)
     else if MUX_FRAME_HEADER_SIZE + unat (h_length hdr) = f_len frame
     then (if h_stream_id hdr = STREAMID_CTRL then pool_put frame ss else unacked_push ss frame 1)
     else case compact_loop (f_data frame) (f_len frame) 0 0 0 of
            None \<Rightarrow> mux_session_reset (pool_put frame ss)
          | Some (data, dst, n) \<Rightarrow>
              if n = 0 then pool_put frame ss
              else unacked_push ss (frame\<lparr>f_data := take dst data\<rparr>) n)"

text \<open>The complete sub-frames within the first \<open>pos\<close> bytes: their length and how many of them
  belong to streams.\<close>

function partial_loop :: "u8 list \<Rightarrow> nat \<Rightarrow> nat \<Rightarrow> nat \<Rightarrow> nat \<times> nat" where
  "partial_loop data pos dn n =
    (if \<not> pos - dn \<ge> MUX_FRAME_HEADER_SIZE then (dn, n)
     else let hdr = mux_read_header (drop dn data);
              entry_len = MUX_FRAME_HEADER_SIZE + unat (h_length hdr) in
     if pos - dn < entry_len then (dn, n)
     else partial_loop data pos (dn + entry_len) (if h_stream_id hdr \<noteq> STREAMID_CTRL then n + 1 else n))"
  by pat_completeness auto
termination
  by (relation "measure (\<lambda>(data, pos, dn, n). pos - dn)") (auto simp: MUX_FRAME_HEADER_SIZE_def)

declare partial_loop.simps [simp del]

definition set_sendbuf_head :: "mux_frame \<Rightarrow> mux_session \<Rightarrow> mux_session" where
  "set_sendbuf_head f ss = ss\<lparr>wire := (wire ss)\<lparr>sendbuf := f # tl (sendbuf (wire ss))\<rparr>\<rparr>"

text \<open>Called with the head of the send queue after a partial write.\<close>

definition mux_unacked_track_partial :: "mux_session \<Rightarrow> mux_session" where
  "mux_unacked_track_partial ss =
    (let frame = hd (sendbuf (wire ss)) in
     if h_version (mux_read_header (f_data frame)) = 0 then ss
     else let (dn, n) = partial_loop (f_data frame) (f_pos frame) 0 0 in
     if n = 0 then ss
     else let rest = frame\<lparr>f_data := drop dn (f_data frame), f_cursor := f_pos frame - dn\<rparr> in
     if retransmit_copy (unacked ss) = Some (f_addr frame)
     then set_sendbuf_head rest (ss\<lparr>unacked := (unacked ss)\<lparr>
            retransmit_copy_sent := retransmit_copy_sent (unacked ss) + n\<rparr>\<rparr>)
     else case pool_get ss (unat (max_payload ss)) of
            (None, ss) \<Rightarrow> mux_session_reset ss
          | (Some prefix, ss) \<Rightarrow>
              mux_unacked_track_sent (set_sendbuf_head rest ss) (prefix\<lparr>f_data := take dn (f_data frame)\<rparr>))"

section \<open>Acknowledgements\<close>

fun payload_loop :: "u8 list \<Rightarrow> nat \<Rightarrow> nat \<Rightarrow> nat \<Rightarrow> nat \<times> nat" where
  "payload_loop data src 0 tot = (tot, src)"
| "payload_loop data src (Suc num) tot =
    (if length data - src \<ge> MUX_FRAME_HEADER_SIZE
     then let hdr = mux_read_header (drop src data)
          in payload_loop data (src + (MUX_FRAME_HEADER_SIZE + unat (h_length hdr))) num
               (tot + unat (h_length hdr))
     else (tot, src))"

definition frame_payload_bytes_from :: "mux_frame \<Rightarrow> nat \<Rightarrow> nat \<Rightarrow> nat \<times> nat" where
  "frame_payload_bytes_from f offset num = payload_loop (f_data f) offset num 0"

record unacked_ack_result =
  r_ok :: bool
  trimmed_bytes :: nat
  unstalled :: bool

text \<open>What the trim loop carries besides the session: entries popped, payload bytes trimmed,
  and frames trimmed from entries already replayed.\<close>

record trim_acc =
  popped :: nat
  t_bytes :: nat
  trimmed_retransmitted :: nat

lemma ring_pop_smaller:
  assumes "mux_frame_ring_peek r 0 = Some f"
  shows "mux_frame_ring_size (snd (mux_frame_ring_pop r)) < mux_frame_ring_size r"
  using assms by (auto simp: mux_frame_ring_peek_def mux_frame_ring_pop_def mux_frame_ring_size_def
      split: option.splits if_splits)

function trim_loop :: "nat \<Rightarrow> mux_session \<Rightarrow> nat \<Rightarrow> trim_acc \<Rightarrow> mux_session \<times> trim_acc" where
  "trim_loop off0 ss remaining acc =
    (if \<not> remaining > 0 then (ss, acc)
     else let u = unacked ss in
     case mux_frame_ring_peek (u_ring u) 0 of
       None \<Rightarrow>
         (counter_add cnt_unacked_frames remaining
            (ss\<lparr>unacked := u\<lparr>u_frames := u_frames u + remaining, u_bytes := 0, partial_offset := 0\<rparr>\<rparr>), acc)
     | Some f \<Rightarrow>
         if unacked_count f > remaining then
           (let (bytes, offset) = frame_payload_bytes_from f (partial_offset u) remaining;
                in_flight = (popped acc = off0 \<and> retransmit_copy u \<noteq> None);
                u = u\<lparr>u_bytes := u_bytes u - bytes, partial_offset := offset mod 2 ^ 32\<rparr>;
                u = (if \<not> popped acc < off0 \<and> in_flight
                     then u\<lparr>retransmit_copy_count := retransmit_copy_count u - remaining,
                            retransmit_copy_sent := retransmit_copy_sent u - remaining\<rparr>
                     else u);
                u = u\<lparr>u_ring := ring_set_head (u_ring u) (f\<lparr>f_cursor := unacked_count f - remaining\<rparr>)\<rparr>
            in (ss\<lparr>unacked := u\<rparr>,
                acc\<lparr>t_bytes := t_bytes acc + bytes,
                    trimmed_retransmitted := trimmed_retransmitted acc + (if popped acc < off0 then remaining else 0)\<rparr>))
         else
           (let (bytes, offset) = frame_payload_bytes_from f (partial_offset u) (unacked_count f);
                u = u\<lparr>u_bytes := u_bytes u - bytes, partial_offset := 0,
                      u_ring := snd (mux_frame_ring_pop (u_ring u))\<rparr>
            in trim_loop off0 (pool_put f (ss\<lparr>unacked := u\<rparr>)) (remaining - unacked_count f)
                 \<lparr>popped = popped acc + 1, t_bytes = t_bytes acc + bytes,
                  trimmed_retransmitted = trimmed_retransmitted acc
                    + (if popped acc < off0 then unacked_count f else 0)\<rparr>))"
  by pat_completeness auto
termination
  by (relation "measure (\<lambda>(off0, ss, remaining, acc). mux_frame_ring_size (u_ring (unacked ss)))")
    (auto simp: pool_put_def ring_pop_smaller)

declare trim_loop.simps [simp del]

text \<open>The cursor arithmetic after the loop.\<close>

definition trim_replay :: "unacked_ctx \<Rightarrow> trim_acc \<Rightarrow> unacked_ctx" where
  "trim_replay u acc =
    (case retransmit_off u of
       None \<Rightarrow> u
     | Some off \<Rightarrow>
         (let u = (if off \<ge> popped acc
                   then u\<lparr>retransmit_off := Some (off - popped acc),
                          retransmitted_frames := retransmitted_frames u - trimmed_retransmitted acc\<rparr>
                   else unacked_set_replay_off u (Some 0))
          in if u_ring u \<noteq> None \<and> the (retransmit_off u) \<ge> mux_frame_ring_size (u_ring u)
             then unacked_set_replay_off u None else u))"

text \<open>The prelude of a trim: the counters move first.\<close>

definition trim_begin :: "mux_session \<Rightarrow> nat \<Rightarrow> mux_session" where
  "trim_begin ss n = counter_sub cnt_unacked_frames n (ss\<lparr>unacked := (unacked ss)\<lparr>
     u_frames := u_frames (unacked ss) - n,
     last_ack_recv := ucast (serial_add32 (ucast (last_ack_recv (unacked ss))) (of_nat n))\<rparr>\<rparr>)"

definition mux_unacked_ack_trim :: "mux_session \<Rightarrow> nat \<Rightarrow> unacked_ack_result \<times> mux_session" where
  "mux_unacked_ack_trim ss num =
    (if num > u_frames (unacked ss) then (\<lparr>r_ok = False, trimmed_bytes = 0, unstalled = False\<rparr>, ss)
     else if num = 0 then (\<lparr>r_ok = True, trimmed_bytes = 0, unstalled = False\<rparr>, ss)
     else let off0 = (case retransmit_off (unacked ss) of None \<Rightarrow> 0 | Some k \<Rightarrow> k);
              (ss, acc) = trim_loop off0 (trim_begin ss num) num \<lparr>popped = 0, t_bytes = 0, trimmed_retransmitted = 0\<rparr>;
              ss = ss\<lparr>unacked := trim_replay (unacked ss) acc\<rparr>
          in if stalled (unacked ss) \<and> u_bytes (unacked ss) < stall_limit ss
             then (\<lparr>r_ok = True, trimmed_bytes = t_bytes acc, unstalled = True\<rparr>,
                   ss\<lparr>unacked := (unacked ss)\<lparr>stalled := False\<rparr>\<rparr>)
             else (\<lparr>r_ok = True, trimmed_bytes = t_bytes acc, unstalled = False\<rparr>, ss))"

text \<open>The scan the running replay bound replaced.\<close>

definition retransmitted_frames_verify :: "mux_session \<Rightarrow> nat" where
  "retransmitted_frames_verify ss =
    (case u_ring (unacked ss) of
       None \<Rightarrow> 0
     | Some r \<Rightarrow> sum_list (map (\<lambda>i. unacked_count (the (mux_frame_ring_peek (Some r) i)))
         [0..<the (retransmit_off (unacked ss))]))"

definition mux_unacked_ack_recv :: "mux_session \<Rightarrow> nat \<Rightarrow> unacked_ack_result \<times> mux_session" where
  "mux_unacked_ack_recv ss num =
    (let u = unacked ss;
         bound = retransmitted_frames u + (if retransmit_copy u \<noteq> None then retransmit_copy_sent u else 0)
     in if retransmit_off u \<noteq> None \<and> num > bound
        then (\<lparr>r_ok = False, trimmed_bytes = 0, unstalled = False\<rparr>, ss)
        else mux_unacked_ack_trim ss num)"

text \<open>Trim one frame at a time until the peer's count is reached; the boolean is false when
  the outstanding frames run out first.\<close>

function resume_loop :: "u32 \<Rightarrow> mux_session \<Rightarrow> bool \<times> mux_session" where
  "resume_loop peer_ack ss =
    (if last_ack_recv (unacked ss) = peer_ack then (True, ss)
     else if u_frames (unacked ss) = 0 then (False, ss)
     else let before = u_frames (unacked ss); ss = snd (mux_unacked_ack_trim ss 1)
          in if u_frames (unacked ss) \<ge> before then (False, ss) else resume_loop peer_ack ss)"
  by pat_completeness auto
termination
  by (relation "measure (\<lambda>(peer_ack, ss). u_frames (unacked ss))") auto

declare resume_loop.simps [simp del]

definition mux_unacked_resume_ack_recv :: "mux_session \<Rightarrow> u32 \<Rightarrow> bool \<times> mux_session" where
  "mux_unacked_resume_ack_recv ss peer_ack =
    (if serial_lt32 (ucast peer_ack) (ucast (last_ack_recv (unacked ss))) then (False, ss)
     else let (ok, ss) = resume_loop peer_ack ss in
     if \<not> ok then (False, ss)
     else (True, ss\<lparr>unacked := unacked_set_replay_off (unacked ss)
            (if u_ring (unacked ss) \<noteq> None \<and> mux_frame_ring_size (u_ring (unacked ss)) > 0
             then Some 0 else None)\<rparr>))"

definition mux_unacked_ack_emitted :: "mux_session \<Rightarrow> nat \<Rightarrow> mux_session" where
  "mux_unacked_ack_emitted ss emit =
    ss\<lparr>unacked := (unacked ss)\<lparr>unreported := unreported (unacked ss) - of_nat emit, ack_ticks := 0\<rparr>\<rparr>"

section \<open>The loops over packed frames\<close>

definition stream_frame :: "wire_frame \<Rightarrow> bool" where
  "stream_frame hp \<longleftrightarrow> h_stream_id (fst hp) \<noteq> STREAMID_CTRL"

definition payload_len :: "wire_frame list \<Rightarrow> nat" where
  "payload_len fs = sum_list (map (length \<circ> snd) fs)"

lemma payload_len_simps [simp]:
  "payload_len [] = 0" "payload_len (f # fs) = length (snd f) + payload_len fs"
  "payload_len (fs @ gs) = payload_len fs + payload_len gs"
  by (simp_all add: payload_len_def)

lemma length_encode_frames: "length (encode_frames fs) = MUX_FRAME_HEADER_SIZE * length fs + payload_len fs"
  by (induction fs) simp_all

lemma store_at_front:
  "length k = d \<Longrightarrow> length x \<le> length r \<Longrightarrow> store_at (k @ r) d x = k @ x @ drop (length x) r"
  by (simp add: store_at_def)

lemma compact_loop_step:
  assumes "drop src data = encode_frame hp @ r" "frame_ok hp" "e = src + length (encode_frame hp) + length r"
  shows "compact_loop data e dst src n =
    (if stream_frame hp
     then compact_loop (if dst \<noteq> src then store_at data dst (encode_frame hp) else data)
            e (dst + length (encode_frame hp)) (src + length (encode_frame hp)) (n + 1)
     else compact_loop data e dst (src + length (encode_frame hp)) n)"
proof -
  have "unat (h_length (fst hp)) = length (snd hp)"
    using assms(2) by (simp add: frame_ok_def)
  then show ?thesis
    using assms(1,3) by (subst compact_loop.simps) (simp add: Let_def stream_frame_def)
qed

lemma partial_loop_step:
  assumes "drop dn data = encode_frame hp @ r" "frame_ok hp"
  shows "partial_loop data pos dn n =
    (if pos - dn < length (encode_frame hp) then (dn, n)
     else partial_loop data pos (dn + length (encode_frame hp)) (if stream_frame hp then n + 1 else n))"
proof -
  have "unat (h_length (fst hp)) = length (snd hp)"
    using assms(2) by (simp add: frame_ok_def)
  then show ?thesis
    using assms(1) by (subst partial_loop.simps) (simp add: Let_def stream_frame_def)
qed

text \<open>Moving one frame down over the bytes that were dropped before it.\<close>

lemma compact_move:
  assumes "length kept = dst" "dst + length junk = src"
  shows "(if dst \<noteq> src then store_at (kept @ junk @ x @ r) dst x else kept @ junk @ x @ r) =
    (kept @ x) @ drop (length x) (junk @ x) @ r"
proof (cases "junk = []")
  case False
  have "store_at (kept @ junk @ x @ r) dst x = kept @ x @ drop (length x) (junk @ x @ r)"
    using assms(1) by (intro store_at_front) auto
  then show ?thesis
    using False assms by auto
qed (use assms in simp)

text \<open>The in-place compaction keeps exactly the frames of streams, in order.\<close>

lemma compact_loop_keeps:
  assumes "\<forall>hp\<in>set fs. frame_ok hp" "length kept = dst" "length kept + length junk = src"
    "e = src + length (encode_frames fs)"
  shows "\<exists>data'. compact_loop (kept @ junk @ encode_frames fs) e dst src n =
      Some (data', dst + length (encode_frames (filter stream_frame fs)), n + length (filter stream_frame fs))
    \<and> take (dst + length (encode_frames (filter stream_frame fs))) data' =
      kept @ encode_frames (filter stream_frame fs)"
  using assms
proof (induction fs arbitrary: kept junk dst src n)
  case Nil
  then show ?case
    by (subst compact_loop.simps) simp
next
  case (Cons hp fs)
  let ?x = "encode_frame hp" and ?r = "encode_frames fs"
  let ?data = "kept @ junk @ ?x @ ?r"
  have hp: "frame_ok hp" "\<forall>hp\<in>set fs. frame_ok hp"
    using Cons.prems(1) by auto
  have "drop src ?data = ?x @ ?r" "e = src + length ?x + length ?r"
    using Cons.prems(2-4) by simp_all
  note step = compact_loop_step [OF this(1) hp(1) this(2)]
  show ?case
  proof (cases "stream_frame hp")
    case True
    define junk' where "junk' = drop (length ?x) (junk @ ?x)"
    have "(if dst \<noteq> src then store_at ?data dst ?x else ?data) = (kept @ ?x) @ junk' @ ?r"
      unfolding junk'_def by (rule compact_move) (use Cons.prems(2,3) in simp_all)
    moreover have "\<exists>data'. compact_loop ((kept @ ?x) @ junk' @ ?r) e (dst + length ?x) (src + length ?x) (n + 1) =
        Some (data', dst + length ?x + length (encode_frames (filter stream_frame fs)), n + 1 + length (filter stream_frame fs))
      \<and> take (dst + length ?x + length (encode_frames (filter stream_frame fs))) data' =
        (kept @ ?x) @ encode_frames (filter stream_frame fs)"
      by (rule Cons.IH) (use Cons.prems hp in \<open>auto simp: junk'_def\<close>)
    ultimately show ?thesis
      using True by (simp add: step add.assoc)
  next
    case False
    have "\<exists>data'. compact_loop (kept @ (junk @ ?x) @ ?r) e dst (src + length ?x) n =
        Some (data', dst + length (encode_frames (filter stream_frame fs)), n + length (filter stream_frame fs))
      \<and> take (dst + length (encode_frames (filter stream_frame fs))) data' =
        kept @ encode_frames (filter stream_frame fs)"
      by (rule Cons.IH) (use Cons.prems hp in auto)
    then show ?thesis
      using False by (simp add: step)
  qed
qed

text \<open>A partial write completes a prefix of the frames: all those that end within it.\<close>

lemma partial_loop_prefix:
  assumes "\<forall>hp\<in>set fs. frame_ok hp" "length pre = dn" "dn \<le> pos" "pos < dn + length (encode_frames fs)"
  shows "\<exists>k<length fs. partial_loop (pre @ encode_frames fs) pos dn n =
      (dn + length (encode_frames (take k fs)), n + length (filter stream_frame (take k fs)))
    \<and> dn + length (encode_frames (take k fs)) \<le> pos
    \<and> pos < dn + length (encode_frames (take (Suc k) fs))"
  using assms
proof (induction fs arbitrary: pre dn n)
  case (Cons hp fs)
  let ?x = "encode_frame hp" and ?r = "encode_frames fs"
  have hp: "frame_ok hp" "\<forall>hp\<in>set fs. frame_ok hp"
    using Cons.prems(1) by auto
  have "drop dn (pre @ ?x @ ?r) = ?x @ ?r"
    using Cons.prems(2) by simp
  note step = partial_loop_step [OF this hp(1)]
  show ?case
  proof (cases "pos - dn < length ?x")
    case True
    then show ?thesis
      using Cons.prems(3) by (intro exI [of _ 0]) (simp add: step)
  next
    case False
    have "\<exists>k<length fs. partial_loop ((pre @ ?x) @ ?r) pos (dn + length ?x) (if stream_frame hp then n + 1 else n) =
        (dn + length ?x + length (encode_frames (take k fs)),
          (if stream_frame hp then n + 1 else n) + length (filter stream_frame (take k fs)))
      \<and> dn + length ?x + length (encode_frames (take k fs)) \<le> pos
      \<and> pos < dn + length ?x + length (encode_frames (take (Suc k) fs))"
      by (rule Cons.IH) (use Cons.prems hp False in auto)
    then obtain k where "k < length fs" "partial_loop ((pre @ ?x) @ ?r) pos (dn + length ?x) (if stream_frame hp then n + 1 else n) =
        (dn + length ?x + length (encode_frames (take k fs)),
          (if stream_frame hp then n + 1 else n) + length (filter stream_frame (take k fs)))"
      "dn + length ?x + length (encode_frames (take k fs)) \<le> pos"
      "pos < dn + length ?x + length (encode_frames (take (Suc k) fs))"
      by blast
    then show ?thesis
      using False by (intro exI [of _ "Suc k"]) (simp add: step)
  qed
qed simp

lemma payload_loop_sum:
  assumes "\<forall>hp\<in>set fs. frame_ok hp" "length pre = src" "k \<le> length fs"
  shows "payload_loop (pre @ encode_frames fs) src k tot =
    (tot + payload_len (take k fs), src + length (encode_frames (take k fs)))"
  using assms
proof (induction fs arbitrary: pre src k tot)
  case (Cons hp fs)
  let ?x = "encode_frame hp"
  have hp: "frame_ok hp" "\<forall>hp\<in>set fs. frame_ok hp"
    using Cons.prems(1) by auto
  then have len: "unat (h_length (fst hp)) = length (snd hp)"
    by (simp add: frame_ok_def)
  show ?case
  proof (cases k)
    case (Suc j)
    have "payload_loop ((pre @ ?x) @ encode_frames fs) (src + length ?x) j (tot + length (snd hp)) =
        (tot + length (snd hp) + payload_len (take j fs), src + length ?x + length (encode_frames (take j fs)))"
      by (rule Cons.IH) (use Cons.prems Suc hp in auto)
    then show ?thesis
      using Suc Cons.prems(2) len by (simp add: Let_def)
  qed simp
qed simp

section \<open>The abstract log\<close>

abbreviation uitems :: "unacked_ctx \<Rightarrow> mux_frame list" where
  "uitems u \<equiv> ring_items (u_ring u)"

text \<open>The frames packed in an entry, those of them the peer has acknowledged, and those it
  has not.\<close>

definition entry_frames :: "mux_frame \<Rightarrow> wire_frame list" where
  "entry_frames f = (case subframes (f_data f) of None \<Rightarrow> [] | Some fs \<Rightarrow> fs)"

definition entry_acked :: "mux_frame \<Rightarrow> wire_frame list" where
  "entry_acked f = take (length (entry_frames f) - unacked_count f) (entry_frames f)"

definition entry_live :: "mux_frame \<Rightarrow> wire_frame list" where
  "entry_live f = drop (length (entry_frames f) - unacked_count f) (entry_frames f)"

text \<open>Every frame sent on a stream and not yet acknowledged, oldest first.\<close>

definition ulog :: "unacked_ctx \<Rightarrow> wire_frame list" where
  "ulog u = concat (map entry_live (uitems u))"

definition entry_ok :: "mux_frame \<Rightarrow> bool" where
  "entry_ok f \<longleftrightarrow> subframes (f_data f) \<noteq> None \<and> list_all stream_frame (entry_frames f)
    \<and> 0 < unacked_count f \<and> unacked_count f \<le> length (entry_frames f) \<and> f_len f < 2 ^ 32"

text \<open>Only the head entry may be partly acknowledged, up to the saved offset.\<close>

fun head_ok :: "nat \<Rightarrow> mux_frame list \<Rightarrow> bool" where
  "head_ok off [] = (off = 0)"
| "head_ok off (f # fs) = (off = length (encode_frames (entry_acked f)) \<and> list_all (\<lambda>g. entry_acked g = []) fs)"

definition log_ok :: "unacked_ctx \<Rightarrow> bool" where
  "log_ok u \<longleftrightarrow> ring_inv (u_ring u) \<and> list_all entry_ok (uitems u) \<and> head_ok (partial_offset u) (uitems u)
    \<and> u_bytes u = payload_len (ulog u)"

text \<open>The frames in the first \<open>k\<close> entries.\<close>

definition usum :: "nat \<Rightarrow> mux_frame list \<Rightarrow> nat" where
  "usum k fs = sum_list (map unacked_count (take k fs))"

lemma usum_simps [simp]:
  "usum 0 fs = 0" "usum k [] = 0" "usum (Suc k) (f # fs) = unacked_count f + usum k fs"
  by (simp_all add: usum_def)

lemma entry_parts:
  assumes "entry_ok f"
  shows "f_data f = encode_frames (entry_acked f) @ encode_frames (entry_live f)"
    "length (entry_live f) = unacked_count f" "\<forall>hp\<in>set (entry_live f). frame_ok hp"
    "\<forall>hp\<in>set (entry_live f). stream_frame hp" "entry_live f \<noteq> []"
    "length (encode_frames (entry_acked f)) + length (encode_frames (entry_live f)) < 2 ^ 32"
proof -
  obtain fs where fs: "subframes (f_data f) = Some fs" "entry_frames f = fs"
    using assms by (auto simp: entry_ok_def entry_frames_def)
  note d = subframes_SomeD [OF fs(1)]
  show data: "f_data f = encode_frames (entry_acked f) @ encode_frames (entry_live f)"
    using d by (simp add: entry_acked_def entry_live_def fs(2) flip: encode_frames_simps(3))
  show "length (entry_live f) = unacked_count f" "entry_live f \<noteq> []"
    using assms by (auto simp: entry_ok_def entry_live_def)
  show "\<forall>hp\<in>set (entry_live f). frame_ok hp" "\<forall>hp\<in>set (entry_live f). stream_frame hp"
    using d assms fs(2) by (auto simp: entry_live_def entry_ok_def list_all_iff dest: in_set_dropD)
  show "length (encode_frames (entry_acked f)) + length (encode_frames (entry_live f)) < 2 ^ 32"
    using assms data by (simp add: entry_ok_def)
qed

lemma entry_trim:
  assumes "entry_ok f" "k < unacked_count f"
  defines "g \<equiv> f\<lparr>f_cursor := unacked_count f - k\<rparr>"
  shows "entry_ok g" "entry_live g = drop k (entry_live f)" "entry_acked g = entry_acked f @ take k (entry_live f)"
proof -
  have e: "entry_frames g = entry_frames f"
    by (simp add: g_def entry_frames_def)
  show "entry_ok g"
    using assms(1,2) by (auto simp: entry_ok_def e) (auto simp: g_def)
  have n: "length (entry_frames f) - unacked_count g = length (entry_frames f) - unacked_count f + k"
    using assms(1,2) by (simp add: g_def entry_ok_def)
  show "entry_live g = drop k (entry_live f)" "entry_acked g = entry_acked f @ take k (entry_live f)"
    unfolding entry_live_def entry_acked_def e n by (simp_all add: take_add add.commute [of k])
qed

lemma entry_payload:
  assumes "entry_ok f" "k \<le> unacked_count f"
  shows "frame_payload_bytes_from f (length (encode_frames (entry_acked f))) k =
    (payload_len (take k (entry_live f)),
     length (encode_frames (entry_acked f)) + length (encode_frames (take k (entry_live f))))"
  using payload_loop_sum [of "entry_live f" "encode_frames (entry_acked f)" _ k 0] entry_parts [OF assms(1)] assms(2)
  by (simp add: frame_payload_bytes_from_def)

section \<open>Trimming\<close>

text \<open>One round of the trim loop on a log whose head is \<open>f\<close>.\<close>

lemma log_ok_head:
  assumes "log_ok u" "uitems u = f # fs"
  shows "mux_frame_ring_peek (u_ring u) 0 = Some f" "entry_ok f"
    "partial_offset u = length (encode_frames (entry_acked f))"
    "ulog u = entry_live f @ concat (map entry_live fs)"
  using assms ring_peek_refines [of "u_ring u" 0] by (auto simp: log_ok_def ulog_def)

definition trimmed_head :: "nat \<Rightarrow> trim_acc \<Rightarrow> unacked_ctx \<Rightarrow> mux_frame \<Rightarrow> nat \<Rightarrow> unacked_ctx" where
  "trimmed_head off0 acc u f k =
    (let d = (if popped acc = off0 \<and> retransmit_copy u \<noteq> None then k else 0)
     in u\<lparr>u_bytes := u_bytes u - payload_len (take k (entry_live f)),
          partial_offset := partial_offset u + length (encode_frames (take k (entry_live f))),
          retransmit_copy_count := retransmit_copy_count u - d,
          retransmit_copy_sent := retransmit_copy_sent u - d,
          u_ring := ring_set_head (u_ring u) (f\<lparr>f_cursor := unacked_count f - k\<rparr>)\<rparr>)"

lemma trim_loop_partial:
  assumes "log_ok (unacked ss)" "uitems (unacked ss) = f # fs" "0 < k" "k < unacked_count f"
  shows "trim_loop off0 ss k acc =
    (ss\<lparr>unacked := trimmed_head off0 acc (unacked ss) f k\<rparr>,
     acc\<lparr>t_bytes := t_bytes acc + payload_len (take k (entry_live f)),
         trimmed_retransmitted := trimmed_retransmitted acc + (if popped acc < off0 then k else 0)\<rparr>)"
proof -
  note h = log_ok_head [OF assms(1,2)]
  have "encode_frames (entry_live f) = encode_frames (take k (entry_live f)) @ encode_frames (drop k (entry_live f))"
    by (metis append_take_drop_id encode_frames_simps(3))
  then have "length (encode_frames (entry_acked f)) + length (encode_frames (take k (entry_live f))) < 2 ^ 32"
    using entry_parts(6) [OF h(2)] by simp
  then show ?thesis
    using assms(3,4) by (subst trim_loop.simps) (auto simp: Let_def h entry_payload trimmed_head_def)
qed

definition popped_head :: "unacked_ctx \<Rightarrow> mux_frame \<Rightarrow> unacked_ctx" where
  "popped_head u f = u\<lparr>u_bytes := u_bytes u - payload_len (entry_live f), partial_offset := 0,
     u_ring := snd (mux_frame_ring_pop (u_ring u))\<rparr>"

lemma trim_loop_pop:
  assumes "log_ok (unacked ss)" "uitems (unacked ss) = f # fs" "0 < k" "unacked_count f \<le> k"
  shows "trim_loop off0 ss k acc =
    trim_loop off0 (pool_put f (ss\<lparr>unacked := popped_head (unacked ss) f\<rparr>)) (k - unacked_count f)
      \<lparr>popped = popped acc + 1, t_bytes = t_bytes acc + payload_len (entry_live f),
       trimmed_retransmitted = trimmed_retransmitted acc + (if popped acc < off0 then unacked_count f else 0)\<rparr>"
proof -
  note h = log_ok_head [OF assms(1,2)]
  show ?thesis
    using assms(3,4) entry_parts(2) [OF h(2)]
    by (subst trim_loop.simps) (simp add: Let_def h entry_payload popped_head_def)
qed

lemma trimmed_head_ok:
  fixes off0 :: nat and acc :: trim_acc
  assumes "log_ok u" "uitems u = f # fs" "k < unacked_count f"
  defines "v \<equiv> trimmed_head off0 acc u f k"
  shows "log_ok v" "ulog v = drop k (ulog u)" "uitems v = f\<lparr>f_cursor := unacked_count f - k\<rparr> # fs"
proof -
  note h = log_ok_head [OF assms(1,2)]
  note t = entry_trim [OF h(2) assms(3)]
  have r: "ring_inv (u_ring v)" "uitems v = f\<lparr>f_cursor := unacked_count f - k\<rparr> # fs"
    using ring_set_head_refines [of "u_ring u" f fs] assms(1,2)
    by (simp_all add: v_def trimmed_head_def Let_def log_ok_def)
  then show "uitems v = f\<lparr>f_cursor := unacked_count f - k\<rparr> # fs"
    by simp
  show l: "ulog v = drop k (ulog u)"
    using h(4) entry_parts(2) [OF h(2)] assms(3) by (simp add: ulog_def r t)
  have "payload_len (ulog u) = payload_len (take k (entry_live f)) + payload_len (drop k (ulog u))"
    using h(4) entry_parts(2) [OF h(2)] assms(3)
    by (metis append_take_drop_id drop_append nless_le payload_len_simps(3) take_append
        append.right_neutral diff_is_0_eq' take0)
  then show "log_ok v"
    using assms(1,2) r t l h(3) by (simp add: log_ok_def) (simp add: v_def trimmed_head_def Let_def)
qed

lemma popped_head_ok:
  assumes "log_ok u" "uitems u = f # fs"
  defines "v \<equiv> popped_head u f"
  shows "log_ok v" "ulog v = drop (unacked_count f) (ulog u)" "uitems v = fs"
proof -
  note h = log_ok_head [OF assms(1,2)]
  have r: "ring_inv (u_ring v)" "uitems v = fs"
    using ring_pop_refines [of "u_ring u" f fs] assms(1,2) by (auto simp: v_def popped_head_def log_ok_def)
  then show "uitems v = fs"
    by simp
  show l: "ulog v = drop (unacked_count f) (ulog u)"
    using h(4) entry_parts(2) [OF h(2)] by (simp add: ulog_def r)
  have "u_bytes v = payload_len (ulog v)"
    using assms(1) h(4) entry_parts(2) [OF h(2)] l by (simp add: v_def popped_head_def log_ok_def)
  moreover have "head_ok 0 fs"
    using assms(1,2) by (cases fs) (auto simp: log_ok_def)
  ultimately show "log_ok v"
    using assms(1,2) r by (simp add: log_ok_def) (simp add: v_def popped_head_def)
qed

text \<open>What trimming does not touch.\<close>

definition trim_rest :: "mux_session \<Rightarrow> mux_session" where
  "trim_rest ss = ss\<lparr>pool := \<lparr>pool_alloc = (\<lambda>_. None), pool_calls = 0, pool_freed = []\<rparr>,
     unacked := (unacked ss)\<lparr>u_ring := None, u_bytes := 0, partial_offset := 0,
       retransmit_copy_count := 0, retransmit_copy_sent := 0\<rparr>\<rparr>"

lemma trim_rest_simps [simp]:
  "trim_rest (ss\<lparr>unacked := trimmed_head off0 acc (unacked ss) f k\<rparr>) = trim_rest ss"
  "trim_rest (pool_put f (ss\<lparr>unacked := popped_head (unacked ss) f\<rparr>)) = trim_rest ss"
  by (simp_all add: trim_rest_def trimmed_head_def popped_head_def pool_put_def Let_def)

lemma freed_trim [simp]:
  "freed (ss\<lparr>unacked := u\<rparr>) = freed ss" "freed (pool_put f ss) = add_mset (f_addr f) (freed ss)"
  by (simp_all add: freed_def pool_put_def mux_frame_put_def)

lemma usum_diff_Suc: "p < off \<Longrightarrow> usum (off - p) (f # fs) = unacked_count f + usum (off - Suc p) fs"
  by (metis Suc_diff_Suc usum_simps(3))

text \<open>The facts a run of the loop establishes about its result.\<close>

definition trim_done :: "nat \<Rightarrow> mux_session \<Rightarrow> nat \<Rightarrow> trim_acc \<Rightarrow> mux_session \<times> trim_acc \<Rightarrow> bool" where
  "trim_done off0 ss k acc r \<longleftrightarrow> (let (ss', acc') = r; u = unacked ss; u' = unacked ss' in
     log_ok u' \<and> ulog u' = drop k (ulog u)
     \<and> t_bytes acc' = t_bytes acc + payload_len (take k (ulog u))
     \<and> trimmed_retransmitted acc' + usum (off0 - popped acc') (uitems u') =
         trimmed_retransmitted acc + usum (off0 - popped acc) (uitems u)
     \<and> popped acc \<le> popped acc' \<and> length (uitems u') + popped acc' = length (uitems u) + popped acc
     \<and> freed ss' + addrs (uitems u') = freed ss + addrs (uitems u)
     \<and> trim_rest ss' = trim_rest ss)"

lemma trim_done_partial:
  assumes "log_ok (unacked ss)" "uitems (unacked ss) = f # fs" "0 < k" "k < unacked_count f"
  shows "trim_done off0 ss k acc (trim_loop off0 ss k acc)"
proof -
  note h = log_ok_head [OF assms(1,2)]
  have t: "take k (ulog (unacked ss)) = take k (entry_live f)"
    using h(4) entry_parts(2) [OF h(2)] assms(4) by simp
  show ?thesis
    using trimmed_head_ok [OF assms(1,2,4), of off0 acc] assms(4)
    by (cases "popped acc < off0")
      (simp_all add: trim_loop_partial [OF assms] trim_done_def t assms(2) usum_diff_Suc)
qed

lemma trim_done_pop:
  assumes "log_ok (unacked ss)" "uitems (unacked ss) = f # fs" "unacked_count f \<le> k"
    "trim_done off0 (pool_put f (ss\<lparr>unacked := popped_head (unacked ss) f\<rparr>)) (k - unacked_count f)
      \<lparr>popped = popped acc + 1, t_bytes = t_bytes acc + payload_len (entry_live f),
       trimmed_retransmitted = trimmed_retransmitted acc + (if popped acc < off0 then unacked_count f else 0)\<rparr> r"
  shows "trim_done off0 ss k acc r"
proof -
  note h = log_ok_head [OF assms(1,2)]
  have t: "payload_len (take k (ulog (unacked ss))) = payload_len (entry_live f)
      + payload_len (take (k - unacked_count f) (drop (unacked_count f) (ulog (unacked ss))))"
    using h(4) entry_parts(2) [OF h(2)] assms(3) by simp
  show ?thesis
    using assms(3,4) popped_head_ok [OF assms(1,2)]
    by (cases "popped acc < off0") (auto simp: trim_done_def Let_def t assms(2) usum_diff_Suc split: prod.splits)
qed

lemma trim_loop_done:
  assumes "log_ok (unacked ss)" "k \<le> length (ulog (unacked ss))"
  shows "trim_done off0 ss k acc (trim_loop off0 ss k acc)"
  using assms
proof (induction "uitems (unacked ss)" arbitrary: ss k acc)
  case Nil
  then have "k = 0"
    by (simp add: ulog_def flip: Nil.hyps)
  then show ?case
    using Nil by (subst trim_loop.simps) (simp add: trim_done_def)
next
  case (Cons f fs)
  note items = Cons.hyps(2) [symmetric]
  consider "k = 0" | "0 < k" "k < unacked_count f" | "0 < k" "unacked_count f \<le> k"
    by linarith
  then show ?case
  proof cases
    case 1
    then show ?thesis
      using Cons.prems by (subst trim_loop.simps) (simp add: trim_done_def)
  next
    case 2
    then show ?thesis
      by (rule trim_done_partial [OF Cons.prems(1) items])
  next
    case 3
    note p = popped_head_ok [OF Cons.prems(1) items]
    show ?thesis
      unfolding trim_loop_pop [OF Cons.prems(1) items 3]
      by (rule trim_done_pop [OF Cons.prems(1) items 3(2)])
        (rule Cons.hyps, use Cons.prems p in \<open>auto simp: pool_put_def\<close>)
  qed
qed

text \<open>While a replay copy is in flight, an acknowledgement within the replay bound never
  reaches past it.\<close>

definition copy_ok :: "nat \<Rightarrow> unacked_ctx \<Rightarrow> bool" where
  "copy_ok off u \<longleftrightarrow> off < length (uitems u) \<and> retransmit_copy_count u = unacked_count (uitems u ! off)
    \<and> retransmit_copy_sent u < retransmit_copy_count u"

lemma trim_loop_copy:
  fixes off0 :: nat
  defines "safe \<equiv> \<lambda>r :: mux_session \<times> trim_acc.
    popped (snd r) \<le> off0 \<and> copy_ok (off0 - popped (snd r)) (unacked (fst r))"
  assumes "log_ok (unacked ss)" "retransmit_copy (unacked ss) \<noteq> None" "safe (ss, acc)"
    "k \<le> usum (off0 - popped acc) (uitems (unacked ss)) + retransmit_copy_sent (unacked ss)"
  shows "safe (trim_loop off0 ss k acc)"
  using assms(2-)
proof (induction "uitems (unacked ss)" arbitrary: ss k acc)
  case Nil
  then show ?case
    by (simp add: safe_def copy_ok_def flip: Nil.hyps)
next
  case (Cons f fs)
  note items = Cons.hyps(2) [symmetric]
  consider "k = 0" | "0 < k" "k < unacked_count f" | "0 < k" "unacked_count f \<le> k"
    by linarith
  then show ?case
  proof cases
    case 1
    then show ?thesis
      using Cons.prems by (subst trim_loop.simps) simp
  next
    case 2
    have "copy_ok (off0 - popped acc) (trimmed_head off0 acc (unacked ss) f k)"
      using Cons.prems(2-4) 2 trimmed_head_ok(3) [OF Cons.prems(1) items 2(2), of off0 acc]
      by (cases "off0 - popped acc") (auto simp: safe_def copy_ok_def items trimmed_head_def Let_def)
    then show ?thesis
      using Cons.prems(3) by (simp add: safe_def trim_loop_partial [OF Cons.prems(1) items 2])
  next
    case 3
    note p = popped_head_ok [OF Cons.prems(1) items]
    have lt: "popped acc < off0"
      using Cons.prems(3,4) 3 by (cases "popped acc < off0") (auto simp: safe_def copy_ok_def items)
    then obtain j where j: "off0 - popped acc = Suc j" "off0 - Suc (popped acc) = j"
      by (metis Suc_diff_Suc)
    have c: "retransmit_copy_sent (popped_head (unacked ss) f) = retransmit_copy_sent (unacked ss)"
        "retransmit_copy_count (popped_head (unacked ss) f) = retransmit_copy_count (unacked ss)"
        "retransmit_copy (popped_head (unacked ss) f) = retransmit_copy (unacked ss)"
      by (simp_all add: popped_head_def)
    show ?thesis
      unfolding trim_loop_pop [OF Cons.prems(1) items 3]
      by (rule Cons.hyps) (use Cons.prems 3 lt p c j in \<open>auto simp: safe_def copy_ok_def items\<close>)
  qed
qed

section \<open>The invariant of the log\<close>

definition replay_ok :: "unacked_ctx \<Rightarrow> bool" where
  "replay_ok u \<longleftrightarrow> (case retransmit_off u of
      None \<Rightarrow> retransmitted_frames u = 0 \<and> retransmit_copy u = None
    | Some off \<Rightarrow> off \<le> length (uitems u) \<and> retransmitted_frames u = usum off (uitems u)
        \<and> (retransmit_copy u \<noteq> None \<longrightarrow> copy_ok off u))"

definition unacked_inv :: "unacked_ctx \<Rightarrow> bool" where
  "unacked_inv u \<longleftrightarrow> log_ok u \<and> u_frames u = length (ulog u) \<and> replay_ok u"

text \<open>The frames of the log the peer can have received on this transport: all of them, or
  during a replay those already replayed.\<close>

definition delivered :: "unacked_ctx \<Rightarrow> nat" where
  "delivered u = (case retransmit_off u of
      None \<Rightarrow> length (ulog u)
    | Some off \<Rightarrow> usum off (uitems u) + (if retransmit_copy u \<noteq> None then retransmit_copy_sent u else 0))"

lemma ring_size_items: "mux_frame_ring_size r = length (ring_items r)"
  by (simp add: mux_frame_ring_size_items)

lemma log_ok_ctl [simp]:
  "log_ok (u\<lparr>retransmit_off := x\<rparr>) = log_ok u" "log_ok (u\<lparr>retransmitted_frames := m\<rparr>) = log_ok u"
  "log_ok (u\<lparr>stalled := b\<rparr>) = log_ok u" "log_ok (u\<lparr>u_frames := m\<rparr>) = log_ok u"
  "log_ok (u\<lparr>last_ack_recv := a\<rparr>) = log_ok u"
  "ulog (u\<lparr>retransmit_off := x\<rparr>) = ulog u" "ulog (u\<lparr>retransmitted_frames := m\<rparr>) = ulog u"
  "ulog (u\<lparr>stalled := b\<rparr>) = ulog u" "ulog (u\<lparr>u_frames := m\<rparr>) = ulog u"
  "ulog (u\<lparr>last_ack_recv := a\<rparr>) = ulog u"
  by (simp_all add: log_ok_def ulog_def)

lemma trim_replay_fields [simp]:
  "u_ring (trim_replay u acc) = u_ring u" "u_frames (trim_replay u acc) = u_frames u"
  "u_bytes (trim_replay u acc) = u_bytes u" "stalled (trim_replay u acc) = stalled u"
  "last_ack_recv (trim_replay u acc) = last_ack_recv u" "retransmit_copy (trim_replay u acc) = retransmit_copy u"
  "log_ok (trim_replay u acc) = log_ok u" "ulog (trim_replay u acc) = ulog u"
  by (simp_all add: trim_replay_def unacked_set_replay_off_def Let_def split: option.split)

lemma trim_replay_ok:
  assumes "case retransmit_off u of
      None \<Rightarrow> retransmitted_frames u = 0 \<and> retransmit_copy u = None
    | Some off \<Rightarrow> retransmitted_frames u = trimmed_retransmitted acc + usum (off - popped acc) (uitems u)
        \<and> off \<le> length (uitems u) + popped acc
        \<and> (retransmit_copy u \<noteq> None \<longrightarrow> popped acc \<le> off \<and> copy_ok (off - popped acc) u)"
  shows "replay_ok (trim_replay u acc)"
  using assms
  by (auto simp: replay_ok_def trim_replay_def unacked_set_replay_off_def copy_ok_def ring_size_items Let_def
      split: option.splits)

lemma ucast_of_nat_32: "(ucast (of_nat n :: ufast) :: u32) = of_nat n"
  by (rule bit_word_eqI) (simp add: bit_simps)

lemma trim_restD:
  assumes "trim_rest a = trim_rest b"
  shows "u_frames (unacked a) = u_frames (unacked b)" "retransmit_off (unacked a) = retransmit_off (unacked b)"
    "retransmitted_frames (unacked a) = retransmitted_frames (unacked b)"
    "retransmit_copy (unacked a) = retransmit_copy (unacked b)"
    "last_ack_recv (unacked a) = last_ack_recv (unacked b)" "stalled (unacked a) = stalled (unacked b)"
    "session_window a = session_window b"
proof -
  have *: "f a = f b" if "\<And>ss. f (trim_rest ss) = f ss" for f :: "mux_session \<Rightarrow> 'x"
    using that [of a] that [of b] assms by simp
  show "u_frames (unacked a) = u_frames (unacked b)" "retransmit_off (unacked a) = retransmit_off (unacked b)"
    "retransmitted_frames (unacked a) = retransmitted_frames (unacked b)"
    "retransmit_copy (unacked a) = retransmit_copy (unacked b)"
    "last_ack_recv (unacked a) = last_ack_recv (unacked b)" "stalled (unacked a) = stalled (unacked b)"
    "session_window a = session_window b"
    by (rule *, simp add: trim_rest_def)+
qed

lemma trim_begin_proj:
  "unacked (trim_begin ss n) = (unacked ss)\<lparr>u_frames := u_frames (unacked ss) - n,
     last_ack_recv := last_ack_recv (unacked ss) + of_nat n\<rparr>"
  "freed (trim_begin ss n) = freed ss" "session_window (trim_begin ss n) = session_window ss"
  by (simp_all add: trim_begin_def serial_add32_word ucast_of_nat_32)

lemma ack_trim_spec:
  assumes inv: "unacked_inv (unacked ss)" and n: "0 < n" "n \<le> length (ulog (unacked ss))"
    "retransmit_copy (unacked ss) \<noteq> None \<Longrightarrow> n \<le> delivered (unacked ss)"
    and res: "mux_unacked_ack_trim ss n = (res, ss')"
  shows "r_ok res \<and> trimmed_bytes res = payload_len (take n (ulog (unacked ss)))
    \<and> unacked_inv (unacked ss') \<and> ulog (unacked ss') = drop n (ulog (unacked ss))
    \<and> last_ack_recv (unacked ss') = last_ack_recv (unacked ss) + of_nat n
    \<and> retransmit_copy (unacked ss') = retransmit_copy (unacked ss)
    \<and> freed ss' + addrs (uitems (unacked ss')) = freed ss + addrs (uitems (unacked ss))
    \<and> stalled (unacked ss') = (stalled (unacked ss) \<and> stall_limit ss \<le> u_bytes (unacked ss'))"
proof -
  define s0 where "s0 = trim_begin ss n"
  define off0 where "off0 = (case retransmit_off (unacked ss) of None \<Rightarrow> 0 | Some k \<Rightarrow> k)"
  define a0 where "a0 = \<lparr>popped = 0, t_bytes = 0, trimmed_retransmitted = 0\<rparr>"
  obtain s1 acc where lp: "trim_loop off0 s0 n a0 = (s1, acc)"
    by fastforce
  note u0 = trim_begin_proj [of ss n, folded s0_def]
  have lo: "log_ok (unacked s0)" "ulog (unacked s0) = ulog (unacked ss)" "uitems (unacked s0) = uitems (unacked ss)"
    using inv by (simp_all add: u0 unacked_inv_def)
  have td: "trim_done off0 s0 n a0 (s1, acc)"
    using trim_loop_done [of s0 n off0 a0] lo n(2) lp by simp
  note rest = trim_restD [of s1 s0]
  have eq: "trim_rest s1 = trim_rest s0"
    using td by (simp add: trim_done_def Let_def)
  have cp: "popped acc \<le> off0 \<and> copy_ok (off0 - popped acc) (unacked s1)" if c: "retransmit_copy (unacked ss) \<noteq> None"
  proof -
    have "retransmit_off (unacked ss) = Some off0" "copy_ok off0 (unacked ss)"
      using inv c by (auto simp: unacked_inv_def replay_ok_def off0_def split: option.splits)
    then show ?thesis
      using trim_loop_copy [of s0 a0 off0 n] lo n(3) [OF c] c lp
      by (simp add: u0 a0_def copy_ok_def delivered_def)
  qed
  have rep: "replay_ok (trim_replay (unacked s1) acc)"
    using inv td cp by (intro trim_replay_ok)
      (auto simp: rest(2-4) [OF eq] u0 lo unacked_inv_def replay_ok_def trim_done_def Let_def off0_def a0_def
        split: option.splits)
  have e: "mux_unacked_ack_trim ss n = (let s2 = s1\<lparr>unacked := trim_replay (unacked s1) acc\<rparr>
      in if stalled (unacked s2) \<and> u_bytes (unacked s2) < stall_limit s2
         then (\<lparr>r_ok = True, trimmed_bytes = t_bytes acc, unstalled = True\<rparr>, s2\<lparr>unacked := (unacked s2)\<lparr>stalled := False\<rparr>\<rparr>)
         else (\<lparr>r_ok = True, trimmed_bytes = t_bytes acc, unstalled = False\<rparr>, s2))"
    using n inv lp unfolding mux_unacked_ack_trim_def
    by (simp add: unacked_inv_def Let_def flip: s0_def off0_def a0_def)
  have rs: "replay_ok (u\<lparr>stalled := b\<rparr>) = replay_ok u" for u b
    by (simp add: replay_ok_def copy_ok_def split: option.split)
  show ?thesis
    using td rep res inv
    by (auto simp: e Let_def trim_done_def a0_def unacked_inv_def lo u0 rest(1,4,5,6,7) [OF eq] stall_limit_def rs
        split: if_splits)
qed

lemma length_ulog: "list_all entry_ok (uitems u) \<Longrightarrow> length (ulog u) = sum_list (map unacked_count (uitems u))"
proof -
  have "list_all entry_ok fs \<Longrightarrow> length (concat (map entry_live fs)) = sum_list (map unacked_count fs)" for fs
    by (induction fs) (auto simp: entry_parts(2))
  then show "list_all entry_ok (uitems u) \<Longrightarrow> ?thesis"
    by (simp add: ulog_def)
qed

lemma usum_le: "usum k fs + sum_list (map unacked_count (drop k fs)) = sum_list (map unacked_count fs)"
  unfolding usum_def by (metis append_take_drop_id map_append sum_list_append)

lemma delivered_le:
  assumes "unacked_inv u"
  shows "delivered u \<le> length (ulog u)"
proof (cases "retransmit_off u")
  case (Some off)
  have l: "length (ulog u) = usum off (uitems u) + sum_list (map unacked_count (drop off (uitems u)))"
    using assms length_ulog [of u] usum_le [of off "uitems u"] by (simp add: unacked_inv_def log_ok_def)
  show ?thesis
  proof (cases "retransmit_copy u = None")
    case False
    then have c: "copy_ok off u"
      using assms Some by (simp add: unacked_inv_def replay_ok_def)
    then have "unacked_count (uitems u ! off) \<le> sum_list (map unacked_count (drop off (uitems u)))"
      by (simp add: copy_ok_def Cons_nth_drop_Suc [symmetric])
    then show ?thesis
      using c l Some by (simp add: delivered_def copy_ok_def)
  qed (simp add: delivered_def Some l)
qed (simp add: delivered_def)

lemma replay_bound:
  assumes "unacked_inv u" "retransmit_off u \<noteq> None"
  shows "delivered u = retransmitted_frames u + (if retransmit_copy u \<noteq> None then retransmit_copy_sent u else 0)"
  using assms by (auto simp: delivered_def unacked_inv_def replay_ok_def)

lemma retransmitted_frames_verify_eq:
  assumes "unacked_inv (unacked ss)" "retransmit_off (unacked ss) \<noteq> None"
  shows "retransmitted_frames_verify ss = retransmitted_frames (unacked ss)"
proof -
  obtain off where off: "retransmit_off (unacked ss) = Some off" "off \<le> length (uitems (unacked ss))"
      "retransmitted_frames (unacked ss) = usum off (uitems (unacked ss))" "ring_inv (u_ring (unacked ss))"
    using assms by (auto simp: unacked_inv_def replay_ok_def log_ok_def)
  have "map (\<lambda>i. unacked_count (the (mux_frame_ring_peek (u_ring (unacked ss)) i))) [0..<off] =
      map unacked_count (take off (uitems (unacked ss)))"
    using off(2) ring_peek_refines [OF off(4)] by (auto intro: nth_equalityI)
  then show ?thesis
    using off by (cases "u_ring (unacked ss)") (simp_all add: retransmitted_frames_verify_def usum_def)
qed

text \<open>C2. A session acknowledgement from the peer is applied to the log exactly: a count
  within what the peer can have received on this transport drops that many frames from the
  front, moves the acknowledged sequence number by as much, releases the entries it exhausts
  and reports their payload bytes; any larger count is refused and changes nothing.  During a
  replay only frames already replayed can be acknowledged, and the running count the bound is
  taken from equals a scan of the log.  The send-stall gate opens exactly when the bytes left
  fall below the session window.\<close>

theorem mux_unacked_ack_recv_refines:
  assumes "unacked_inv (unacked ss)" "mux_unacked_ack_recv ss n = (res, ss')"
  shows "(if n \<le> delivered (unacked ss)
      then r_ok res \<and> trimmed_bytes res = payload_len (take n (ulog (unacked ss)))
        \<and> unacked_inv (unacked ss') \<and> ulog (unacked ss') = drop n (ulog (unacked ss))
        \<and> last_ack_recv (unacked ss') = last_ack_recv (unacked ss) + of_nat n
        \<and> freed ss' + addrs (uitems (unacked ss')) = freed ss + addrs (uitems (unacked ss))
        \<and> (0 < n \<longrightarrow> stalled (unacked ss') = (stalled (unacked ss) \<and> stall_limit ss \<le> payload_len (ulog (unacked ss'))))
      else \<not> r_ok res \<and> ss' = ss)
    \<and> (retransmit_off (unacked ss) \<noteq> None \<longrightarrow> retransmitted_frames_verify ss = retransmitted_frames (unacked ss))"
proof -
  note inv = assms(1)
  have le: "delivered (unacked ss) \<le> length (ulog (unacked ss))"
    by (rule delivered_le [OF inv])
  have fr: "u_frames (unacked ss) = length (ulog (unacked ss))"
    using inv by (simp add: unacked_inv_def)
  have e: "mux_unacked_ack_recv ss n =
      (if n \<le> delivered (unacked ss) then mux_unacked_ack_trim ss n
       else (\<lparr>r_ok = False, trimmed_bytes = 0, unstalled = False\<rparr>, ss))"
    using replay_bound [OF inv] fr
    by (cases "retransmit_off (unacked ss)")
      (auto simp: mux_unacked_ack_recv_def mux_unacked_ack_trim_def delivered_def Let_def)
  have "if n \<le> delivered (unacked ss)
      then r_ok res \<and> trimmed_bytes res = payload_len (take n (ulog (unacked ss)))
        \<and> unacked_inv (unacked ss') \<and> ulog (unacked ss') = drop n (ulog (unacked ss))
        \<and> last_ack_recv (unacked ss') = last_ack_recv (unacked ss) + of_nat n
        \<and> freed ss' + addrs (uitems (unacked ss')) = freed ss + addrs (uitems (unacked ss))
        \<and> (0 < n \<longrightarrow> stalled (unacked ss') = (stalled (unacked ss) \<and> stall_limit ss \<le> u_bytes (unacked ss')))
      else \<not> r_ok res \<and> ss' = ss"
  proof (cases "n = 0")
    case True
    then show ?thesis
      using assms(2) inv unfolding e by (auto simp: mux_unacked_ack_trim_def)
  next
    case False
    then show ?thesis
      using assms(2) ack_trim_spec [OF inv, of n res ss'] le unfolding e by (auto split: if_splits)
  qed
  then show ?thesis
    using retransmitted_frames_verify_eq [OF inv] by (auto simp: unacked_inv_def log_ok_def split: if_splits)
qed

section \<open>Resuming\<close>

lemma resume_loop_spec:
  assumes "unacked_inv (unacked ss)" "retransmit_copy (unacked ss) = None"
    "resume_loop peer ss = (ok, ss')"
  defines "d \<equiv> unat (peer - last_ack_recv (unacked ss))"
  shows "(ok \<longleftrightarrow> d \<le> length (ulog (unacked ss)))
    \<and> (ok \<longrightarrow> unacked_inv (unacked ss') \<and> ulog (unacked ss') = drop d (ulog (unacked ss))
        \<and> last_ack_recv (unacked ss') = peer \<and> retransmit_copy (unacked ss') = None
        \<and> freed ss' + addrs (uitems (unacked ss')) = freed ss + addrs (uitems (unacked ss)))"
  using assms(1-3) unfolding d_def
proof (induction "length (ulog (unacked ss))" arbitrary: ss)
  case 0
  then have "u_frames (unacked ss) = 0"
    by (simp add: unacked_inv_def)
  then show ?case
    using 0 by (subst (asm) resume_loop.simps) (auto simp: unat_eq_zero split: if_splits)
next
  case (Suc m)
  show ?case
  proof (cases "last_ack_recv (unacked ss) = peer")
    case True
    then show ?thesis
      using Suc.prems by (subst (asm) resume_loop.simps) simp
  next
    case False
    obtain res s1 where tr: "mux_unacked_ack_trim ss 1 = (res, s1)"
      by fastforce
    have f: "u_frames (unacked ss) = Suc m"
      using Suc.prems(1) Suc.hyps(2) by (simp add: unacked_inv_def)
    note t = ack_trim_spec [OF Suc.prems(1) _ _ _ tr]
    have s1: "unacked_inv (unacked s1)" "ulog (unacked s1) = drop 1 (ulog (unacked ss))"
      "last_ack_recv (unacked s1) = last_ack_recv (unacked ss) + 1" "retransmit_copy (unacked s1) = None"
      "freed s1 + addrs (uitems (unacked s1)) = freed ss + addrs (uitems (unacked ss))"
      using t Suc.hyps(2) Suc.prems(2) by auto
    have f1: "u_frames (unacked s1) = m"
      using s1(1,2) Suc.hyps(2) by (simp add: unacked_inv_def)
    have "resume_loop peer s1 = (ok, ss')"
      using Suc.prems(3) False f f1 tr by (subst (asm) resume_loop.simps) (simp add: Let_def)
    moreover have "unat (peer - last_ack_recv (unacked ss)) = Suc (unat (peer - last_ack_recv (unacked s1)))"
    proof -
      have e: "peer - last_ack_recv (unacked s1) = peer - last_ack_recv (unacked ss) - 1"
        by (simp add: s1(3))
      have nz: "peer - last_ack_recv (unacked ss) \<noteq> 0"
        using False by auto
      then have "0 < unat (peer - last_ack_recv (unacked ss))"
        by (simp add: unat_gt_0)
      then show ?thesis
        unfolding e unat_minus_one [OF nz] by linarith
    qed
    ultimately show ?thesis
      using Suc.hyps(1) [of s1] s1 Suc.hyps(2) by auto
  qed
qed

text \<open>C3. A resume reconciles the log with the count the peer reports having received.  It
  succeeds exactly when the peer's count lies between the last acknowledged one and that plus
  the frames outstanding -- also across the wrap-around of the sequence numbers -- and then
  exactly the frames the peer already has leave the log, and the replay starts at the first
  of the rest.  A count outside that range is rejected.  The loop over single frames
  terminates in either case.\<close>

theorem mux_unacked_resume_ack_recv_refines:
  assumes "unacked_inv (unacked ss)" "retransmit_copy (unacked ss) = None"
    "length (ulog (unacked ss)) < 2 ^ 31" "mux_unacked_resume_ack_recv ss peer = (ok, ss')"
  defines "d \<equiv> unat (peer - last_ack_recv (unacked ss))"
  shows "(ok \<longleftrightarrow> d \<le> length (ulog (unacked ss)))
    \<and> (ok \<longrightarrow> unacked_inv (unacked ss') \<and> ulog (unacked ss') = drop d (ulog (unacked ss))
        \<and> last_ack_recv (unacked ss') = peer \<and> delivered (unacked ss') = 0
        \<and> retransmit_off (unacked ss') = (if ulog (unacked ss') = [] then None else Some 0)
        \<and> freed ss' + addrs (uitems (unacked ss')) = freed ss + addrs (uitems (unacked ss)))"
proof (cases "serial_lt32 (ucast peer) (ucast (last_ack_recv (unacked ss)))")
  case True
  then have "d > 2 ^ 31"
    using unat_diff_flip_32 [of peer "last_ack_recv (unacked ss)"]
    by (simp add: serial_lt32_word d_def)
  then show ?thesis
    using True assms(3,4) by (simp add: mux_unacked_resume_ack_recv_def)
next
  case False
  obtain ok' s1 where lp: "resume_loop peer ss = (ok', s1)"
    by fastforce
  note r = resume_loop_spec [OF assms(1,2) lp, folded d_def]
  have nil: "ulog (unacked s1) = [] \<longleftrightarrow> uitems (unacked s1) = []" if "unacked_inv (unacked s1)"
    using that entry_parts(5) by (cases "uitems (unacked s1)") (auto simp: unacked_inv_def log_ok_def ulog_def)
  show ?thesis
    using r False assms(4) nil
    by (auto simp: mux_unacked_resume_ack_recv_def lp unacked_inv_def replay_ok_def delivered_def
        unacked_set_replay_off_def ring_size_items split: if_splits)
qed

section \<open>Filing\<close>

text \<open>Appending an entry that holds stream frames only.\<close>

lemma entry_whole:
  assumes "\<forall>hp\<in>set fs. frame_ok hp" "list_all stream_frame fs" "fs \<noteq> []" "f_data f = encode_frames fs"
    "f_len f < 2 ^ 32" "f_cursor f = length fs"
  shows "entry_ok f" "entry_live f = fs" "entry_acked f = []"
proof -
  have "subframes (f_data f) = Some fs"
    using subframes_encode_append [OF assms(1), of "[]"] assms(4) by simp
  then show "entry_ok f" "entry_live f = fs" "entry_acked f = []"
    using assms by (simp_all add: entry_ok_def entry_live_def entry_acked_def entry_frames_def)
qed

lemma log_ok_append:
  fixes n :: nat
  assumes "log_ok u" "ring_inv r" "ring_items r = uitems u @ [f]" "entry_ok f" "entry_acked f = []"
  defines "v \<equiv> u\<lparr>u_ring := r, u_frames := n, u_bytes := u_bytes u + payload_len (entry_live f)\<rparr>"
  shows "log_ok v" "ulog v = ulog u @ entry_live f"
proof -
  show l: "ulog v = ulog u @ entry_live f"
    using assms(3) by (simp add: v_def ulog_def)
  have "head_ok (partial_offset u) (uitems u @ [f])"
    using assms(1,5) by (cases "uitems u") (auto simp: log_ok_def)
  then show "log_ok v"
    using assms l by (simp add: log_ok_def)
qed

lemma replay_ok_append:
  assumes "replay_ok u" "uitems v = uitems u @ [f]"
    "retransmit_off v = retransmit_off u" "retransmitted_frames v = retransmitted_frames u"
    "retransmit_copy v = retransmit_copy u" "retransmit_copy_count v = retransmit_copy_count u"
    "retransmit_copy_sent v = retransmit_copy_sent u"
  shows "replay_ok v"
  using assms by (auto simp: replay_ok_def copy_ok_def usum_def nth_append split: option.splits)

lemma unacked_push_spec:
  assumes inv: "unacked_inv (unacked ss)"
    and fs: "\<forall>hp\<in>set fs. frame_ok hp" "list_all stream_frame fs" "fs \<noteq> []" "f_data f = encode_frames fs" "f_len f < 2 ^ 32"
    and ok: "fst (unacked_ring_push ss f (length fs))"
  defines "r \<equiv> unacked_push ss f (length fs)"
  shows "unacked_inv (unacked r)" "ulog (unacked r) = ulog (unacked ss) @ fs"
    "stalled (unacked r) = (stalled (unacked ss) \<or> stall_limit ss \<le> u_bytes (unacked r))"
    "uitems (unacked r) = uitems (unacked ss) @ [f\<lparr>f_cursor := length fs\<rparr>]"
    "pool r = pool ss" "wire r = wire ss" "ss_state r = ss_state ss"
    "last_ack_recv (unacked r) = last_ack_recv (unacked ss)"
    "retransmit_copy (unacked r) = retransmit_copy (unacked ss)"
    "retransmit_off (unacked r) = retransmit_off (unacked ss)"
proof -
  let ?g = "f\<lparr>f_cursor := length fs\<rparr>"
  obtain rp hp where push: "mux_frame_ring_push (heap ss) (u_ring (unacked ss)) ?g = (True, rp, hp)"
    using ok by (auto simp: unacked_ring_push_def Let_def split: prod.splits if_splits)
  have ri: "ring_inv rp \<and> ring_items rp = uitems (unacked ss) @ [?g]"
    using ring_push_refines [OF _ push] inv by (simp add: unacked_inv_def log_ok_def)
  note w = entry_whole [of fs ?g]
  have w: "entry_ok ?g" "entry_live ?g = fs" "entry_acked ?g = []"
    by (rule w; use fs in simp)+
  have b: "f_len f - length fs * MUX_FRAME_HEADER_SIZE = payload_len fs"
    using fs(4) by (simp add: length_encode_frames)
  define v where "v = (unacked ss)\<lparr>u_ring := rp, u_frames := u_frames (unacked ss) + length fs,
    u_bytes := u_bytes (unacked ss) + payload_len (entry_live ?g)\<rparr>"
  have v: "log_ok v" "ulog v = ulog (unacked ss) @ fs"
    using log_ok_append [of "unacked ss" rp ?g] inv ri w by (simp_all add: v_def unacked_inv_def)
  have rep: "replay_ok v"
    by (rule replay_ok_append [of "unacked ss" _ ?g]) (use inv ri in \<open>simp_all add: v_def unacked_inv_def\<close>)
  have rr: "unacked r = (if \<not> stalled (unacked ss) \<and> stall_limit ss \<le> u_bytes v then v\<lparr>stalled := True\<rparr> else v)"
    "pool r = pool ss" "wire r = wire ss" "ss_state r = ss_state ss"
    by (simp_all add: r_def unacked_push_def unacked_ring_push_def push b w v_def stall_limit_def)
  have rs: "replay_ok (v\<lparr>stalled := b\<rparr>) = replay_ok v" for b
    by (simp add: replay_ok_def copy_ok_def split: option.split)
  have vf: "u_frames v = length (ulog v)" "uitems v = uitems (unacked ss) @ [?g]" "stalled v = stalled (unacked ss)"
    "last_ack_recv v = last_ack_recv (unacked ss)" "retransmit_copy v = retransmit_copy (unacked ss)"
    "retransmit_off v = retransmit_off (unacked ss)"
    using inv v(2) ri by (simp_all add: v_def unacked_inv_def)
  show "unacked_inv (unacked r)" "ulog (unacked r) = ulog (unacked ss) @ fs"
    "stalled (unacked r) = (stalled (unacked ss) \<or> stall_limit ss \<le> u_bytes (unacked r))"
    "uitems (unacked r) = uitems (unacked ss) @ [f\<lparr>f_cursor := length fs\<rparr>]"
    "pool r = pool ss" "wire r = wire ss" "ss_state r = ss_state ss"
    "last_ack_recv (unacked r) = last_ack_recv (unacked ss)"
    "retransmit_copy (unacked r) = retransmit_copy (unacked ss)"
    "retransmit_off (unacked r) = retransmit_off (unacked ss)"
    using v rep vf rs by (auto simp: rr unacked_inv_def)
qed

text \<open>What \<^verbatim>\<open>mux_unacked_track_sent\<close> does with a frame that is neither a hello nor the
  replay copy: strip the session-level controls and file the rest.\<close>

lemma track_sent_eq:
  assumes "subframes (f_data f) = Some (hp # fs)" "h_version (fst hp) \<noteq> 0"
    "retransmit_copy (unacked ss) \<noteq> Some (f_addr f)"
  defines "kept \<equiv> filter stream_frame (hp # fs)"
  shows "mux_unacked_track_sent ss f =
    (if kept = [] then pool_put f ss else unacked_push ss (f\<lparr>f_data := encode_frames kept\<rparr>) (length kept))"
proof -
  note d = subframes_SomeD [OF assms(1)]
  have data: "f_data f = encode_frame hp @ encode_frames fs" "frame_ok hp" "\<forall>hp\<in>set fs. frame_ok hp"
    using d by auto
  have h: "mux_read_header (f_data f) = fst hp"
    by (simp add: data)
  have one: "MUX_FRAME_HEADER_SIZE + unat (h_length (fst hp)) = f_len f \<longleftrightarrow> fs = []"
    using data(2) by (cases fs) (auto simp: data(1) frame_ok_def)
  show ?thesis
  proof (cases "fs = []")
    case True
    then have f: "f\<lparr>f_data := encode_frame hp\<rparr> = f"
      using data(1) by simp
    show ?thesis
      using assms(2,3) one f True
      by (simp add: mux_unacked_track_sent_def Let_def h kept_def stream_frame_def)
  next
    case False
    obtain data' where c: "compact_loop (f_data f) (f_len f) 0 0 0 = Some (data', length (encode_frames kept), length kept)"
      "take (length (encode_frames kept)) data' = encode_frames kept"
      using compact_loop_keeps [of "hp # fs" "[]" 0 "[]" 0 "f_len f" 0] d data
      by (auto simp: kept_def)
    show ?thesis
      using assms(2,3) one False c by (simp add: mux_unacked_track_sent_def Let_def h)
  qed
qed

text \<open>C4. Handing a flushed send-queue entry to the log appends exactly the frames of streams
  it carries, in order; session-level controls are dropped, and an entry of controls only
  goes straight back to the pool.  The frame and byte totals, the replay bookkeeping and the
  send-stall gate stay exact.  If the log cannot grow the session is reset, because the peer
  may acknowledge frames the log has lost.\<close>

theorem mux_unacked_track_sent_refines:
  assumes "unacked_inv (unacked ss)" "subframes (f_data f) = Some (hp # fs)" "h_version (fst hp) \<noteq> 0"
    "f_len f < 2 ^ 32" "retransmit_copy (unacked ss) \<noteq> Some (f_addr f)"
  defines "kept \<equiv> filter stream_frame (hp # fs)" and "r \<equiv> mux_unacked_track_sent ss f"
  defines "push \<equiv> unacked_ring_push ss (f\<lparr>f_data := encode_frames kept\<rparr>) (length kept)"
  shows "if kept = [] then r = pool_put f ss
    else if fst push then unacked_inv (unacked r) \<and> ulog (unacked r) = ulog (unacked ss) @ kept
      \<and> stalled (unacked r) = (stalled (unacked ss) \<or> stall_limit ss \<le> payload_len (ulog (unacked r)))
      \<and> freed r + addrs (uitems (unacked r)) = freed ss + addrs (uitems (unacked ss)) + {#f_addr f#}
    else r = mux_session_reset (pool_put f (snd push))"
proof -
  note d = subframes_SomeD [OF assms(2)]
  note e = track_sent_eq [OF assms(2,3,5), folded kept_def r_def]
  let ?f = "f\<lparr>f_data := encode_frames kept\<rparr>"
  have le: "length (encode_frames (filter stream_frame xs)) \<le> length (encode_frames xs)" for xs
    by (induction xs) auto
  have len: "f_len ?f < 2 ^ 32"
    using le [of "hp # fs"] d assms(4) by (simp add: kept_def del: encode_frames_simps)
  have ok: "\<forall>hp\<in>set kept. frame_ok hp" "list_all stream_frame kept"
    using d by (auto simp: kept_def list_all_iff)
  show ?thesis
  proof (cases "kept = [] \<or> \<not> fst push")
    case True
    then show ?thesis
      by (auto simp: e push_def unacked_push_def case_prod_beta Let_def pool_put_def mux_frame_put_def)
  next
    case False
    then have ne: "kept \<noteq> []" and p: "fst push"
      by auto
    have r: "r = unacked_push ss ?f (length kept)"
      using ne by (simp add: e)
    note sp = unacked_push_spec [OF assms(1) ok ne _ len, folded push_def r, OF _ p, simplified]
    have "u_bytes (unacked r) = payload_len (ulog (unacked r))"
      using sp(1) by (simp add: unacked_inv_def log_ok_def)
    then show ?thesis
      using ne p sp by (simp add: freed_def)
  qed
qed

section \<open>Examples\<close>

text \<open>A session whose log holds one data frame and a reset, filed from an entry that also
  carried a session-level control frame.\<close>

definition sample_hdr :: "nat \<Rightarrow> nat \<Rightarrow> nat \<Rightarrow> mux_header" where
  "sample_hdr flags len i = \<lparr>h_version = 1, h_flags = of_nat flags, h_length = of_nat len, h_stream_id = of_nat i, h_extra = 0\<rparr>"

definition sample_entry :: mux_frame where
  "sample_entry = sample_frame 5 (encode_frames
    [(sample_hdr 8 3 1, [1, 2, 3]), (sample_hdr 16 0 0, []), (sample_hdr 4 0 3, [])])"

definition sample_kept :: "wire_frame list" where
  "sample_kept = [(sample_hdr 8 3 1, [1, 2, 3]), (sample_hdr 4 0 3, [])]"

definition sample_fresh :: mux_session where
  "sample_fresh = sample_session\<lparr>unacked := zero_unacked\<lparr>retransmit_off := None\<rparr>, session_window := 64\<rparr>"

definition sample_logged :: mux_session where
  "sample_logged = unacked_push sample_fresh (sample_frame 5 (encode_frames sample_kept)) 2"

lemma sample_fresh_facts:
  "unacked_inv (unacked sample_fresh)" "ulog (unacked sample_fresh) = []" "last_ack_recv (unacked sample_fresh) = 0"
  "retransmit_copy (unacked sample_fresh) = None" "retransmit_off (unacked sample_fresh) = None"
  "fst (unacked_ring_push sample_fresh f n)"
  by (simp_all add: sample_fresh_def sample_session_def zero_session_def zero_unacked_def unacked_inv_def log_ok_def
      ulog_def replay_ok_def unacked_ring_push_def mux_frame_ring_push_def mux_frame_ring_new_def
      ring_push_slot_def heap_request_def sample_heap_def MUX_FRAME_RING_MIN_def Let_def)

lemma sample_kept_facts:
  "\<forall>hp\<in>set sample_kept. frame_ok hp" "list_all stream_frame sample_kept" "sample_kept \<noteq> []"
  "f_data (sample_frame 5 (encode_frames sample_kept)) = encode_frames sample_kept"
  "f_len (sample_frame 5 (encode_frames sample_kept)) < 2 ^ 32" "length sample_kept = 2"
  by (simp_all add: sample_kept_def frame_ok_def stream_frame_def sample_hdr_def sample_frame_def STREAMID_CTRL_def
      MUX_FRAME_HEADER_SIZE_def)

lemma sample_logged_facts:
  "unacked_inv (unacked sample_logged)" "ulog (unacked sample_logged) = sample_kept"
  "last_ack_recv (unacked sample_logged) = 0" "retransmit_copy (unacked sample_logged) = None"
  "retransmit_off (unacked sample_logged) = None"
  using unacked_push_spec [OF sample_fresh_facts(1) sample_kept_facts(1-5) sample_fresh_facts(6)]
  by (simp_all add: sample_logged_def sample_kept_facts sample_fresh_facts)

theorem mux_unacked_track_sent_refines_witness:
  "ulog (unacked (mux_unacked_track_sent sample_fresh sample_entry)) = sample_kept"
proof -
  have "subframes (f_data sample_entry) =
      Some [(sample_hdr 8 3 1, [1, 2, 3]), (sample_hdr 16 0 0, []), (sample_hdr 4 0 3, [])]"
    using subframes_encode_append [of "[(sample_hdr 8 3 1, [1, 2, 3]), (sample_hdr 16 0 0, []), (sample_hdr 4 0 3, [])]" "[]"]
    by (simp add: sample_entry_def sample_frame_def frame_ok_def sample_hdr_def)
  then show ?thesis
    using mux_unacked_track_sent_refines [of sample_fresh sample_entry "(sample_hdr 8 3 1, [1, 2, 3])"
        "[(sample_hdr 16 0 0, []), (sample_hdr 4 0 3, [])]"] sample_fresh_facts
    by (simp add: sample_hdr_def sample_entry_def sample_frame_def MUX_FRAME_HEADER_SIZE_def stream_frame_def
        STREAMID_CTRL_def sample_kept_def)
qed

theorem mux_unacked_ack_recv_refines_witness:
  "ulog (unacked (snd (mux_unacked_ack_recv sample_logged 1))) = [(sample_hdr 4 0 3, [])]
    \<and> trimmed_bytes (fst (mux_unacked_ack_recv sample_logged 1)) = 3
    \<and> \<not> r_ok (fst (mux_unacked_ack_recv sample_logged 3))"
proof -
  have d: "delivered (unacked sample_logged) = 2"
    by (simp add: delivered_def sample_logged_facts sample_kept_facts)
  show ?thesis
    using mux_unacked_ack_recv_refines [OF sample_logged_facts(1) surjective_pairing, of 1]
      mux_unacked_ack_recv_refines [OF sample_logged_facts(1) surjective_pairing, of 3] d
    by (simp add: sample_logged_facts sample_kept_def)
qed

theorem mux_unacked_resume_ack_recv_refines_witness:
  "fst (mux_unacked_resume_ack_recv sample_logged 1)
    \<and> ulog (unacked (snd (mux_unacked_resume_ack_recv sample_logged 1))) = [(sample_hdr 4 0 3, [])]
    \<and> retransmit_off (unacked (snd (mux_unacked_resume_ack_recv sample_logged 1))) = Some 0
    \<and> \<not> fst (mux_unacked_resume_ack_recv sample_logged 3)"
  using mux_unacked_resume_ack_recv_refines [OF sample_logged_facts(1,4) _ surjective_pairing, of 1]
    mux_unacked_resume_ack_recv_refines [OF sample_logged_facts(1,4) _ surjective_pairing, of 3]
  by (simp add: sample_logged_facts sample_kept_def)

end
