(* ===== verification/Sched_Queue.thy ===== *)
theory Sched_Queue
  imports Teardown
begin

text \<open>
  The stream table and the queues of the scheduler (\<^verbatim>\<open>mux/sched.c\<close>): insertion,
  lookup and the allocation of stream IDs; the ready queue, the lifecycle queue and the
  coalescing list; and the close of a stream that feeds them
  (\<^verbatim>\<open>stream_mark_closed\<close> and its callers in \<^verbatim>\<open>mux/stream.c\<close>).  The C queues are
  linked through the stream objects, so a stream freed while still linked would be a dangling
  pointer; the invariant \<open>sched_inv\<close> excludes it, and the theory shows that every
  queue operation keeps it.
\<close>

section \<open>The stream table\<close>

definition mux_sched_find_stream :: "mux_session \<Rightarrow> u16 \<Rightarrow> u16 option" where
  "mux_sched_find_stream ss stream_id =
    (case streams (sched ss) of
       None \<Rightarrow> None
     | Some t \<Rightarrow> if stream_id \<in> fst ` set t then Some stream_id else None)"

text \<open>A session without a table gets an empty one when a transport is attached; without memory for
  it the attachment fails.\<close>

definition session_new_table :: "mux_session \<Rightarrow> bool \<times> mux_session" where
  "session_new_table ss =
    (if streams (sched ss) \<noteq> None then (True, ss)
     else let (ok, hp) = heap_request (heap ss); ss = ss\<lparr>heap := hp\<rparr> in
     if \<not> ok then (False, ss)
     else (True, ss\<lparr>sched := (sched ss)\<lparr>streams := Some []\<rparr>\<rparr>))"

text \<open>Inserting may have to allocate; every outcome of that is covered by taking one answer of
  the allocator.  Inserting into no table fails and does not create one.\<close>

definition mux_sched_add_stream :: "mux_session \<Rightarrow> mux_stream \<Rightarrow> bool \<times> mux_session" where
  "mux_sched_add_stream ss s =
    (case streams (sched ss) of
       None \<Rightarrow> (False, ss)
     | Some t \<Rightarrow>
         (if s_id s \<in> fst ` set t then (False, ss)
          else let (ok, hp) = heap_request (heap ss); ss = ss\<lparr>heap := hp\<rparr> in
          if \<not> ok then (False, ss)
          else (True, ss\<lparr>sched := (sched ss)\<lparr>streams := Some ((s_id s, s) # t)\<rparr>,
                         w_idle_timeout := ev_timer_stop (w_idle_timeout ss)\<rparr>)))"

text \<open>The search loop of the allocator: \<open>n\<close> rounds, each trying one ID.\<close>

fun alloc_loop :: "u16 set \<Rightarrow> nat \<Rightarrow> u16 \<Rightarrow> u16 option" where
  "alloc_loop used 0 i = None"
| "alloc_loop used (Suc n) i =
    (if i \<noteq> STREAMID_CTRL \<and> i \<notin> used then Some i
     else alloc_loop used n (ucast (serial_add16 (ucast i) 2)))"

definition mux_sched_alloc_stream_id :: "mux_session \<Rightarrow> u16 \<times> mux_session" where
  "mux_sched_alloc_stream_id ss =
    (let parity = (if accepted ss then 0 else 1);
         i = next_stream_id (sched ss);
         i = (if i AND 1 \<noteq> parity \<or> i = 0 then (if parity = 1 then 1 else 2) else i)
     in case alloc_loop (fst ` set (tab ss)) 32768 i of
          None \<Rightarrow> (STREAMID_CTRL, ss)
        | Some i \<Rightarrow> (i, ss\<lparr>sched := (sched ss)\<lparr>next_stream_id := ucast (serial_add16 (ucast i) 2)\<rparr>\<rparr>))"

section \<open>The queues\<close>

definition sched_enqueue :: "u16 \<Rightarrow> mux_session \<Rightarrow> mux_session" where
  "sched_enqueue i ss =
    (let s = stm ss i in
     if s_sched_queue s = SCHED_QUEUE_NONE \<and> drr_active (sched ss) \<noteq> Some i \<and> \<not> t_active (s_tombstone s)
     then let ss = upd_stm i (\<lambda>s. s\<lparr>s_sched_queue := SCHED_QUEUE_DRR\<rparr>) ss
          in ss\<lparr>sched := (sched ss)\<lparr>sched_fifo := sched_fifo (sched ss) @ [i]\<rparr>\<rparr>
     else ss)"

definition sched_lp_enqueue :: "u16 \<Rightarrow> mux_session \<Rightarrow> mux_session" where
  "sched_lp_enqueue i ss =
    (let s = stm ss i in
     if s_sched_queue s = SCHED_QUEUE_DRR \<or> drr_active (sched ss) = Some i then ss
     else if t_active (s_tombstone s) then ss
     else if s_sched_queue s = SCHED_QUEUE_NONE
     then let ss = upd_stm i (\<lambda>s. s\<lparr>s_sched_queue := SCHED_QUEUE_LP\<rparr>) ss
          in ss\<lparr>sched := (sched ss)\<lparr>lp_fifo := lp_fifo (sched ss) @ [i]\<rparr>\<rparr>
     else ss)"

definition mux_sched_schedule :: "mux_session \<Rightarrow> mux_session" where
  "mux_sched_schedule ss =
    (if lp_fifo (sched ss) = [] \<or> sendbuf (wire ss) \<noteq> [] then ss
     else mux_session_notify (ss\<lparr>sched := (sched ss)\<lparr>lp_pending := True\<rparr>\<rparr>))"

definition set_tx_pending :: "mux_session \<Rightarrow> mux_session" where
  "set_tx_pending ss = ss\<lparr>wire := (wire ss)\<lparr>tx_pending := True\<rparr>\<rparr>"

definition mux_sched_wake :: "mux_session \<Rightarrow> u16 \<Rightarrow> mux_session" where
  "mux_sched_wake ss i =
    (if ss_state ss \<noteq> SESSION_ESTABLISHED then sched_enqueue i ss
     else if s_state (stm ss i) = STREAM_INIT \<or> s_state (stm ss i) = STREAM_CLOSED
     then let ss = sched_lp_enqueue i ss
          in mux_session_notify (if sendbuf (wire ss) = [] then mux_sched_schedule ss else set_tx_pending ss)
     else mux_session_notify (set_tx_pending (sched_enqueue i ss)))"

definition sched_dequeue :: "mux_session \<Rightarrow> u16 option \<times> mux_session" where
  "sched_dequeue ss =
    (case sched_fifo (sched ss) of
       [] \<Rightarrow> (None, ss)
     | i # q \<Rightarrow> (Some i, upd_stm i (\<lambda>s. s\<lparr>s_sched_queue := SCHED_QUEUE_NONE\<rparr>)
         (ss\<lparr>sched := (sched ss)\<lparr>sched_fifo := q\<rparr>\<rparr>)))"

definition mux_sched_coalesce_arm :: "mux_session \<Rightarrow> mux_session" where
  "mux_sched_coalesce_arm ss =
    (if \<not> t_active (w_coalesce (sched ss))
     then ss\<lparr>sched := (sched ss)\<lparr>w_coalesce := ev_timer_again (w_coalesce (sched ss))\<rparr>\<rparr> else ss)"

definition mux_sched_delay :: "u16 \<Rightarrow> u8 \<Rightarrow> mux_session \<Rightarrow> mux_session" where
  "mux_sched_delay i ticks ss =
    (let s = stm ss i in
     if s_delay_pending s
     then (if ticks < s_delay_ticks s then upd_stm i (\<lambda>s. s\<lparr>s_delay_ticks := ticks\<rparr>) ss else ss)
     else let ss = upd_stm i (\<lambda>s. s\<lparr>s_delay_pending := True, s_delay_ticks := ticks\<rparr>) ss;
              ss = (if delay_list (sched ss) = [] then mux_sched_coalesce_arm ss else ss)
          in ss\<lparr>sched := (sched ss)\<lparr>delay_list := i # delay_list (sched ss)\<rparr>\<rparr>)"

section \<open>Removing and closing a stream\<close>

text \<open>Unlink from the table; the caller then frees the object it is handed.\<close>

definition sched_remove_stream :: "u16 \<Rightarrow> mux_session \<Rightarrow> mux_session" where
  "sched_remove_stream i ss =
    (case map_of (tab ss) i of
       None \<Rightarrow> ss
     | Some s \<Rightarrow>
         (let ss = ss\<lparr>sched := (sched ss)\<lparr>streams := map_option (filter (\<lambda>(j, s). j \<noteq> i)) (streams (sched ss))\<rparr>\<rparr>;
              ss = (if s_state s \<noteq> STREAM_CLOSED then counter_add num_stream_failed 1 ss
                    else ss\<lparr>sched := (sched ss)\<lparr>num_closed := num_closed (sched ss) - 1\<rparr>\<rparr>)
          in mux_sched_check_no_active_streams ss))"

definition MUX_TOMBSTONE_PERIOD_S :: rat where "MUX_TOMBSTONE_PERIOD_S = 10"

text \<open>The socket of a stream that ends is closed at most once.\<close>

definition close_stream_fd :: "u16 \<Rightarrow> mux_session \<Rightarrow> mux_session" where
  "close_stream_fd i ss =
    (let s = stm ss i in
     if \<not> s_is_direct s \<and> io_fd (s_io s) \<noteq> - 1
     then upd_stm i (\<lambda>s. s\<lparr>s_io := (s_io s)\<lparr>io_fd := - 1\<rparr>\<rparr>) (put_out (Out_close_fd (io_fd (s_io s))) ss)
     else ss)"

definition stream_mark_closed :: "u16 \<Rightarrow> mux_session \<Rightarrow> mux_session" where
  "stream_mark_closed i ss =
    (let was_init = (s_state (stm ss i) = STREAM_INIT);
         ss = on_stm i stream_stop ss;
         ss = on_stm i stream_release_buffers ss;
         ss = close_stream_fd i ss;
         s = stm ss i;
         ss = counter_add (if s_rst_received s \<or> s_rst_sent s \<or> s_aborted s
                then num_stream_failed else num_stream_succeeded) 1 ss;
         ss = on_stm i (stream_set_state STREAM_CLOSED) ss;
         ss = ss\<lparr>sched := (sched ss)\<lparr>num_closed := num_closed (sched ss) + 1\<rparr>\<rparr>
     in if \<not> was_init
        then let ss = ss\<lparr>sched := (sched ss)\<lparr>num_tombstones := num_tombstones (sched ss) + 1\<rparr>\<rparr>;
                 ss = upd_stm i (\<lambda>s. s\<lparr>s_tombstone := ev_timer_start
                        (ev_timer_set (s_tombstone s) MUX_TOMBSTONE_PERIOD_S 0)\<rparr>) ss
             in mux_sched_check_no_active_streams ss
        else mux_sched_wake ss i)"

definition stream_hand_over_rejected :: "u16 \<Rightarrow> mux_session \<Rightarrow> mux_session" where
  "stream_hand_over_rejected i ss =
    (if \<not> s_pending_attach (stm ss i) then ss
     else let ss = upd_stm i (\<lambda>s. s\<lparr>s_pending_attach := False\<rparr>) ss in
     if s_state (stm ss i) \<noteq> STREAM_CLOSED \<or> s_orphaned (stm ss i) then ss
     else mux_sched_wake ss i)"

text \<open>The release of a stream that still is in the table.\<close>

definition mux_stream_do_release :: "u16 \<Rightarrow> mux_session \<Rightarrow> mux_session" where
  "mux_stream_do_release i ss =
    (if \<not> mux_stream_app_held (stm ss i) then ss
     else let ss = upd_stm i (\<lambda>s. s\<lparr>s_user_closed := s_user_closed s \<or> s_is_direct s, s_pending_attach := False\<rparr>) ss
          in if t_active (s_tombstone (stm ss i)) then ss else mux_sched_wake ss i)"

text \<open>The release of a stream whose session tore the table down: it is on the orphan list at
  position \<open>k\<close>, and nothing else refers to it.\<close>

definition mux_orphan_do_release :: "nat \<Rightarrow> mux_session \<Rightarrow> mux_session" where
  "mux_orphan_do_release k ss =
    (if \<not> mux_stream_app_held (orphans (sched ss) ! k) then ss else mux_sched_free_orphan ss k)"

text \<open>The tombstone timer is a one-shot timer: it is inactive when its callback runs.\<close>

definition tombstone_cb :: "u16 \<Rightarrow> mux_session \<Rightarrow> mux_session" where
  "tombstone_cb i ss =
    (let ss = upd_stm i (\<lambda>s. s\<lparr>s_tombstone := ev_timer_stop (s_tombstone s)\<rparr>) ss;
         ss = ss\<lparr>sched := (sched ss)\<lparr>num_tombstones := num_tombstones (sched ss) - 1\<rparr>\<rparr>
     in mux_sched_wake ss i)"

section \<open>Table updates\<close>

definition keys :: "mux_session \<Rightarrow> u16 set" where
  "keys ss = fst ` set (tab ss)"

fun tally :: "(mux_stream \<Rightarrow> bool) \<Rightarrow> (u16 \<times> mux_stream) list \<Rightarrow> nat" where
  "tally P [] = 0"
| "tally P ((i, s) # t) = of_bool (P s) + tally P t"

lemma put_entry_simps [simp]:
  "put_entry i s [] = []"
  "put_entry i s ((j, s') # t) = (j, if j = i then s else s') # put_entry i s t"
  by (simp_all add: put_entry_def)

lemma fst_put_entry [simp]: "map fst (put_entry i s t) = map fst t"
  by (induction t) auto

lemma put_entry_none: "i \<notin> fst ` set t \<Longrightarrow> put_entry i s t = t"
  by (induction t) auto

lemma map_of_put_entry:
  "map_of (put_entry i s t) j = (if j = i \<and> i \<in> fst ` set t then Some s else map_of t j)"
  by (induction t) force+

lemma tally_put_entry:
  "distinct (map fst t) \<Longrightarrow> map_of t i = Some s0 \<Longrightarrow>
    tally P (put_entry i s t) + of_bool (P s0) = tally P t + of_bool (P s)"
  by (induction t) (auto simp: put_entry_none split: if_splits)

lemma tab_update [simp]:
  "tab (ss\<lparr>conf := x_conf\<rparr>) = tab ss" "tab (ss\<lparr>pool := x_pool\<rparr>) = tab ss"
  "tab (ss\<lparr>heap := x_heap\<rparr>) = tab ss" "tab (ss\<lparr>os := x_os\<rparr>) = tab ss"
  "tab (ss\<lparr>cb := x_cb\<rparr>) = tab ss" "tab (ss\<lparr>max_payload := x_max_payload\<rparr>) = tab ss"
  "tab (ss\<lparr>readahead := x_readahead\<rparr>) = tab ss" "tab (ss\<lparr>cnt := x_cnt\<rparr>) = tab ss"
  "tab (ss\<lparr>num_halfopen := x_num_halfopen\<rparr>) = tab ss"
  "tab (ss\<lparr>recv_buffered_bytes := x_recv_buffered_bytes\<rparr>) = tab ss"
  "tab (ss\<lparr>send_buffered_frames := x_send_buffered_frames\<rparr>) = tab ss"
  "tab (ss\<lparr>last_connect_latency_ns := x_last_connect_latency_ns\<rparr>) = tab ss"
  "tab (ss\<lparr>bytes_recv := x_bytes_recv\<rparr>) = tab ss"
  "tab (ss\<lparr>ping_recv_last_ns := x_ping_recv_last_ns\<rparr>) = tab ss"
  "tab (ss\<lparr>ss_state := x_ss_state\<rparr>) = tab ss"
  "tab (ss\<lparr>last_modified := x_last_modified\<rparr>) = tab ss"
  "tab (ss\<lparr>peer_addr_set := x_peer_addr_set\<rparr>) = tab ss"
  "tab (ss\<lparr>w_socket := x_w_socket\<rparr>) = tab ss"
  "tab (ss\<lparr>w_timeout := x_w_timeout\<rparr>) = tab ss"
  "tab (ss\<lparr>w_keepalive := x_w_keepalive\<rparr>) = tab ss"
  "tab (ss\<lparr>w_send_timeout := x_w_send_timeout\<rparr>) = tab ss"
  "tab (ss\<lparr>w_connect_timeout := x_w_connect_timeout\<rparr>) = tab ss"
  "tab (ss\<lparr>w_idle_timeout := x_w_idle_timeout\<rparr>) = tab ss"
  "tab (ss\<lparr>accepted := x_accepted\<rparr>) = tab ss"
  "tab (ss\<lparr>auto_stream_window := x_auto_stream_window\<rparr>) = tab ss"
  "tab (ss\<lparr>auto_session_window := x_auto_session_window\<rparr>) = tab ss"
  "tab (ss\<lparr>draining := x_draining\<rparr>) = tab ss"
  "tab (ss\<lparr>session_window := x_session_window\<rparr>) = tab ss"
  "tab (ss\<lparr>stream_window := x_stream_window\<rparr>) = tab ss"
  "tab (ss\<lparr>peer_stream_window := x_peer_stream_window\<rparr>) = tab ss"
  "tab (ss\<lparr>pub_state := x_pub_state\<rparr>) = tab ss"
  "tab (ss\<lparr>pub_stream_window := x_pub_stream_window\<rparr>) = tab ss"
  "tab (ss\<lparr>pub_peer_stream_window := x_pub_peer_stream_window\<rparr>) = tab ss"
  "tab (ss\<lparr>pub_rtt := x_pub_rtt\<rparr>) = tab ss"
  "tab (ss\<lparr>pub_bdp_rx := x_pub_bdp_rx\<rparr>) = tab ss"
  "tab (ss\<lparr>pub_bdp_tx := x_pub_bdp_tx\<rparr>) = tab ss" "tab (ss\<lparr>wire := x_wire\<rparr>) = tab ss"
  "tab (ss\<lparr>unacked := x_unacked\<rparr>) = tab ss" "tab (ss\<lparr>handshake := x_handshake\<rparr>) = tab ss"
  "tab (ss\<lparr>estimator := x_estimator\<rparr>) = tab ss"
  "tab (ss\<lparr>connect_started := x_connect_started\<rparr>) = tab ss"
  "tab (ss\<lparr>suspended_at := x_suspended_at\<rparr>) = tab ss" "tab (ss\<lparr>out := x_out\<rparr>) = tab ss"
  by (simp_all add: tab_def)

lemma tab_sched [simp]: "streams sc = streams (sched ss) \<Longrightarrow> tab (ss\<lparr>sched := sc\<rparr>) = tab ss"
  by (simp add: tab_def)

lemma tab_ops [simp]:
  "tab (counter_add c n ss) = tab ss" "tab (counter_sub c n ss) = tab ss" "tab (put_out x ss) = tab ss"
  "tab (session_emit ss e) = tab ss" "tab (pool_put f ss) = tab ss" "tab (pool_put_all fs ss) = tab ss"
  "tab (mux_session_notify ss) = tab ss" "tab (mux_session_update_watcher ss) = tab ss"
  "tab (set_tx_pending ss) = tab ss"
  by (simp_all add: tab_def set_tx_pending_def)

lemma stm_update [simp]:
  "stm (ss\<lparr>conf := x_conf\<rparr>) i = stm ss i" "stm (ss\<lparr>pool := x_pool\<rparr>) i = stm ss i"
  "stm (ss\<lparr>heap := x_heap\<rparr>) i = stm ss i" "stm (ss\<lparr>os := x_os\<rparr>) i = stm ss i"
  "stm (ss\<lparr>cb := x_cb\<rparr>) i = stm ss i"
  "stm (ss\<lparr>max_payload := x_max_payload\<rparr>) i = stm ss i"
  "stm (ss\<lparr>readahead := x_readahead\<rparr>) i = stm ss i" "stm (ss\<lparr>cnt := x_cnt\<rparr>) i = stm ss i"
  "stm (ss\<lparr>num_halfopen := x_num_halfopen\<rparr>) i = stm ss i"
  "stm (ss\<lparr>recv_buffered_bytes := x_recv_buffered_bytes\<rparr>) i = stm ss i"
  "stm (ss\<lparr>send_buffered_frames := x_send_buffered_frames\<rparr>) i = stm ss i"
  "stm (ss\<lparr>last_connect_latency_ns := x_last_connect_latency_ns\<rparr>) i = stm ss i"
  "stm (ss\<lparr>bytes_recv := x_bytes_recv\<rparr>) i = stm ss i"
  "stm (ss\<lparr>ping_recv_last_ns := x_ping_recv_last_ns\<rparr>) i = stm ss i"
  "stm (ss\<lparr>ss_state := x_ss_state\<rparr>) i = stm ss i"
  "stm (ss\<lparr>last_modified := x_last_modified\<rparr>) i = stm ss i"
  "stm (ss\<lparr>peer_addr_set := x_peer_addr_set\<rparr>) i = stm ss i"
  "stm (ss\<lparr>w_socket := x_w_socket\<rparr>) i = stm ss i"
  "stm (ss\<lparr>w_timeout := x_w_timeout\<rparr>) i = stm ss i"
  "stm (ss\<lparr>w_keepalive := x_w_keepalive\<rparr>) i = stm ss i"
  "stm (ss\<lparr>w_send_timeout := x_w_send_timeout\<rparr>) i = stm ss i"
  "stm (ss\<lparr>w_connect_timeout := x_w_connect_timeout\<rparr>) i = stm ss i"
  "stm (ss\<lparr>w_idle_timeout := x_w_idle_timeout\<rparr>) i = stm ss i"
  "stm (ss\<lparr>accepted := x_accepted\<rparr>) i = stm ss i"
  "stm (ss\<lparr>auto_stream_window := x_auto_stream_window\<rparr>) i = stm ss i"
  "stm (ss\<lparr>auto_session_window := x_auto_session_window\<rparr>) i = stm ss i"
  "stm (ss\<lparr>draining := x_draining\<rparr>) i = stm ss i"
  "stm (ss\<lparr>session_window := x_session_window\<rparr>) i = stm ss i"
  "stm (ss\<lparr>stream_window := x_stream_window\<rparr>) i = stm ss i"
  "stm (ss\<lparr>peer_stream_window := x_peer_stream_window\<rparr>) i = stm ss i"
  "stm (ss\<lparr>pub_state := x_pub_state\<rparr>) i = stm ss i"
  "stm (ss\<lparr>pub_stream_window := x_pub_stream_window\<rparr>) i = stm ss i"
  "stm (ss\<lparr>pub_peer_stream_window := x_pub_peer_stream_window\<rparr>) i = stm ss i"
  "stm (ss\<lparr>pub_rtt := x_pub_rtt\<rparr>) i = stm ss i"
  "stm (ss\<lparr>pub_bdp_rx := x_pub_bdp_rx\<rparr>) i = stm ss i"
  "stm (ss\<lparr>pub_bdp_tx := x_pub_bdp_tx\<rparr>) i = stm ss i"
  "stm (ss\<lparr>wire := x_wire\<rparr>) i = stm ss i" "stm (ss\<lparr>unacked := x_unacked\<rparr>) i = stm ss i"
  "stm (ss\<lparr>handshake := x_handshake\<rparr>) i = stm ss i"
  "stm (ss\<lparr>estimator := x_estimator\<rparr>) i = stm ss i"
  "stm (ss\<lparr>connect_started := x_connect_started\<rparr>) i = stm ss i"
  "stm (ss\<lparr>suspended_at := x_suspended_at\<rparr>) i = stm ss i"
  "stm (ss\<lparr>out := x_out\<rparr>) i = stm ss i"
  by (simp_all add: stm_def)

lemma keys_update [simp]:
  "keys (ss\<lparr>conf := x_conf\<rparr>) = keys ss" "keys (ss\<lparr>pool := x_pool\<rparr>) = keys ss"
  "keys (ss\<lparr>heap := x_heap\<rparr>) = keys ss" "keys (ss\<lparr>os := x_os\<rparr>) = keys ss"
  "keys (ss\<lparr>cb := x_cb\<rparr>) = keys ss" "keys (ss\<lparr>max_payload := x_max_payload\<rparr>) = keys ss"
  "keys (ss\<lparr>readahead := x_readahead\<rparr>) = keys ss" "keys (ss\<lparr>cnt := x_cnt\<rparr>) = keys ss"
  "keys (ss\<lparr>num_halfopen := x_num_halfopen\<rparr>) = keys ss"
  "keys (ss\<lparr>recv_buffered_bytes := x_recv_buffered_bytes\<rparr>) = keys ss"
  "keys (ss\<lparr>send_buffered_frames := x_send_buffered_frames\<rparr>) = keys ss"
  "keys (ss\<lparr>last_connect_latency_ns := x_last_connect_latency_ns\<rparr>) = keys ss"
  "keys (ss\<lparr>bytes_recv := x_bytes_recv\<rparr>) = keys ss"
  "keys (ss\<lparr>ping_recv_last_ns := x_ping_recv_last_ns\<rparr>) = keys ss"
  "keys (ss\<lparr>ss_state := x_ss_state\<rparr>) = keys ss"
  "keys (ss\<lparr>last_modified := x_last_modified\<rparr>) = keys ss"
  "keys (ss\<lparr>peer_addr_set := x_peer_addr_set\<rparr>) = keys ss"
  "keys (ss\<lparr>w_socket := x_w_socket\<rparr>) = keys ss"
  "keys (ss\<lparr>w_timeout := x_w_timeout\<rparr>) = keys ss"
  "keys (ss\<lparr>w_keepalive := x_w_keepalive\<rparr>) = keys ss"
  "keys (ss\<lparr>w_send_timeout := x_w_send_timeout\<rparr>) = keys ss"
  "keys (ss\<lparr>w_connect_timeout := x_w_connect_timeout\<rparr>) = keys ss"
  "keys (ss\<lparr>w_idle_timeout := x_w_idle_timeout\<rparr>) = keys ss"
  "keys (ss\<lparr>accepted := x_accepted\<rparr>) = keys ss"
  "keys (ss\<lparr>auto_stream_window := x_auto_stream_window\<rparr>) = keys ss"
  "keys (ss\<lparr>auto_session_window := x_auto_session_window\<rparr>) = keys ss"
  "keys (ss\<lparr>draining := x_draining\<rparr>) = keys ss"
  "keys (ss\<lparr>session_window := x_session_window\<rparr>) = keys ss"
  "keys (ss\<lparr>stream_window := x_stream_window\<rparr>) = keys ss"
  "keys (ss\<lparr>peer_stream_window := x_peer_stream_window\<rparr>) = keys ss"
  "keys (ss\<lparr>pub_state := x_pub_state\<rparr>) = keys ss"
  "keys (ss\<lparr>pub_stream_window := x_pub_stream_window\<rparr>) = keys ss"
  "keys (ss\<lparr>pub_peer_stream_window := x_pub_peer_stream_window\<rparr>) = keys ss"
  "keys (ss\<lparr>pub_rtt := x_pub_rtt\<rparr>) = keys ss"
  "keys (ss\<lparr>pub_bdp_rx := x_pub_bdp_rx\<rparr>) = keys ss"
  "keys (ss\<lparr>pub_bdp_tx := x_pub_bdp_tx\<rparr>) = keys ss" "keys (ss\<lparr>wire := x_wire\<rparr>) = keys ss"
  "keys (ss\<lparr>unacked := x_unacked\<rparr>) = keys ss"
  "keys (ss\<lparr>handshake := x_handshake\<rparr>) = keys ss"
  "keys (ss\<lparr>estimator := x_estimator\<rparr>) = keys ss"
  "keys (ss\<lparr>connect_started := x_connect_started\<rparr>) = keys ss"
  "keys (ss\<lparr>suspended_at := x_suspended_at\<rparr>) = keys ss"
  "keys (ss\<lparr>out := x_out\<rparr>) = keys ss"
  by (simp_all add: keys_def)

lemma stm_sched [simp]: "streams sc = streams (sched ss) \<Longrightarrow> stm (ss\<lparr>sched := sc\<rparr>) i = stm ss i"
  by (simp add: stm_def)

lemma keys_sched [simp]: "streams sc = streams (sched ss) \<Longrightarrow> keys (ss\<lparr>sched := sc\<rparr>) = keys ss"
  by (simp add: keys_def)

lemma stm_ops [simp]:
  "stm (counter_add c n ss) i = stm ss i" "stm (counter_sub c n ss) i = stm ss i" "stm (put_out x ss) i = stm ss i"
  "stm (session_emit ss e) i = stm ss i" "stm (pool_put f ss) i = stm ss i" "stm (pool_put_all fs ss) i = stm ss i"
  "stm (mux_session_notify ss) i = stm ss i" "stm (mux_session_update_watcher ss) i = stm ss i"
  "stm (set_tx_pending ss) i = stm ss i"
  by (simp_all add: stm_def set_tx_pending_def)

lemma keys_ops [simp]:
  "keys (counter_add c n ss) = keys ss" "keys (counter_sub c n ss) = keys ss" "keys (put_out x ss) = keys ss"
  "keys (session_emit ss e) = keys ss" "keys (pool_put f ss) = keys ss" "keys (pool_put_all fs ss) = keys ss"
  "keys (mux_session_notify ss) = keys ss" "keys (mux_session_update_watcher ss) = keys ss"
  "keys (set_tx_pending ss) = keys ss"
  by (simp_all add: keys_def set_tx_pending_def)

lemma keys_tab: "tab a = tab b \<Longrightarrow> keys a = keys b"
  by (simp add: keys_def)

lemma tab_put_stm: "tab (put_stm i s ss) = put_entry i s (tab ss)"
  by (simp add: tab_def split: option.split)

lemma keys_put_stm [simp]: "keys (put_stm i s ss) = keys ss"
  unfolding keys_def tab_put_stm by (metis fst_put_entry list.set_map)

lemma stm_put_stm: "stm (put_stm i s ss) j = (if j = i \<and> i \<in> keys ss then s else stm ss j)"
  by (simp add: stm_def tab_put_stm map_of_put_entry keys_def)

lemma stm_put_same [simp]: "i \<in> keys ss \<Longrightarrow> stm (put_stm i s ss) i = s"
  by (simp add: stm_put_stm)

lemma stm_missing: "i \<notin> keys ss \<Longrightarrow> stm ss i = dead_stream"
  by (simp add: stm_def keys_def flip: map_of_eq_None_iff)

lemma keysE: "i \<in> keys ss \<Longrightarrow> map_of (tab ss) i = Some (stm ss i)"
  by (auto simp: stm_def keys_def split: option.split dest: weak_map_of_SomeI)

section \<open>The scheduler invariant\<close>

text \<open>The flags of a stream tell which queue its node is linked in: the ready queue, the
  lifecycle queue, or the coalescing list; the stream that owns the round budget is linked in
  neither queue.  The tombstone timer runs only for closed streams, and never while the
  lifecycle queue could free the stream.\<close>

definition linked :: "sched_ctx \<Rightarrow> u16 \<Rightarrow> mux_stream \<Rightarrow> bool" where
  "linked sc i s \<longleftrightarrow>
    (i \<in> set (sched_fifo sc) \<longleftrightarrow> s_sched_queue s = SCHED_QUEUE_DRR)
    \<and> (i \<in> set (lp_fifo sc) \<longleftrightarrow> s_sched_queue s = SCHED_QUEUE_LP)
    \<and> (i \<in> set (delay_list sc) \<longleftrightarrow> s_delay_pending s)
    \<and> (s_sched_queue s = SCHED_QUEUE_LP \<longrightarrow>
         (s_state s = STREAM_INIT \<or> s_state s = STREAM_CLOSED) \<and> \<not> t_active (s_tombstone s))
    \<and> (drr_active sc = Some i \<longrightarrow> s_sched_queue s = SCHED_QUEUE_NONE \<and> s_state s \<noteq> STREAM_CLOSED)
    \<and> (t_active (s_tombstone s) \<longrightarrow> s_state s = STREAM_CLOSED)"

abbreviation is_closed :: "mux_stream \<Rightarrow> bool" where
  "is_closed s \<equiv> s_state s = STREAM_CLOSED"

abbreviation is_tomb :: "mux_stream \<Rightarrow> bool" where
  "is_tomb s \<equiv> t_active (s_tombstone s)"

definition sched_inv :: "mux_session \<Rightarrow> bool" where
  "sched_inv ss \<longleftrightarrow>
    distinct (map fst (tab ss)) \<and> (\<forall>i\<in>keys ss. s_id (stm ss i) = i \<and> \<not> s_orphaned (stm ss i))
    \<and> distinct (sched_fifo (sched ss)) \<and> distinct (lp_fifo (sched ss)) \<and> distinct (delay_list (sched ss))
    \<and> (\<forall>i. linked (sched ss) i (stm ss i))
    \<and> num_closed (sched ss) = tally is_closed (tab ss)
    \<and> num_tombstones (sched ss) = tally is_tomb (tab ss)"

text \<open>No queue refers to a stream outside the table.\<close>

lemma linked_dead: "linked sc i dead_stream \<longleftrightarrow>
    i \<notin> set (sched_fifo sc) \<and> i \<notin> set (lp_fifo sc) \<and> i \<notin> set (delay_list sc) \<and> drr_active sc \<noteq> Some i"
  by (auto simp: linked_def dead_stream_def zero_stream_def zero_timer_def)

lemma sched_inv_live:
  assumes "sched_inv ss"
    "i \<in> set (sched_fifo (sched ss)) \<or> i \<in> set (lp_fifo (sched ss)) \<or> i \<in> set (delay_list (sched ss))
      \<or> drr_active (sched ss) = Some i"
  shows "i \<in> keys ss"
proof (rule ccontr)
  assume "i \<notin> keys ss"
  then have "linked (sched ss) i dead_stream"
    using assms(1) stm_missing by (metis sched_inv_def)
  then show False
    using assms(2) by (simp add: linked_dead)
qed

text \<open>One stream and its links change; all others stay as they are.\<close>

lemma sched_inv_upd:
  assumes "sched_inv ss" "i \<in> keys ss" "tab ss' = put_entry i s (tab ss)" "s_id s = i" "\<not> s_orphaned s"
    "distinct (sched_fifo (sched ss'))" "distinct (lp_fifo (sched ss'))" "distinct (delay_list (sched ss'))"
    "linked (sched ss') i s"
    "\<And>j. j \<noteq> i \<Longrightarrow> linked (sched ss) j (stm ss j) \<Longrightarrow> linked (sched ss') j (stm ss j)"
    "num_closed (sched ss') + of_bool (is_closed (stm ss i)) = num_closed (sched ss) + of_bool (is_closed s)"
    "num_tombstones (sched ss') + of_bool (is_tomb (stm ss i)) = num_tombstones (sched ss) + of_bool (is_tomb s)"
  shows "sched_inv ss'"
proof -
  have k: "keys ss' = keys ss"
    unfolding keys_def assms(3) by (metis fst_put_entry list.set_map)
  have st: "stm ss' j = (if j = i then s else stm ss j)" for j
    using assms(2) by (simp add: stm_def assms(3) map_of_put_entry keys_def)
  have c: "tally P (put_entry i s (tab ss)) + of_bool (P (stm ss i)) = tally P (tab ss) + of_bool (P s)" for P
    using assms(1) keysE [OF assms(2)] by (intro tally_put_entry) (simp_all add: sched_inv_def)
  show ?thesis
    unfolding sched_inv_def k st
    using assms(1,4-10) c [of is_closed] c [of is_tomb] assms(11,12) by (auto simp: sched_inv_def assms(3))
qed

text \<open>The part of the scheduler state the invariant is about.\<close>

definition sc_links :: "sched_ctx \<Rightarrow>
    (u16 \<times> mux_stream) list option \<times> u16 list \<times> u16 list \<times> u16 list \<times> u16 option \<times> nat \<times> nat" where
  "sc_links sc =
    (streams sc, sched_fifo sc, lp_fifo sc, delay_list sc, drr_active sc, num_closed sc, num_tombstones sc)"

definition links :: "mux_session \<Rightarrow>
    (u16 \<times> mux_stream) list option \<times> u16 list \<times> u16 list \<times> u16 list \<times> u16 option \<times> nat \<times> nat" where
  "links ss = sc_links (sched ss)"

lemma sched_inv_links: "links a = links b \<Longrightarrow> sched_inv a = sched_inv b"
  by (simp add: sched_inv_def links_def sc_links_def tab_def stm_def keys_def linked_def)

lemma stm_links: "links a = links b \<Longrightarrow> stm a i = stm b i" "links a = links b \<Longrightarrow> keys a = keys b"
    "links a = links b \<Longrightarrow> tab a = tab b"
  by (simp_all add: links_def sc_links_def tab_def stm_def keys_def)

text \<open>Updates of a stream that leave its links alone.\<close>

definition same_links :: "mux_stream \<Rightarrow> mux_stream \<Rightarrow> bool" where
  "same_links s s' \<longleftrightarrow> s_id s' = s_id s \<and> s_orphaned s' = s_orphaned s \<and> s_sched_queue s' = s_sched_queue s
    \<and> s_delay_pending s' = s_delay_pending s \<and> s_state s' = s_state s \<and> is_tomb s' = is_tomb s"

lemma sched_inv_put_same:
  assumes "sched_inv ss" "same_links (stm ss i) s"
  shows "sched_inv (put_stm i s ss)"
proof (cases "i \<in> keys ss")
  case True
  have l: "linked sc i s = linked sc i (stm ss i)" for sc
    using assms(2) by (simp add: linked_def same_links_def)
  show ?thesis
    by (rule sched_inv_upd [OF assms(1) True tab_put_stm])
      (use assms True in \<open>auto simp: sched_inv_def same_links_def l linked_def\<close>)
next
  case False
  then have "put_stm i s ss = ss"
    by (cases "streams (sched ss)") (simp_all add: put_stm_def keys_def tab_def put_entry_none)
  then show ?thesis
    using assms(1) by simp
qed

lemma sched_invD:
  assumes "sched_inv ss"
  shows "distinct (map fst (tab ss))" "distinct (sched_fifo (sched ss))" "distinct (lp_fifo (sched ss))"
    "distinct (delay_list (sched ss))" "linked (sched ss) i (stm ss i)"
    "i \<in> keys ss \<Longrightarrow> s_id (stm ss i) = i" "i \<in> keys ss \<Longrightarrow> \<not> s_orphaned (stm ss i)"
    "num_closed (sched ss) = tally is_closed (tab ss)" "num_tombstones (sched ss) = tally is_tomb (tab ss)"
  using assms by (auto simp: sched_inv_def)

text \<open>A change of the queues' links together with one stream.\<close>

lemma sched_inv_relink:
  assumes "sched_inv ss" "i \<in> keys ss" "tab ss' = put_entry i s (tab ss)"
    "s_id s = s_id (stm ss i)" "s_orphaned s = s_orphaned (stm ss i)" "s_state s = s_state (stm ss i)"
    "s_tombstone s = s_tombstone (stm ss i)"
    "num_closed (sched ss') = num_closed (sched ss)" "num_tombstones (sched ss') = num_tombstones (sched ss)"
    "distinct (sched_fifo (sched ss')) \<and> distinct (lp_fifo (sched ss')) \<and> distinct (delay_list (sched ss'))"
    "linked (sched ss') i s"
    "\<And>j. j \<noteq> i \<Longrightarrow> linked (sched ss) j (stm ss j) \<Longrightarrow> linked (sched ss') j (stm ss j)"
  shows "sched_inv ss'"
  by (rule sched_inv_upd [OF assms(1-3)]) (use assms sched_invD [OF assms(1)] in simp_all)

text \<open>Both enqueue operations take a stream that no queue, round budget or tombstone owns.\<close>

definition idle :: "mux_session \<Rightarrow> u16 \<Rightarrow> bool" where
  "idle ss i \<longleftrightarrow> s_sched_queue (stm ss i) = SCHED_QUEUE_NONE \<and> drr_active (sched ss) \<noteq> Some i
    \<and> \<not> is_tomb (stm ss i)"

lemma sched_enqueue_eq:
  "sched_enqueue i ss = (if idle ss i
    then (put_stm i ((stm ss i)\<lparr>s_sched_queue := SCHED_QUEUE_DRR\<rparr>) ss)\<lparr>sched :=
      (sched (put_stm i ((stm ss i)\<lparr>s_sched_queue := SCHED_QUEUE_DRR\<rparr>) ss))
        \<lparr>sched_fifo := sched_fifo (sched ss) @ [i]\<rparr>\<rparr>
    else ss)"
  by (simp add: sched_enqueue_def idle_def upd_stm_def Let_def)

lemma sched_lp_enqueue_eq:
  "sched_lp_enqueue i ss = (if idle ss i
    then (put_stm i ((stm ss i)\<lparr>s_sched_queue := SCHED_QUEUE_LP\<rparr>) ss)\<lparr>sched :=
      (sched (put_stm i ((stm ss i)\<lparr>s_sched_queue := SCHED_QUEUE_LP\<rparr>) ss))
        \<lparr>lp_fifo := lp_fifo (sched ss) @ [i]\<rparr>\<rparr>
    else ss)"
  by (cases "s_sched_queue (stm ss i)") (simp_all add: sched_lp_enqueue_def idle_def upd_stm_def Let_def)

lemma sched_enqueue_inv:
  assumes "sched_inv ss" "i \<in> keys ss"
  shows "sched_inv (sched_enqueue i ss)"
proof (cases "idle ss i")
  case True
  note d = sched_invD [OF assms(1)] and d5 = sched_invD(5) [OF assms(1), of i]
  show ?thesis
    unfolding sched_enqueue_eq if_P [OF True]
    by (rule sched_inv_relink [OF assms, of _ "(stm ss i)\<lparr>s_sched_queue := SCHED_QUEUE_DRR\<rparr>"])
      (use d(2-4) d5 True in \<open>simp_all add: tab_put_stm linked_def idle_def\<close>)
qed (use assms in \<open>simp add: sched_enqueue_eq\<close>)

lemma sched_lp_enqueue_inv:
  assumes "sched_inv ss" "i \<in> keys ss" "s_state (stm ss i) = STREAM_INIT \<or> is_closed (stm ss i)"
  shows "sched_inv (sched_lp_enqueue i ss)"
proof (cases "idle ss i")
  case True
  note d = sched_invD [OF assms(1)] and d5 = sched_invD(5) [OF assms(1), of i]
  show ?thesis
    unfolding sched_lp_enqueue_eq if_P [OF True]
    by (rule sched_inv_relink [OF assms(1,2), of _ "(stm ss i)\<lparr>s_sched_queue := SCHED_QUEUE_LP\<rparr>"])
      (use d(2-4) d5 True assms(3) in \<open>simp_all add: tab_put_stm linked_def idle_def\<close>)
qed (use assms in \<open>simp add: sched_lp_enqueue_eq\<close>)

section \<open>Tearing the table down\<close>

lemma fold_fail_and_free_quiet:
  fixes t :: "(u16 \<times> mux_stream) list" and ss :: mux_session
  defines "r \<equiv> fold (\<lambda>(i, s). fail_and_free_cb s) t ss"
  assumes "delay_list (sched ss) = []" "drr_active (sched ss) = None"
  shows "delay_list (sched r) = []" "drr_active (sched r) = None" "num_closed (sched r) = num_closed (sched ss)"
    "num_tombstones (sched r) = num_tombstones (sched ss)"
proof -
  have st: "delay_list (sched (fst (stream_stop p))) = [] \<and> drr_active (sched (fst (stream_stop p))) = None"
    if "delay_list (sched (fst p)) = [] \<and> drr_active (sched (fst p)) = None" for p
    using that by (simp add: stream_stop_def mux_sched_delay_remove_def Let_def case_prod_beta)
  have ff: "delay_list (sched (fail_and_free_cb s a)) = [] \<and> drr_active (sched (fail_and_free_cb s a)) = None"
    if "delay_list (sched a) = [] \<and> drr_active (sched a) = None" for s a
    using that st by (simp add: fail_and_free_cb_def mux_stream_free_def mux_stream_orphan_def sched_orphan_push_def
        Let_def case_prod_beta)
  have "delay_list (sched r) = [] \<and> drr_active (sched r) = None"
    using assms(2,3) unfolding r_def by (induction t arbitrary: ss) (auto simp: ff)
  then show "delay_list (sched r) = []" "drr_active (sched r) = None"
    by simp_all
  have "sched_core (sched r) = sched_core (sched ss)"
    unfolding r_def by (induction t arbitrary: ss) (auto simp: case_prod_beta)
  then show "num_closed (sched r) = num_closed (sched ss)" "num_tombstones (sched r) = num_tombstones (sched ss)"
    by (cases "sched r"; cases "sched ss"; simp add: sched_core_def)+
qed

lemma free_streams_links [simp]: "links (mux_sched_free_streams ss) = (None, [], [], [], None, 0, 0)"
  by (simp add: links_def sc_links_def mux_sched_free_streams_def Let_def fold_fail_and_free_streams fold_fail_and_free_quiet)

lemma links_down: "links ss = (None, [], [], [], None, 0, 0) \<Longrightarrow> sched_inv ss"
  by (auto simp: sched_inv_def links_def sc_links_def tab_def stm_def keys_def linked_dead)

lemma links_update [simp]:
  "links (ss\<lparr>conf := x_conf\<rparr>) = links ss" "links (ss\<lparr>pool := x_pool\<rparr>) = links ss"
  "links (ss\<lparr>heap := x_heap\<rparr>) = links ss" "links (ss\<lparr>os := x_os\<rparr>) = links ss"
  "links (ss\<lparr>cb := x_cb\<rparr>) = links ss"
  "links (ss\<lparr>max_payload := x_max_payload\<rparr>) = links ss"
  "links (ss\<lparr>readahead := x_readahead\<rparr>) = links ss" "links (ss\<lparr>cnt := x_cnt\<rparr>) = links ss"
  "links (ss\<lparr>num_halfopen := x_num_halfopen\<rparr>) = links ss"
  "links (ss\<lparr>recv_buffered_bytes := x_recv_buffered_bytes\<rparr>) = links ss"
  "links (ss\<lparr>send_buffered_frames := x_send_buffered_frames\<rparr>) = links ss"
  "links (ss\<lparr>last_connect_latency_ns := x_last_connect_latency_ns\<rparr>) = links ss"
  "links (ss\<lparr>bytes_recv := x_bytes_recv\<rparr>) = links ss"
  "links (ss\<lparr>ping_recv_last_ns := x_ping_recv_last_ns\<rparr>) = links ss"
  "links (ss\<lparr>ss_state := x_ss_state\<rparr>) = links ss"
  "links (ss\<lparr>last_modified := x_last_modified\<rparr>) = links ss"
  "links (ss\<lparr>peer_addr_set := x_peer_addr_set\<rparr>) = links ss"
  "links (ss\<lparr>w_socket := x_w_socket\<rparr>) = links ss"
  "links (ss\<lparr>w_timeout := x_w_timeout\<rparr>) = links ss"
  "links (ss\<lparr>w_keepalive := x_w_keepalive\<rparr>) = links ss"
  "links (ss\<lparr>w_send_timeout := x_w_send_timeout\<rparr>) = links ss"
  "links (ss\<lparr>w_connect_timeout := x_w_connect_timeout\<rparr>) = links ss"
  "links (ss\<lparr>w_idle_timeout := x_w_idle_timeout\<rparr>) = links ss"
  "links (ss\<lparr>accepted := x_accepted\<rparr>) = links ss"
  "links (ss\<lparr>auto_stream_window := x_auto_stream_window\<rparr>) = links ss"
  "links (ss\<lparr>auto_session_window := x_auto_session_window\<rparr>) = links ss"
  "links (ss\<lparr>draining := x_draining\<rparr>) = links ss"
  "links (ss\<lparr>session_window := x_session_window\<rparr>) = links ss"
  "links (ss\<lparr>stream_window := x_stream_window\<rparr>) = links ss"
  "links (ss\<lparr>peer_stream_window := x_peer_stream_window\<rparr>) = links ss"
  "links (ss\<lparr>pub_state := x_pub_state\<rparr>) = links ss"
  "links (ss\<lparr>pub_stream_window := x_pub_stream_window\<rparr>) = links ss"
  "links (ss\<lparr>pub_peer_stream_window := x_pub_peer_stream_window\<rparr>) = links ss"
  "links (ss\<lparr>pub_rtt := x_pub_rtt\<rparr>) = links ss"
  "links (ss\<lparr>pub_bdp_rx := x_pub_bdp_rx\<rparr>) = links ss"
  "links (ss\<lparr>pub_bdp_tx := x_pub_bdp_tx\<rparr>) = links ss"
  "links (ss\<lparr>wire := x_wire\<rparr>) = links ss" "links (ss\<lparr>unacked := x_unacked\<rparr>) = links ss"
  "links (ss\<lparr>handshake := x_handshake\<rparr>) = links ss"
  "links (ss\<lparr>estimator := x_estimator\<rparr>) = links ss"
  "links (ss\<lparr>connect_started := x_connect_started\<rparr>) = links ss"
  "links (ss\<lparr>suspended_at := x_suspended_at\<rparr>) = links ss"
  "links (ss\<lparr>out := x_out\<rparr>) = links ss"
  by (simp_all add: links_def)

lemma links_ops [simp]:
  "links (counter_add c n ss) = links ss" "links (counter_sub c n ss) = links ss" "links (put_out x ss) = links ss"
  "links (session_emit ss e) = links ss" "links (pool_put f ss) = links ss" "links (pool_put_all fs ss) = links ss"
  "links (mux_session_notify ss) = links ss" "links (mux_session_update_watcher ss) = links ss"
  "links (set_tx_pending ss) = links ss" "links (mux_wire_discard_buffers ss) = links ss"
  "links (mux_unacked_free_all ss) = links ss" "links (close_socket ss) = links ss"
  "links (session_reset_stream_window_floor ss) = links ss"
  by (simp_all add: links_def set_tx_pending_def)

lemma sc_links_simps [simp]:
  "sc_links (sc\<lparr>lp_pending := b\<rparr>) = sc_links sc" "sc_links (sc\<lparr>w_coalesce := w\<rparr>) = sc_links sc"
  "sc_links (sc\<lparr>orphans := q\<rparr>) = sc_links sc" "sc_links (sc\<lparr>next_stream_id := i\<rparr>) = sc_links sc"
  by (simp_all add: sc_links_def)

lemma links_sched [simp]: "sc_links sc = sc_links (sched ss) \<Longrightarrow> links (ss\<lparr>sched := sc\<rparr>) = links ss"
  by (simp add: links_def)

lemma links_stop [simp]:
  "links (session_stop_timers ss) = links ss" "links (session_stop ss) = links ss"
  "links (mux_session_set_state ss st) = links ss"
  by (simp_all add: session_stop_timers_def session_stop_def mux_session_set_state_def mux_estimator_suspend_def
      session_stop_timers_def Let_def)

lemma links_cleanup [simp]: "links (session_cleanup ss) = (None, [], [], [], None, 0, 0)"
  by (simp add: session_cleanup_def)

text \<open>Ending the session, or not, leaves the links alone or takes them all down.\<close>

lemma links_empty: "links ss = (Some [], [], [], [], None, 0, 0) \<Longrightarrow> sched_inv ss \<and> keys ss = {}"
  using links_down [of "ss\<lparr>sched := (sched ss)\<lparr>streams := None\<rparr>\<rparr>"]
  by (auto simp: sched_inv_def links_def sc_links_def tab_def stm_def keys_def linked_def)

lemma new_table_inv:
  "sched_inv (snd (session_new_table ss)) = sched_inv ss" "keys (snd (session_new_table ss)) = keys ss"
  "stm (snd (session_new_table ss)) i = stm ss i"
  by (auto simp: session_new_table_def sched_inv_def tab_def stm_def keys_def linked_def Let_def case_prod_beta)

definition ended :: "mux_session \<Rightarrow> mux_session \<Rightarrow> bool" where
  "ended ss ss' \<longleftrightarrow> links ss' = links ss \<or> links ss' = (None, [], [], [], None, 0, 0)"

lemma ended_inv: "ended ss ss' \<Longrightarrow> sched_inv ss \<Longrightarrow> sched_inv ss'"
  unfolding ended_def using links_down [of ss'] sched_inv_links [of ss' ss] by blast

lemma reset_ended: "ended ss (mux_session_reset ss)"
  by (simp add: ended_def mux_session_reset_def Let_def)

lemma notify_closed_ended: "ended ss (mux_session_notify_closed ss b)"
  using reset_ended [of ss] by (simp add: ended_def mux_session_notify_closed_def Let_def)

lemma initiate_shutdown_ended: "ended ss (mux_session_initiate_shutdown ss)"
  using notify_closed_ended by (simp add: ended_def mux_session_initiate_shutdown_def Let_def)

lemma check_no_active_ended: "ended ss (mux_sched_check_no_active_streams ss)"
  using initiate_shutdown_ended by (simp add: ended_def mux_sched_check_no_active_streams_def)

section \<open>Waking and delaying streams\<close>

lemma schedule_links [simp]: "links (mux_sched_schedule ss) = links ss"
  by (simp add: mux_sched_schedule_def)

lemma schedule_stm [simp]:
  "stm (mux_sched_schedule ss) i = stm ss i" "keys (mux_sched_schedule ss) = keys ss"
  "tab (mux_sched_schedule ss) = tab ss"
  by (rule stm_links; simp)+

lemma enqueue_keys [simp]:
  "keys (sched_enqueue i ss) = keys ss" "keys (sched_lp_enqueue i ss) = keys ss"
  by (simp_all add: sched_enqueue_eq sched_lp_enqueue_eq)

lemma wake_inv:
  assumes "sched_inv ss" "i \<in> keys ss"
  shows "sched_inv (mux_sched_wake ss i)"
proof -
  have *: "sched_inv (mux_session_notify (if b then mux_sched_schedule a else set_tx_pending a))
      = sched_inv a" for a b
    by (rule sched_inv_links) simp
  have **: "sched_inv (mux_session_notify (set_tx_pending a)) = sched_inv a" for a
    by (rule sched_inv_links) simp
  show ?thesis
    using sched_enqueue_inv [OF assms] sched_lp_enqueue_inv [OF assms]
    by (simp add: mux_sched_wake_def Let_def * **)
qed

lemma wake_keys [simp]: "keys (mux_sched_wake ss i) = keys ss"
  by (simp add: mux_sched_wake_def Let_def)

lemma dequeue_inv:
  assumes "sched_inv ss" "sched_dequeue ss = (r, ss')"
  shows "sched_inv ss'" "keys ss' = keys ss"
    "r = Some i \<Longrightarrow> i \<in> keys ss \<and> stm ss' i = (stm ss i)\<lparr>s_sched_queue := SCHED_QUEUE_NONE\<rparr>
      \<and> sched_fifo (sched ss) = i # sched_fifo (sched ss')"
    "r = None \<Longrightarrow> ss' = ss \<and> sched_fifo (sched ss) = []"
    "drr_active (sched ss') = drr_active (sched ss)"
proof -
  have "sched_inv ss' \<and> keys ss' = keys ss \<and> (\<forall>i. r = Some i \<longrightarrow> i \<in> keys ss
      \<and> stm ss' i = (stm ss i)\<lparr>s_sched_queue := SCHED_QUEUE_NONE\<rparr>
      \<and> sched_fifo (sched ss) = i # sched_fifo (sched ss'))
    \<and> (r = None \<longrightarrow> ss' = ss \<and> sched_fifo (sched ss) = []) \<and> drr_active (sched ss') = drr_active (sched ss)"
  proof (cases "sched_fifo (sched ss)")
    case Nil
    then show ?thesis
      using assms by (simp add: sched_dequeue_def)
  next
    case (Cons i q)
    define s where "s = (stm ss i)\<lparr>s_sched_queue := SCHED_QUEUE_NONE\<rparr>"
    have k: "i \<in> keys ss"
      using sched_inv_live [OF assms(1)] Cons by simp
    have e: "r = Some i" "ss' = put_stm i s (ss\<lparr>sched := (sched ss)\<lparr>sched_fifo := q\<rparr>\<rparr>)"
      using assms(2) Cons by (simp_all add: sched_dequeue_def upd_stm_def s_def)
    note d = sched_invD [OF assms(1)] and d5 = sched_invD(5) [OF assms(1), of i]
    have "sched_inv ss'"
      unfolding e
      by (rule sched_inv_relink [OF assms(1) k, of _ s])
        (use d(2-4) d5 Cons in \<open>auto simp: tab_put_stm s_def linked_def\<close>)
    then show ?thesis
      using k Cons by (simp add: e s_def)
  qed
  then show "sched_inv ss'" "keys ss' = keys ss"
    "r = Some i \<Longrightarrow> i \<in> keys ss \<and> stm ss' i = (stm ss i)\<lparr>s_sched_queue := SCHED_QUEUE_NONE\<rparr>
      \<and> sched_fifo (sched ss) = i # sched_fifo (sched ss')"
    "r = None \<Longrightarrow> ss' = ss \<and> sched_fifo (sched ss) = []" "drr_active (sched ss') = drr_active (sched ss)"
    by blast+
qed

lemma coalesce_arm_links [simp]: "links (mux_sched_coalesce_arm ss) = links ss"
  by (simp add: mux_sched_coalesce_arm_def)

lemma delay_inv:
  assumes "sched_inv ss" "i \<in> keys ss"
  shows "sched_inv (mux_sched_delay i ticks ss)"
proof (cases "s_delay_pending (stm ss i)")
  case True
  have "sched_inv (put_stm i ((stm ss i)\<lparr>s_delay_ticks := ticks\<rparr>) ss)"
    by (rule sched_inv_put_same [OF assms(1)]) (simp add: same_links_def)
  then show ?thesis
    using True assms by (simp add: mux_sched_delay_def upd_stm_def Let_def)
next
  case False
  define s where "s = (stm ss i)\<lparr>s_delay_pending := True, s_delay_ticks := ticks\<rparr>"
  define a where "a = (if delay_list (sched ss) = [] then mux_sched_coalesce_arm (put_stm i s ss) else put_stm i s ss)"
  have e: "mux_sched_delay i ticks ss = a\<lparr>sched := (sched a)\<lparr>delay_list := i # delay_list (sched a)\<rparr>\<rparr>"
    using False by (simp add: mux_sched_delay_def upd_stm_def s_def a_def Let_def)
  have l: "links a = links (put_stm i s ss)"
    by (simp add: a_def)
  then have a: "tab a = put_entry i s (tab ss)" "sched_fifo (sched a) = sched_fifo (sched ss)"
    "lp_fifo (sched a) = lp_fifo (sched ss)" "delay_list (sched a) = delay_list (sched ss)"
    "drr_active (sched a) = drr_active (sched ss)" "num_closed (sched a) = num_closed (sched ss)"
    "num_tombstones (sched a) = num_tombstones (sched ss)"
    using stm_links(3) [OF l] by (simp_all add: tab_put_stm links_def sc_links_def)
  note d = sched_invD [OF assms(1)] and d5 = sched_invD(5) [OF assms(1), of i]
  show ?thesis
    unfolding e
    by (rule sched_inv_relink [OF assms, of _ s])
      (use d(2-4) d5 False in \<open>simp_all add: a s_def linked_def\<close>)
qed

lemma delay_keys [simp]: "keys (mux_sched_delay i ticks ss) = keys ss"
proof -
  have "keys (mux_sched_coalesce_arm a) = keys a" for a
    by (rule stm_links) simp
  then show ?thesis
    by (simp add: mux_sched_delay_def upd_stm_def Let_def)
qed

section \<open>Closing a stream\<close>

lemma on_stm_eq: "on_stm i f ss = put_stm i (snd (f (ss, stm ss i))) (fst (f (ss, stm ss i)))"
  by (simp add: on_stm_def case_prod_beta)

text \<open>An operation on a stream and its session that leaves the links alone.\<close>

lemma on_stm_same:
  assumes "sched_inv ss" "links (fst (f (ss, stm ss i))) = links ss" "same_links (stm ss i) (snd (f (ss, stm ss i)))"
  shows "sched_inv (on_stm i f ss)"
  unfolding on_stm_eq
proof (rule sched_inv_put_same)
  show "sched_inv (fst (f (ss, stm ss i)))"
    using assms(1) sched_inv_links [OF assms(2)] by simp
  show "same_links (stm (fst (f (ss, stm ss i))) i) (snd (f (ss, stm ss i)))"
    using assms(3) stm_links(1) [OF assms(2)] by simp
qed

lemma stream_stop_live:
  assumes "\<not> is_tomb s" "\<not> s_orphaned s" "s_id s = i"
  shows "fst (stream_stop (ss, s)) = ss\<lparr>sched := (sched ss)
      \<lparr>delay_list := (if s_delay_pending s then remove1 i (delay_list (sched ss)) else delay_list (sched ss)),
       drr_active := (if drr_active (sched ss) = Some i then None else drr_active (sched ss))\<rparr>\<rparr>"
    "same_links (s\<lparr>s_delay_pending := False\<rparr>) (snd (stream_stop (ss, s)))"
  using assms
  by (auto simp: stream_stop_def mux_sched_delay_remove_def Let_def same_links_def ev_timer_stop_def)

lemma stop_inv:
  assumes "sched_inv ss" "i \<in> keys ss" "\<not> is_closed (stm ss i)"
  shows "sched_inv (on_stm i stream_stop ss)" "keys (on_stm i stream_stop ss) = keys ss"
    "same_links ((stm ss i)\<lparr>s_delay_pending := False\<rparr>) (stm (on_stm i stream_stop ss) i)"
    "drr_active (sched (on_stm i stream_stop ss)) \<noteq> Some i"
    "i \<notin> set (delay_list (sched (on_stm i stream_stop ss)))"
proof -
  note d = sched_invD [OF assms(1)] and d5 = sched_invD(5-7) [OF assms(1), of i]
  have t: "\<not> is_tomb (stm ss i)"
    using d5(1) assms(3) by (auto simp: linked_def)
  note st = stream_stop_live [OF t d5(3) d5(2), OF assms(2) assms(2), of ss]
  define s where "s = snd (stream_stop (ss, stm ss i))"
  define a where "a = fst (stream_stop (ss, stm ss i))"
  have e: "on_stm i stream_stop ss = put_stm i s a"
    by (simp add: on_stm_eq s_def a_def)
  have ta: "tab a = tab ss"
    by (simp add: a_def st)
  have sl: "same_links ((stm ss i)\<lparr>s_delay_pending := False\<rparr>) s"
    unfolding s_def by (rule st)
  show "sched_inv (on_stm i stream_stop ss)"
  proof (rule sched_inv_upd [OF assms(1,2), of _ s])
    show "linked (sched (on_stm i stream_stop ss)) i s"
      using d5 d(4) sl assms(3) by (auto simp: e a_def st linked_def same_links_def)
  qed (use d sl d5 assms in \<open>auto simp: e a_def tab_put_stm st same_links_def linked_def\<close>)
  show "keys (on_stm i stream_stop ss) = keys ss"
    by (simp add: e keys_tab [OF ta])
  then show "same_links ((stm ss i)\<lparr>s_delay_pending := False\<rparr>) (stm (on_stm i stream_stop ss) i)"
    using sl assms(2) by (simp add: e)
  show "drr_active (sched (on_stm i stream_stop ss)) \<noteq> Some i"
    "i \<notin> set (delay_list (sched (on_stm i stream_stop ss)))"
    using d(4) d5 by (auto simp: e a_def st linked_def)
qed

lemma release_buffers_links [simp]:
  "links (fst (stream_release_buffers p)) = links (fst p)"
  "same_links s (snd (stream_release_buffers (ss, s)))"
  by (simp_all add: stream_release_buffers_def same_links_def Let_def case_prod_beta)

lemma set_state_links [simp]:
  "links (fst (stream_set_state st p)) = links (fst p)"
  by (simp add: stream_set_state_def Let_def case_prod_beta)

lemma stream_set_state_fields [simp]:
  "s_id (snd (stream_set_state st p)) = s_id (snd p)" "s_orphaned (snd (stream_set_state st p)) = s_orphaned (snd p)"
  "s_sched_queue (snd (stream_set_state st p)) = s_sched_queue (snd p)"
  "s_delay_pending (snd (stream_set_state st p)) = s_delay_pending (snd p)"
  "s_tombstone (snd (stream_set_state st p)) = s_tombstone (snd p)"
  by (simp_all add: stream_set_state_def Let_def case_prod_beta)

lemma same_links_refl [simp]: "same_links s s"
  by (simp add: same_links_def)

lemma same_links_trans: "same_links a b \<Longrightarrow> same_links b c \<Longrightarrow> same_links a c"
  by (simp add: same_links_def)

lemma links_on_stm:
  "links (fst (f (ss, stm ss i))) = links ss \<Longrightarrow> keys (on_stm i f ss) = keys ss"
  "links (fst (f (ss, stm ss i))) = links ss \<Longrightarrow> i \<in> keys ss \<Longrightarrow> stm (on_stm i f ss) i = snd (f (ss, stm ss i))"
  using stm_links(2) [of "fst (f (ss, stm ss i))" ss] by (simp_all add: on_stm_eq)

lemma release_buffers_inv:
  assumes "sched_inv ss" "i \<in> keys ss"
  defines "r \<equiv> on_stm i stream_release_buffers ss"
  shows "sched_inv r" "keys r = keys ss" "same_links (stm ss i) (stm r i)"
    "drr_active (sched r) = drr_active (sched ss)"
  using on_stm_same [OF assms(1), of stream_release_buffers i] links_on_stm [of stream_release_buffers ss i] assms(2)
  by (simp_all add: r_def) (simp add: on_stm_eq)

lemma close_stream_fd_inv:
  "sched_inv ss \<Longrightarrow> sched_inv (close_stream_fd i ss)" "keys (close_stream_fd i ss) = keys ss"
  "i \<in> keys ss \<Longrightarrow> same_links (stm ss i) (stm (close_stream_fd i ss) i)"
  "drr_active (sched (close_stream_fd i ss)) = drr_active (sched ss)"
proof -
  have "sched_inv (put_out x ss)" if "sched_inv ss" for x
    using that sched_inv_links [of "put_out x ss" ss] by simp
  then show "sched_inv (close_stream_fd i ss)" if "sched_inv ss"
    using that by (auto simp: close_stream_fd_def upd_stm_def same_links_def Let_def intro!: sched_inv_put_same)
qed (simp_all add: close_stream_fd_def upd_stm_def same_links_def Let_def)

text \<open>The state of a closing stream just before the table is re-examined.\<close>

definition mark_closed_stream :: "u16 \<Rightarrow> mux_session \<Rightarrow> mux_session" where
  "mark_closed_stream i ss =
    (let ss = close_stream_fd i (on_stm i stream_release_buffers (on_stm i stream_stop ss));
         s = stm ss i;
         ss = counter_add (if s_rst_received s \<or> s_rst_sent s \<or> s_aborted s
                then num_stream_failed else num_stream_succeeded) 1 ss
     in on_stm i (stream_set_state STREAM_CLOSED) ss)"

lemma stream_mark_closed_eq:
  "stream_mark_closed i ss =
    (let a = mark_closed_stream i ss; a = a\<lparr>sched := (sched a)\<lparr>num_closed := num_closed (sched a) + 1\<rparr>\<rparr> in
     if s_state (stm ss i) \<noteq> STREAM_INIT
     then let a = a\<lparr>sched := (sched a)\<lparr>num_tombstones := num_tombstones (sched a) + 1\<rparr>\<rparr>
          in mux_sched_check_no_active_streams (upd_stm i (\<lambda>s. s\<lparr>s_tombstone := ev_timer_start
               (ev_timer_set (s_tombstone s) MUX_TOMBSTONE_PERIOD_S 0)\<rparr>) a)
     else mux_sched_wake a i)"
  by (simp add: stream_mark_closed_def mark_closed_stream_def Let_def)

lemma mark_closed_stream_facts:
  assumes "sched_inv ss" "i \<in> keys ss" "\<not> is_closed (stm ss i)"
  defines "r \<equiv> mark_closed_stream i ss"
  obtains a s where "sched_inv a" "keys a = keys ss" "same_links ((stm ss i)\<lparr>s_delay_pending := False\<rparr>) (stm a i)"
    "drr_active (sched a) \<noteq> Some i" "links r = links (put_stm i s a)" "s_state s = STREAM_CLOSED"
    "s_tombstone s = s_tombstone (stm a i)" "s_id s = s_id (stm a i)" "s_orphaned s = s_orphaned (stm a i)"
    "s_sched_queue s = s_sched_queue (stm a i)" "s_delay_pending s = s_delay_pending (stm a i)"
proof -
  note st = stop_inv [OF assms(1-3)]
  define b where "b = on_stm i stream_stop ss"
  define c where "c = on_stm i stream_release_buffers b"
  define d where "d = close_stream_fd i c"
  have k: "i \<in> keys b"
    using st(2) assms(2) by (simp add: b_def)
  have c: "sched_inv c" "keys c = keys b" "same_links (stm b i) (stm c i)" "drr_active (sched c) \<noteq> Some i"
    using st(4) release_buffers_inv [OF st(1) [folded b_def] k] by (simp_all add: c_def b_def)
  have d: "sched_inv d" "keys d = keys c" "same_links (stm c i) (stm d i)" "drr_active (sched d) \<noteq> Some i"
    using c k close_stream_fd_inv [where ss = c and i = i] by (simp_all add: d_def)
  define e where "e = counter_add (if s_rst_received (stm d i) \<or> s_rst_sent (stm d i) \<or> s_aborted (stm d i)
    then num_stream_failed else num_stream_succeeded) 1 d"
  define p where "p = stream_set_state STREAM_CLOSED (e, stm d i)"
  have le: "links e = links d" "links (fst p) = links d"
    by (simp_all add: e_def p_def)
  have r: "r = put_stm i (snd p) (fst p)"
    by (simp add: r_def mark_closed_stream_def on_stm_eq p_def Let_def d_def c_def b_def e_def)
  have "links r = links (put_stm i (snd p) d)"
    using le by (simp add: r links_def sc_links_def)
  moreover have "same_links ((stm ss i)\<lparr>s_delay_pending := False\<rparr>) (stm d i)"
    using st(3) c(3) d(3) same_links_trans by (metis b_def)
  ultimately show thesis
    using that [of d "snd p"] d c(2) st(2) by (simp add: p_def b_def)
qed

lemma mark_closed_inv:
  assumes "sched_inv ss" "i \<in> keys ss" "\<not> is_closed (stm ss i)"
  shows "sched_inv (stream_mark_closed i ss)"
proof -
  obtain a s where a: "sched_inv a" "keys a = keys ss" "same_links ((stm ss i)\<lparr>s_delay_pending := False\<rparr>) (stm a i)"
    "drr_active (sched a) \<noteq> Some i" "links (mark_closed_stream i ss) = links (put_stm i s a)"
    "s_state s = STREAM_CLOSED" "s_tombstone s = s_tombstone (stm a i)" "s_id s = s_id (stm a i)"
    "s_orphaned s = s_orphaned (stm a i)" "s_sched_queue s = s_sched_queue (stm a i)"
    "s_delay_pending s = s_delay_pending (stm a i)"
    using mark_closed_stream_facts [OF assms] by metis
  have k: "i \<in> keys a"
    using a(2) assms(2) by simp
  note d = sched_invD [OF a(1)] and d5 = sched_invD(5-7) [OF a(1), of i]
  have st: "s_state (stm a i) = s_state (stm ss i)" "\<not> is_closed (stm a i)"
    using a(3) assms(3) by (simp_all add: same_links_def)
  have tb: "\<not> is_tomb (stm a i)"
    using st(2) d5(1) by (auto simp: linked_def)
  define m where "m = mark_closed_stream i ss"
  have m: "tab m = put_entry i s (tab a)" "sched_fifo (sched m) = sched_fifo (sched a)"
    "lp_fifo (sched m) = lp_fifo (sched a)" "delay_list (sched m) = delay_list (sched a)"
    "drr_active (sched m) = drr_active (sched a)" "num_closed (sched m) = num_closed (sched a)"
    "num_tombstones (sched m) = num_tombstones (sched a)" "keys m = keys a" "stm m i = s"
    using stm_links [OF a(5)] a(5) k by (simp_all add: m_def tab_put_stm links_def sc_links_def)
  let ?n = "m\<lparr>sched := (sched m)\<lparr>num_closed := num_closed (sched m) + 1\<rparr>\<rparr>"
  show ?thesis
  proof (cases "s_state (stm ss i) = STREAM_INIT")
    case True
    have "linked (sched ?n) i s"
      using d5(1) a(4,6,7,10,11) tb by (simp add: linked_def m)
    then have "sched_inv ?n"
      by (intro sched_inv_upd [OF a(1) k, of _ s])
        (use a(6-9) d(2-4) d5(2,3) k st(2) tb in \<open>simp_all add: m linked_def\<close>)
    then have "sched_inv (mux_sched_wake ?n i)"
      by (rule wake_inv) (simp add: m k)
    then show ?thesis
      using True by (simp add: stream_mark_closed_eq m_def Let_def)
  next
    case False
    define s' where "s' = s\<lparr>s_tombstone := ev_timer_start (ev_timer_set (s_tombstone s) MUX_TOMBSTONE_PERIOD_S 0)\<rparr>"
    let ?o = "?n\<lparr>sched := (sched ?n)\<lparr>num_tombstones := num_tombstones (sched ?n) + 1\<rparr>\<rparr>"
    have pp: "put_entry i s' (put_entry i s (tab a)) = put_entry i s' (tab a)"
      by (simp add: put_entry_def split_def)
    have s': "is_closed s'" "is_tomb s'" "s_id s' = s_id s" "s_orphaned s' = s_orphaned s"
      "s_sched_queue s' = s_sched_queue s" "s_delay_pending s' = s_delay_pending s"
      using a(6) by (simp_all add: s'_def ev_timer_start_def)
    have q: "s_sched_queue (stm a i) \<noteq> SCHED_QUEUE_LP"
      using d5(1) st False by (auto simp: linked_def)
    have "linked (sched (put_stm i s' ?o)) i s'"
      using d5(1) a(4,10,11) q by (simp add: linked_def m s')
    then have "sched_inv (put_stm i s' ?o)"
      by (intro sched_inv_upd [OF a(1) k, of _ s'])
        (use a(6-9) d(2-4) d5(2,3) k st(2) tb s' in \<open>simp_all add: m tab_put_stm pp linked_def\<close>)
    then show ?thesis
      using False ended_inv [OF check_no_active_ended]
      by (simp add: stream_mark_closed_eq m_def [symmetric] Let_def upd_stm_def m s'_def)
  qed
qed

section \<open>Releasing a closed stream\<close>

lemma upd_same_inv:
  assumes "sched_inv ss" "same_links (stm ss i) (f (stm ss i))"
  shows "sched_inv (upd_stm i f ss)" "keys (upd_stm i f ss) = keys ss"
  using sched_inv_put_same [OF assms] by (simp_all add: upd_stm_def)

lemma hand_over_rejected_inv:
  assumes "sched_inv ss" "i \<in> keys ss"
  shows "sched_inv (stream_hand_over_rejected i ss)"
  using assms upd_same_inv [OF assms(1), of i "\<lambda>s. s\<lparr>s_pending_attach := False\<rparr>"]
  by (simp add: stream_hand_over_rejected_def Let_def same_links_def wake_inv)

lemma do_release_inv:
  assumes "sched_inv ss" "i \<in> keys ss"
  shows "sched_inv (mux_stream_do_release i ss)"
  using assms upd_same_inv [OF assms(1), of i
      "\<lambda>s. s\<lparr>s_user_closed := s_user_closed s \<or> s_is_direct s, s_pending_attach := False\<rparr>"]
  by (simp add: mux_stream_do_release_def Let_def same_links_def wake_inv)

lemma tombstone_cb_inv:
  assumes "sched_inv ss" "i \<in> keys ss" "is_tomb (stm ss i)"
  shows "sched_inv (tombstone_cb i ss)"
proof -
  define s where "s = (stm ss i)\<lparr>s_tombstone := ev_timer_stop (s_tombstone (stm ss i))\<rparr>"
  let ?a = "(put_stm i s ss)\<lparr>sched := (sched (put_stm i s ss))\<lparr>num_tombstones := num_tombstones (sched ss) - 1\<rparr>\<rparr>"
  note d = sched_invD [OF assms(1)] and d5 = sched_invD(5-7) [OF assms(1), of i]
  have s: "\<not> is_tomb s" "s_id s = s_id (stm ss i)" "s_orphaned s = s_orphaned (stm ss i)"
    "s_sched_queue s = s_sched_queue (stm ss i)" "s_state s = s_state (stm ss i)"
    "s_delay_pending s = s_delay_pending (stm ss i)"
    by (simp_all add: s_def ev_timer_stop_def)
  have "0 < num_tombstones (sched ss)"
    using tally_put_entry [OF d(1) keysE [OF assms(2)], of is_tomb s] assms(3) s(1) d(9) by simp
  moreover have "linked (sched ?a) i s"
    using d5(1) assms(3) by (auto simp: linked_def s)
  ultimately have "sched_inv ?a"
    by (intro sched_inv_upd [OF assms(1,2), of _ s])
      (use d(2-4) d5(2,3) assms(2,3) s in \<open>simp_all add: tab_put_stm linked_def\<close>)
  then have "sched_inv (mux_sched_wake ?a i)"
    by (rule wake_inv) (simp add: assms(2))
  then show ?thesis
    by (simp add: tombstone_cb_def upd_stm_def s_def Let_def)
qed

lemma rst_notify_links [simp]: "links (stream_rst_notify_socket p) = links (fst p)"
  by (simp add: stream_rst_notify_socket_def case_prod_beta)

lemma stop_links_cong:
  assumes "sched a = sched ss" "s_id b = s_id s" "s_delay_pending b = s_delay_pending s" "s_orphaned b = s_orphaned s"
  shows "links (fst (stream_stop (a, b))) = links (fst (stream_stop (ss, s)))"
  using assms by (simp add: stream_stop_def mux_sched_delay_remove_def Let_def links_def sc_links_def)

lemma detach_user_links [simp]: "same_links s (stream_detach_user s)"
  by (simp add: stream_detach_user_def same_links_def split: option.split)

lemma stream_free_links: "links (mux_stream_free (ss, s)) = links (fst (stream_stop (ss, s)))"
proof -
  have d: "same_links b (stream_detach_user b)" for b
    by simp
  show ?thesis
    by (cases "s_halfopen_counted s"; simp add: mux_stream_free_def Let_def case_prod_beta;
        intro conjI impI stop_links_cong; use d in \<open>simp add: same_links_def\<close>)
qed

lemma map_of_filter_key: "map_of (filter (\<lambda>(j, s). j \<noteq> i) t) j = (if j = i then None else map_of t j)"
  by (induction t) auto

lemma keys_filter_key: "fst ` set (filter (\<lambda>(j, s). j \<noteq> i) t) = fst ` set t - {i}"
  by (induction t) auto

lemma tally_filter:
  "distinct (map fst t) \<Longrightarrow> map_of t i = Some s \<Longrightarrow> tally P (filter (\<lambda>(j, s). j \<noteq> i) t) + of_bool (P s) = tally P t"
proof (induction t)
  case (Cons p t)
  have "filter (\<lambda>(j, s). j \<noteq> i) t = t" if "i \<notin> fst ` set t"
    using that by (force simp: filter_id_conv)
  then show ?case
    using Cons by (cases p) (auto split: if_splits)
qed simp

text \<open>Unlinking a closed stream from the table and freeing it leaves no reference behind.\<close>

lemma remove_free_inv:
  assumes "sched_inv ss" "i \<in> keys ss" "is_closed (stm ss i)" "s_sched_queue (stm ss i) = SCHED_QUEUE_NONE"
    "\<not> is_tomb (stm ss i)"
  defines "r \<equiv> mux_stream_free (sched_remove_stream i ss, stm ss i)"
  shows "sched_inv r" "keys r \<subseteq> keys ss - {i}" "stm r j = stm ss j \<or> stm r j = dead_stream"
proof -
  define a where "a = ss\<lparr>sched := (sched ss)\<lparr>streams := map_option (filter (\<lambda>(j, s). j \<noteq> i)) (streams (sched ss)),
    num_closed := num_closed (sched ss) - 1\<rparr>\<rparr>"
  define s where "s = stm ss i"
  note d = sched_invD [OF assms(1)] and d5 = sched_invD(5-7) [OF assms(1), of i]
  have rm: "sched_remove_stream i ss = mux_sched_check_no_active_streams a"
    using keysE [OF assms(2)] assms(3) by (simp add: sched_remove_stream_def a_def Let_def)
  have r: "links r = links (fst (stream_stop (mux_sched_check_no_active_streams a, s)))"
    by (simp add: r_def rm stream_free_links s_def)
  have s: "\<not> is_tomb s" "\<not> s_orphaned s" "s_id s = i"
    using assms(2,5) d5 by (simp_all add: s_def)
  note st = stream_stop_live(1) [OF s]
  have ta: "tab a = filter (\<lambda>(j, s). j \<noteq> i) (tab ss)"
    by (simp add: a_def tab_def split: option.split)
  have c: "tally P (tab a) + of_bool (P (stm ss i)) = tally P (tab ss)" for P
    unfolding ta by (rule tally_filter [OF d(1) keysE [OF assms(2)]])
  consider (same) "links (mux_sched_check_no_active_streams a) = links a"
    | (down) "links (mux_sched_check_no_active_streams a) = (None, [], [], [], None, 0, 0)"
    using check_no_active_ended [of a] by (auto simp: ended_def)
  then have "sched_inv r \<and> keys r \<subseteq> keys ss - {i} \<and> (stm r j = stm ss j \<or> stm r j = dead_stream)"
  proof cases
    case same
    define b where "b = mux_sched_check_no_active_streams a"
    have b: "streams (sched b) = streams (sched a)" "sched_fifo (sched b) = sched_fifo (sched ss)"
      "lp_fifo (sched b) = lp_fifo (sched ss)" "delay_list (sched b) = delay_list (sched ss)"
      "drr_active (sched b) = drr_active (sched ss)" "num_closed (sched b) = num_closed (sched ss) - 1"
      "num_tombstones (sched b) = num_tombstones (sched ss)"
      using same unfolding b_def [symmetric] by (simp_all add: links_def sc_links_def a_def)
    have l: "tab r = tab a" "sched_fifo (sched r) = sched_fifo (sched ss)" "lp_fifo (sched r) = lp_fifo (sched ss)"
      "delay_list (sched r) = (if s_delay_pending s then remove1 i (delay_list (sched ss)) else delay_list (sched ss))"
      "drr_active (sched r) = (if drr_active (sched ss) = Some i then None else drr_active (sched ss))"
      "num_closed (sched r) = num_closed (sched ss) - 1" "num_tombstones (sched r) = num_tombstones (sched ss)"
      using r unfolding b_def [symmetric] st by (simp_all add: tab_def links_def sc_links_def b)
    have sm: "stm r j = (if j = i then dead_stream else stm ss j)" for j
      by (simp add: stm_def l(1) ta map_of_filter_key)
    have k: "keys r = keys ss - {i}"
      unfolding keys_def l(1) ta by (rule keys_filter_key)
    have "linked (sched r) j (stm r j)" for j
    proof (cases "j = i")
      case True
      then show ?thesis
        using d5(1) [unfolded linked_def] d(4) assms(3,4) by (auto simp: sm linked_dead l s_def)
    next
      case False
      then show ?thesis
        using d(5) [of j] by (simp add: sm linked_def l)
    qed
    moreover have "distinct (map fst (tab r))"
      using d(1) by (simp add: l ta distinct_map_filter)
    ultimately show ?thesis
      using d(2-4,6-9) c [of is_closed] c [of is_tomb] assms(3,5)
      by (simp add: sched_inv_def k sm l)
  next
    case down
    have "links r = (None, [], [], [], None, 0, 0)"
      using down r by (simp add: st links_def sc_links_def)
    then show ?thesis
      using links_down [of r] by (simp add: links_def sc_links_def keys_def tab_def stm_def)
  qed
  then show "sched_inv r" "keys r \<subseteq> keys ss - {i}" "stm r j = stm ss j \<or> stm r j = dead_stream"
    by auto
qed

section \<open>Opening streams\<close>

lemma alloc_next: "(ucast (serial_add16 (ucast (i :: u16)) 2) :: u16) = i + 2"
  by (simp add: serial_add16_word)

lemma alloc_loop_spec:
  "alloc_loop used n i = None \<Longrightarrow> k < n \<Longrightarrow> i + of_nat (2 * k) = 0 \<or> i + of_nat (2 * k) \<in> used"
  "alloc_loop used n i = Some j \<Longrightarrow> j \<noteq> 0 \<and> j \<notin> used \<and> (\<exists>k<n. j = i + of_nat (2 * k))"
proof (induction n arbitrary: i k)
  case (Suc n)
  {
    case 1
    show ?case
    proof (cases k)
      case 0
      then show ?thesis
        using 1 by (auto simp: STREAMID_CTRL_def split: if_splits)
    next
      case (Suc l)
      then show ?thesis
        using 1 Suc.IH(1) [of "i + 2" l] by (auto simp: alloc_next add.assoc STREAMID_CTRL_def split: if_splits)
    qed
  next
    case 2
    show ?case
    proof (cases "i \<noteq> STREAMID_CTRL \<and> i \<notin> used")
      case True
      then show ?thesis
        using 2 by (auto simp: STREAMID_CTRL_def intro!: exI [of _ 0])
    next
      case False
      then have "alloc_loop used n (i + 2) = Some j"
        using 2 by (simp only: alloc_loop.simps alloc_next if_False)
      from Suc.IH(2) [OF this] obtain k where "j \<noteq> 0" "j \<notin> used" "k < n" "j = i + 2 + of_nat (2 * k)"
        by blast
      then show ?thesis
        by (auto simp: add.assoc intro!: exI [of _ "Suc k"])
    qed
  }
qed auto

lemma even_unat: "even (unat (w :: u16)) = even w"
proof -
  have "bit (unat w) 0 = bit w 0"
    unfolding bit_unsigned_iff by simp
  then show ?thesis
    by (simp add: bit_0)
qed

lemma same_parity_reached:
  assumes "even i = even (j :: u16)"
  shows "\<exists>k<32768. j = i + of_nat (2 * k)"
proof (intro exI conjI)
  have e: "even (unat (j - i))"
    using assms by (simp add: even_unat)
  have "unat (j - i) < 65536"
    using unsigned_less [of "j - i"] by simp
  then show "unat (j - i) div 2 < 32768"
    by simp
  show "j = i + of_nat (2 * (unat (j - i) div 2))"
    using e by simp
qed

text \<open>C17. Allocating a stream ID yields an ID that no stream of the table has, of the parity
  that belongs to this end of the session (odd for the client, even for the server), and never
  the ID reserved for session control.  It fails only when every ID of that parity is in use:
  the search wraps around the whole 16-bit space and terminates.\<close>

theorem mux_sched_alloc_stream_id_fresh:
  assumes "mux_sched_alloc_stream_id ss = (i, ss')"
  shows "if i = STREAMID_CTRL
    then ss' = ss \<and> (\<forall>j. j \<noteq> STREAMID_CTRL \<and> odd j = (\<not> accepted ss) \<longrightarrow> j \<in> keys ss)
    else i \<notin> keys ss \<and> odd i = (\<not> accepted ss)
      \<and> ss' = ss\<lparr>sched := (sched ss)\<lparr>next_stream_id := i + 2\<rparr>\<rparr>"
proof -
  define n where "n = next_stream_id (sched ss)"
  define b where "b = (if n AND 1 \<noteq> (if accepted ss then 0 else 1) \<or> n = 0 then (if accepted ss then 2 else 1) else n)"
  have b: "odd b = (\<not> accepted ss)"
    by (auto simp: b_def and_one_eq even_iff_mod_2_eq_zero odd_iff_mod_2_eq_one)
  have e: "mux_sched_alloc_stream_id ss = (case alloc_loop (keys ss) 32768 b of
      None \<Rightarrow> (STREAMID_CTRL, ss)
    | Some i \<Rightarrow> (i, ss\<lparr>sched := (sched ss)\<lparr>next_stream_id := i + 2\<rparr>\<rparr>))"
    by (simp add: mux_sched_alloc_stream_id_def alloc_next keys_def b_def n_def Let_def cong: option.case_cong)
  show ?thesis
  proof (cases "alloc_loop (keys ss) 32768 b")
    case None
    have "j \<in> keys ss" if "j \<noteq> 0" "odd j = (\<not> accepted ss)" for j
      using same_parity_reached [of b j] alloc_loop_spec(1) [OF None] that b by auto
    then show ?thesis
      using None assms e by (auto simp: STREAMID_CTRL_def)
  next
    case (Some k)
    then show ?thesis
      using alloc_loop_spec(2) [OF Some] assms e b by (auto simp: STREAMID_CTRL_def)
  qed
qed

theorem mux_sched_alloc_stream_id_fresh_witness:
  "fst (mux_sched_alloc_stream_id sample_session) \<notin> keys sample_session
    \<and> odd (fst (mux_sched_alloc_stream_id sample_session))"
proof -
  have "alloc_loop {} 32768 i = Some i" if "i \<noteq> 0" for i
    using that alloc_loop.simps(2) [of "{}" 32767 i] by (simp add: STREAMID_CTRL_def)
  then have "fst (mux_sched_alloc_stream_id sample_session) \<noteq> STREAMID_CTRL"
    by (simp add: mux_sched_alloc_stream_id_def sample_session_def zero_session_def zero_sched_def tab_def
        STREAMID_CTRL_def)
  moreover have "\<not> accepted sample_session"
    by (simp add: sample_session_def zero_session_def)
  ultimately show ?thesis
    using mux_sched_alloc_stream_id_fresh [OF surjective_pairing, of sample_session] by simp
qed

lemma add_stream_inv:
  assumes "sched_inv ss" "mux_sched_add_stream ss s = (ok, ss')" "\<not> s_orphaned s" "\<not> is_closed s" "\<not> is_tomb s"
    "s_sched_queue s = SCHED_QUEUE_NONE" "\<not> s_delay_pending s"
  shows "sched_inv ss'" "ok \<Longrightarrow> keys ss' = insert (s_id s) (keys ss) \<and> s_id s \<notin> keys ss \<and> stm ss' (s_id s) = s"
    "\<not> ok \<Longrightarrow> links ss' = links ss"
proof -
  have k: "s_id s \<in> fst ` set (tab ss) \<longleftrightarrow> s_id s \<in> keys ss" "streams (sched ss) = None \<Longrightarrow> keys ss = {}"
    by (simp_all add: keys_def tab_def)
  have f: "ok \<Longrightarrow> s_id s \<notin> keys ss"
    using assms(2) k by (cases "streams (sched ss)") (auto simp: mux_sched_add_stream_def tab_def)
  have l: "links ss' = (if ok then (Some ((s_id s, s) # tab ss), sched_fifo (sched ss), lp_fifo (sched ss),
      delay_list (sched ss), drr_active (sched ss), num_closed (sched ss), num_tombstones (sched ss)) else links ss)"
    using assms(2) by (auto simp: mux_sched_add_stream_def heap_request_def links_def sc_links_def tab_def Let_def
        split: if_splits option.splits)
  have t: "ok \<Longrightarrow> tab ss' = (s_id s, s) # tab ss"
    using l by (simp add: links_def sc_links_def tab_def)
  show "ok \<Longrightarrow> keys ss' = insert (s_id s) (keys ss) \<and> s_id s \<notin> keys ss \<and> stm ss' (s_id s) = s"
    using t f by (simp add: keys_def stm_def)
  show "\<not> ok \<Longrightarrow> links ss' = links ss"
    using l by simp
  note d = sched_invD [OF assms(1)]
  show "sched_inv ss'"
  proof (cases ok)
    case True
    have sm: "stm ss' j = (if j = s_id s then s else stm ss j)" for j
      using t True by (simp add: stm_def)
    have q: "sched_fifo (sched ss') = sched_fifo (sched ss)" "lp_fifo (sched ss') = lp_fifo (sched ss)"
      "delay_list (sched ss') = delay_list (sched ss)" "drr_active (sched ss') = drr_active (sched ss)"
      using l True by (simp_all add: links_def sc_links_def)
    have n: "linked (sched ss) (s_id s) dead_stream"
      using d(5) [of "s_id s"] f True stm_missing by metis
    have "linked (sched ss') (s_id s) s"
      using n assms(4-7) unfolding linked_dead by (simp add: linked_def q)
    then have "linked (sched ss') j (stm ss' j)" for j
      using d(5) [of j] by (cases "j = s_id s") (simp_all add: sm linked_def q)
    moreover have "distinct (map fst (tab ss'))"
      using d(1) f t True by (simp add: keys_def)
    moreover have "keys ss' = insert (s_id s) (keys ss)"
      using t True by (simp add: keys_def)
    ultimately show ?thesis
      using d(2-4,6-9) l t True assms(3-5) unfolding sched_inv_def sm
      by (simp add: links_def sc_links_def)
  next
    case False
    then show ?thesis
      using l sched_inv_links [of ss' ss] assms(1) by simp
  qed
qed

end
