(* ===== verification/Egress.thy ===== *)
theory Egress
  imports Unacked Sched_Queue
begin

text \<open>
  The producers of outgoing frames (\<^verbatim>\<open>mux/send.c\<close>) and the queues they feed
  (\<^verbatim>\<open>mux/wire.c\<close>): packing onto the send queue, control, out-of-band and datagram
  frames, acknowledgements, the probe of the estimator (\<^verbatim>\<open>mux/estimator.c\<close>), and the
  removal of a reset stream's frames from entries that mix the frames of several streams.
\<close>

section \<open>The send queue\<close>

definition set_sendbuf :: "mux_frame list \<Rightarrow> mux_session \<Rightarrow> mux_session" where
  "set_sendbuf q ss = ss\<lparr>wire := (wire ss)\<lparr>sendbuf := q\<rparr>\<rparr>"

definition mux_wire_sendbuf_push :: "mux_frame \<Rightarrow> mux_session \<Rightarrow> mux_session" where
  "mux_wire_sendbuf_push frame ss =
    (let q = sendbuf (wire ss);
         tail = last q;
         record_cap = min (MUX_FRAME_HEADER_SIZE + f_cap tail) MUX_MAX_RECORD
     in if f_len frame \<le> MUX_MAX_RECORD \<and> sendbuf_staging (wire ss) \<and> f_len tail + f_len frame \<le> record_cap
        then pool_put frame (set_sendbuf (butlast q @ [tail\<lparr>f_data := f_data tail @ f_data frame\<rparr>]) ss)
        else ss\<lparr>wire := (wire ss)\<lparr>sendbuf := q @ [frame\<lparr>f_cursor := 0\<rparr>], sendbuf_staging := True\<rparr>\<rparr>)"

definition mux_notify_write :: "mux_session \<Rightarrow> mux_session" where
  "mux_notify_write ss =
    (if ss_state ss \<noteq> SESSION_ESTABLISHED then ss else mux_session_notify (set_tx_pending ss))"

section \<open>Control, out-of-band and datagram frames\<close>

definition ctrl_header :: "u16 \<Rightarrow> u8 \<Rightarrow> nat \<Rightarrow> mux_header" where
  "ctrl_header stream_id flags extra = \<lparr>h_version = MUX_PROTOCOL_VERSION, h_flags = flags, h_length = 0,
    h_stream_id = stream_id, h_extra = of_nat (min extra 65535)\<rparr>"

definition mux_session_send_ctrl :: "u16 \<Rightarrow> u8 \<Rightarrow> nat \<Rightarrow> mux_session \<Rightarrow> bool \<times> mux_session" where
  "mux_session_send_ctrl stream_id flags extra ss =
    (case pool_get ss (unat (max_payload ss)) of
       (None, ss) \<Rightarrow> (False, ss)
     | (Some frame, ss) \<Rightarrow>
         (let frame = frame\<lparr>f_cursor := 0, f_data := encode_frame (ctrl_header stream_id flags extra, [])\<rparr>;
              ss = (if stream_id \<noteq> STREAMID_CTRL \<and> retransmit_off (unacked ss) \<noteq> None
                    then ss\<lparr>wire := (wire ss)\<lparr>oobbuf := oobbuf (wire ss) @ [frame]\<rparr>\<rparr>
                    else mux_wire_sendbuf_push frame ss);
              ss = (if has_flag flags MUX_FLAG_RST then counter_add num_rst_sent 1 ss else ss)
          in (True, mux_notify_write ss)))"

text \<open>A missing payload is sent as zero bytes.\<close>

definition mux_session_send_oob ::
    "u8 \<Rightarrow> u8 list option \<Rightarrow> nat \<Rightarrow> mux_session \<Rightarrow> bool \<times> mux_session" where
  "mux_session_send_oob extra payload plen ss =
    (case pool_get ss (unat (max_payload ss)) of
       (None, ss) \<Rightarrow> (False, ss)
     | (Some frame, ss) \<Rightarrow>
         (let hdr = \<lparr>h_version = MUX_PROTOCOL_VERSION, h_flags = 0, h_length = of_nat plen,
                h_stream_id = STREAMID_CTRL, h_extra = ucast extra\<rparr>;
              body = (case payload of Some p \<Rightarrow> take plen p | None \<Rightarrow> replicate plen 0);
              frame = frame\<lparr>f_cursor := 0, f_data := encode_frame (hdr, body)\<rparr>
          in (True, mux_notify_write (ss\<lparr>wire := (wire ss)\<lparr>oobbuf := oobbuf (wire ss) @ [frame]\<rparr>\<rparr>))))"

definition mux_session_send_dgram :: "u8 \<Rightarrow> u16 \<Rightarrow> u8 list \<Rightarrow> mux_session \<Rightarrow> bool \<times> mux_session" where
  "mux_session_send_dgram flags flow payload ss =
    (let is_dgram = (flags = MUX_FLAG_PUSH);
         (frame, ss) =
           (if ss_state ss = SESSION_ESTABLISHED \<and> session_dgram_negotiated ss
               \<and> length payload \<le> unat (max_payload ss)
               \<and> length (dgrambuf (wire ss)) < nat (lossymux_queue (conf ss) mod 2 ^ 64)
            then pool_get ss (unat (max_payload ss)) else (None, ss))
     in case frame of
          None \<Rightarrow> (False, if is_dgram then counter_add pkt_dgram_dropped 1 ss else ss)
        | Some frame \<Rightarrow>
            (let hdr = \<lparr>h_version = MUX_PROTOCOL_VERSION, h_flags = flags, h_length = of_nat (length payload),
                   h_stream_id = STREAMID_CTRL, h_extra = flow\<rparr>;
                 frame = frame\<lparr>f_data := encode_frame (hdr, payload)\<rparr>;
                 ss = ss\<lparr>wire := (wire ss)\<lparr>dgrambuf := dgrambuf (wire ss) @ [frame]\<rparr>\<rparr>;
                 ss = (if t_active (w_idle_timeout ss)
                       then ss\<lparr>w_idle_timeout := ev_timer_again (w_idle_timeout ss)\<rparr> else ss)
             in (True, mux_notify_write ss)))"

definition dgram_frame_is_push :: "mux_frame \<Rightarrow> bool" where
  "dgram_frame_is_push frame \<longleftrightarrow> h_flags (mux_read_header (f_data frame)) = MUX_FLAG_PUSH"

definition mux_session_drop_dgrams :: "mux_session \<Rightarrow> mux_session" where
  "mux_session_drop_dgrams ss =
    (let q = dgrambuf (wire ss)
     in fold (\<lambda>frame ss. pool_put frame (if dgram_frame_is_push frame then counter_add pkt_dgram_dropped 1 ss else ss))
          q (ss\<lparr>wire := (wire ss)\<lparr>dgrambuf := []\<rparr>\<rparr>))"

definition mux_session_emit_ack :: "mux_session \<Rightarrow> mux_session" where
  "mux_session_emit_ack ss =
    (let emit = min (unat (unreported (unacked ss))) 65535;
         (ok, ss) = mux_session_send_ctrl STREAMID_CTRL MUX_FLAG_ACK emit ss
     in if ok then mux_unacked_ack_emitted ss emit else ss)"

section \<open>Discarding the frames of a stream\<close>

text \<open>Whether a sub-frame stays: it is another stream's, or a reset.\<close>

definition survives :: "u16 \<Rightarrow> mux_header \<Rightarrow> bool" where
  "survives stream_id hdr \<longleftrightarrow> \<not> (h_stream_id hdr = stream_id \<and> \<not> has_flag (h_flags hdr) MUX_FLAG_RST)"

text \<open>The first pass: whether the layout is malformed, and the bytes that stay.\<close>

function discard_measure :: "u16 \<Rightarrow> u8 list \<Rightarrow> nat \<Rightarrow> nat \<Rightarrow> bool \<times> nat" where
  "discard_measure stream_id data src kept =
    (if \<not> length data - src \<ge> MUX_FRAME_HEADER_SIZE then (False, kept)
     else let hdr = mux_read_header (drop src data);
              entry_len = MUX_FRAME_HEADER_SIZE + unat (h_length hdr) in
     if length data - src < entry_len then (True, kept)
     else discard_measure stream_id data (src + entry_len) (if survives stream_id hdr then kept + entry_len else kept))"
  by pat_completeness auto
termination
  by (relation "measure (\<lambda>(i, data, src, kept). length data - src)") (auto simp: MUX_FRAME_HEADER_SIZE_def)

declare discard_measure.simps [simp del]

text \<open>The second pass compacts in place; \<open>e\<close> is the length of the entry.\<close>

function discard_compact :: "u16 \<Rightarrow> u8 list \<Rightarrow> nat \<Rightarrow> nat \<Rightarrow> nat \<Rightarrow> u8 list \<times> nat" where
  "discard_compact stream_id data e dst src =
    (if \<not> e - src \<ge> MUX_FRAME_HEADER_SIZE then (data, dst)
     else let hdr = mux_read_header (drop src data);
              entry_len = MUX_FRAME_HEADER_SIZE + unat (h_length hdr) in
     if survives stream_id hdr
     then discard_compact stream_id (if dst \<noteq> src then store_at data dst (take entry_len (drop src data)) else data)
            e (dst + entry_len) (src + entry_len)
     else discard_compact stream_id data e dst (src + entry_len))"
  by pat_completeness auto
termination
  by (relation "measure (\<lambda>(i, data, e, dst, src). e - src)") (auto simp: MUX_FRAME_HEADER_SIZE_def)

declare discard_compact.simps [simp del]

text \<open>The walk over a queue.\<close>

fun discard_loop :: "u16 \<Rightarrow> bool \<Rightarrow> mux_frame list \<Rightarrow> mux_session \<Rightarrow> mux_frame list \<times> mux_session" where
  "discard_loop stream_id is_sendbuf [] ss = ([], ss)"
| "discard_loop stream_id is_sendbuf (frame # nxt) ss =
    (if f_pos frame \<noteq> 0 \<or> f_len frame < MUX_FRAME_HEADER_SIZE
        \<or> is_sendbuf \<and> retransmit_copy (unacked ss) = Some (f_addr frame)
     then (let (q, ss) = discard_loop stream_id is_sendbuf nxt ss in (frame # q, ss))
     else let (malformed, kept) = discard_measure stream_id (f_data frame) 0 0 in
     if malformed \<or> kept = f_len frame
     then (let (q, ss) = discard_loop stream_id is_sendbuf nxt ss in (frame # q, ss))
     else if kept > 0
     then (let (data, dst) = discard_compact stream_id (f_data frame) (f_len frame) 0 0;
               (q, ss) = discard_loop stream_id is_sendbuf nxt ss
           in (frame\<lparr>f_data := take dst data\<rparr> # q, ss))
     else let discarding_open_tail = (is_sendbuf \<and> sendbuf_staging (wire ss) \<and> nxt = []);
              ss = (if discarding_open_tail then ss\<lparr>wire := (wire ss)\<lparr>sendbuf_staging := False\<rparr>\<rparr> else ss)
          in discard_loop stream_id is_sendbuf nxt (pool_put frame ss))"

definition mux_session_discard_stream_frames :: "u16 \<Rightarrow> mux_session \<Rightarrow> mux_session" where
  "mux_session_discard_stream_frames stream_id ss =
    (let (q, ss) = discard_loop stream_id True (sendbuf (wire ss)) ss;
         ss = set_sendbuf q ss;
         (q, ss) = discard_loop stream_id False (oobbuf (wire ss)) ss
     in ss\<lparr>wire := (wire ss)\<lparr>oobbuf := q\<rparr>\<rparr>)"

section \<open>The estimator's probe\<close>

definition MUX_PING_PAYLOAD_SIZE :: nat where "MUX_PING_PAYLOAD_SIZE = 8"
definition MUX_PING_RATE_LIMIT_NS :: int where "MUX_PING_RATE_LIMIT_NS = 1000000000"
definition MUX_PING_STARTUP_INTERVAL_NS :: int where "MUX_PING_STARTUP_INTERVAL_NS = 100000000"
definition MUX_PING_PROBE_TIMEOUT_NS :: int where "MUX_PING_PROBE_TIMEOUT_NS = 5000000000"

definition send_ping :: "int \<Rightarrow> mux_session \<Rightarrow> bool \<times> mux_session" where
  "send_ping now_ns ss =
    (let payload = write_uint64 (of_int now_ns);
         (ok, ss) = mux_session_send_oob (ucast MUX_CTRL_PING) (Some payload) MUX_PING_PAYLOAD_SIZE ss
     in if \<not> ok then (False, ss)
        else (True, ss\<lparr>estimator := (estimator ss)\<lparr>last_probe_ns := now_ns, ping_in_flight := True\<rparr>\<rparr>))"

text \<open>The direction a probe cycle accumulates for.\<close>

datatype est_dir = Est_rx | Est_tx

fun set_sample :: "est_dir \<Rightarrow> (nat \<Rightarrow> nat) \<Rightarrow> mux_session \<Rightarrow> mux_session" where
  "set_sample Est_rx f ss = ss\<lparr>estimator := (estimator ss)
     \<lparr>e_rx := (e_rx (estimator ss))\<lparr>e_sample := f (e_sample (e_rx (estimator ss)))\<rparr>\<rparr>\<rparr>"
| "set_sample Est_tx f ss = ss\<lparr>estimator := (estimator ss)
     \<lparr>e_tx := (e_tx (estimator ss))\<lparr>e_sample := f (e_sample (e_tx (estimator ss)))\<rparr>\<rparr>\<rparr>"

definition run_probe_cycle :: "est_dir \<Rightarrow> nat \<Rightarrow> mux_session \<Rightarrow> mux_session" where
  "run_probe_cycle d bytes ss =
    (let sent_ns = os_clock_ns (os ss) in
     if ping_in_flight (estimator ss) \<and> sent_ns - last_probe_ns (estimator ss) < MUX_PING_PROBE_TIMEOUT_NS
     then set_sample d (\<lambda>n. n + bytes) ss
     else let ss = (if ping_in_flight (estimator ss)
                    then ss\<lparr>estimator := reset_samples ((estimator ss)\<lparr>ping_in_flight := False\<rparr>)\<rparr> else ss);
              min_interval = (if e_phase (e_rx (estimator ss)) = ESTIMATOR_STARTUP
                                 \<or> e_phase (e_tx (estimator ss)) = ESTIMATOR_STARTUP
                              then MUX_PING_STARTUP_INTERVAL_NS else MUX_PING_RATE_LIMIT_NS)
          in if last_probe_ns (estimator ss) \<noteq> 0 \<and> sent_ns - last_probe_ns (estimator ss) < min_interval then ss
             else let (ok, ss) = send_ping sent_ns ss
                  in if ok then set_sample d (\<lambda>_. bytes) ss else ss)"

definition mux_estimator_add :: "nat \<Rightarrow> mux_session \<Rightarrow> mux_session" where
  "mux_estimator_add bytes ss = run_probe_cycle Est_rx bytes ss"

definition mux_estimator_add_acked :: "nat \<Rightarrow> mux_session \<Rightarrow> mux_session" where
  "mux_estimator_add_acked bytes ss = run_probe_cycle Est_tx bytes ss"

section \<open>Packing\<close>

text \<open>An entry of the send queue fits the buffer behind it, and only the tail of the queue is
  open for packing, not yet touched by the transport.\<close>

definition entry_fits :: "mux_frame \<Rightarrow> bool" where
  "entry_fits f \<longleftrightarrow> f_len f \<le> MUX_FRAME_HEADER_SIZE + f_cap f"

definition staging_ok :: "wire_ctx \<Rightarrow> bool" where
  "staging_ok w \<longleftrightarrow> list_all entry_fits (sendbuf w) \<and> (sendbuf_staging w \<longrightarrow> sendbuf w \<noteq> [] \<and> f_pos (last (sendbuf w)) = 0)"

definition queue_bytes :: "mux_frame list \<Rightarrow> u8 list" where
  "queue_bytes q = concat (map f_data q)"

lemma queue_bytes_simps [simp]:
  "queue_bytes [] = []" "queue_bytes (f # q) = f_data f @ queue_bytes q"
  "queue_bytes (p @ q) = queue_bytes p @ queue_bytes q"
  by (simp_all add: queue_bytes_def)

lemma sendbuf_push_cases:
  obtains (packed) q tail where "sendbuf (wire ss) = q @ [tail]" "sendbuf_staging (wire ss)"
      "f_len tail + f_len frame \<le> min (MUX_FRAME_HEADER_SIZE + f_cap tail) MUX_MAX_RECORD"
      "mux_wire_sendbuf_push frame ss =
        pool_put frame (set_sendbuf (q @ [tail\<lparr>f_data := f_data tail @ f_data frame\<rparr>]) ss)"
    | (appended) "mux_wire_sendbuf_push frame ss = ss\<lparr>wire := (wire ss)
        \<lparr>sendbuf := sendbuf (wire ss) @ [frame\<lparr>f_cursor := 0\<rparr>], sendbuf_staging := True\<rparr>\<rparr>"
    | (unreachable) "sendbuf_staging (wire ss)" "sendbuf (wire ss) = []"
proof (cases "sendbuf (wire ss)" rule: rev_cases)
  case Nil
  then show thesis
    using that(2,3) by (cases "sendbuf_staging (wire ss)") (simp_all add: mux_wire_sendbuf_push_def)
next
  case (snoc q tail)
  then show thesis
    using that(1) [of q tail] that(2)
    by (cases "f_len frame \<le> MUX_MAX_RECORD \<and> sendbuf_staging (wire ss)
        \<and> f_len tail + f_len frame \<le> min (MUX_FRAME_HEADER_SIZE + f_cap tail) MUX_MAX_RECORD")
      (auto simp: mux_wire_sendbuf_push_def Let_def)
qed

text \<open>C19. Pushing a frame onto the send queue appends exactly its bytes to what will be
  written to the transport, whether the frame is copied into the open tail or linked as a new
  entry; the copy never runs past the tail's buffer or the record limit, entries already in
  flight are not touched, and every frame object is still owned by the queue or back in the
  pool.\<close>

theorem mux_wire_sendbuf_push_appends:
  assumes "staging_ok (wire ss)" "entry_fits frame"
  defines "r \<equiv> mux_wire_sendbuf_push frame ss"
  shows "queue_bytes (sendbuf (wire r)) = queue_bytes (sendbuf (wire ss)) @ f_data frame
    \<and> staging_ok (wire r) \<and> sendbuf_staging (wire r)
    \<and> freed r + addrs (sendbuf (wire r)) = freed ss + addrs (sendbuf (wire ss)) + {#f_addr frame#}
    \<and> (\<forall>f\<in>set (sendbuf (wire ss)). f_pos f > 0 \<longrightarrow> f \<in> set (sendbuf (wire r)))"
proof -
  show ?thesis
  proof (cases rule: sendbuf_push_cases [of ss frame])
    case (packed q tail)
    show ?thesis
      using packed assms(1)
      by (auto simp: r_def staging_ok_def entry_fits_def set_sendbuf_def freed_def addrs_def pool_put_def mux_frame_put_def)
  next
    case appended
    show ?thesis
      using assms(1,2) appended by (simp add: r_def staging_ok_def entry_fits_def freed_def)
  next
    case unreachable
    then show ?thesis
      using assms(1) by (simp add: staging_ok_def)
  qed
qed

section \<open>Discarding equals filtering\<close>

definition keeps :: "u16 \<Rightarrow> wire_frame \<Rightarrow> bool" where
  "keeps i hp = survives i (fst hp)"

lemma discard_measure_sum:
  assumes "\<forall>hp\<in>set fs. frame_ok hp" "length pre = src"
  shows "discard_measure i (pre @ encode_frames fs) src kept =
    (False, kept + length (encode_frames (filter (keeps i) fs)))"
  using assms
proof (induction fs arbitrary: pre src kept)
  case Nil
  then show ?case
    by (subst discard_measure.simps) (simp add: MUX_FRAME_HEADER_SIZE_def)
next
  case (Cons hp fs)
  have l: "unat (h_length (fst hp)) = length (snd hp)"
    using Cons.prems(1) by (simp add: frame_ok_def)
  have "discard_measure i ((pre @ encode_frame hp) @ encode_frames fs) (src + length (encode_frame hp)) k =
      (False, k + length (encode_frames (filter (keeps i) fs)))" for k
    by (rule Cons.IH) (use Cons.prems in auto)
  then show ?case
    using Cons.prems(2) l by (subst discard_measure.simps) (simp add: Let_def keeps_def)
qed

lemma discard_compact_step:
  assumes "drop src data = encode_frame hp @ r" "frame_ok hp" "e = src + length (encode_frame hp) + length r"
  shows "discard_compact i data e dst src =
    (if keeps i hp
     then discard_compact i (if dst \<noteq> src then store_at data dst (encode_frame hp) else data)
            e (dst + length (encode_frame hp)) (src + length (encode_frame hp))
     else discard_compact i data e dst (src + length (encode_frame hp)))"
proof -
  have "unat (h_length (fst hp)) = length (snd hp)"
    using assms(2) by (simp add: frame_ok_def)
  then show ?thesis
    using assms(1,3) by (subst discard_compact.simps) (simp add: Let_def keeps_def)
qed

lemma discard_compact_keeps:
  assumes "\<forall>hp\<in>set fs. frame_ok hp" "length kept = dst" "dst + length junk = src"
    "e = src + length (encode_frames fs)"
  shows "\<exists>data'. discard_compact i (kept @ junk @ encode_frames fs) e dst src =
      (data', dst + length (encode_frames (filter (keeps i) fs)))
    \<and> take (dst + length (encode_frames (filter (keeps i) fs))) data' =
      kept @ encode_frames (filter (keeps i) fs)"
  using assms
proof (induction fs arbitrary: kept junk dst src)
  case Nil
  then show ?case
    by (subst discard_compact.simps) (simp add: MUX_FRAME_HEADER_SIZE_def)
next
  case (Cons hp fs)
  let ?x = "encode_frame hp" and ?r = "encode_frames fs" and ?fs = "filter (keeps i) fs"
  let ?data = "kept @ junk @ ?x @ ?r"
  have hp: "frame_ok hp" "\<forall>hp\<in>set fs. frame_ok hp"
    using Cons.prems(1) by auto
  have "drop src ?data = ?x @ ?r" "e = src + length ?x + length ?r"
    using Cons.prems(2-4) by simp_all
  note step = discard_compact_step [OF this(1) hp(1) this(2)]
  show ?case
  proof (cases "keeps i hp")
    case True
    define junk' where "junk' = drop (length ?x) (junk @ ?x)"
    have "(if dst \<noteq> src then store_at ?data dst ?x else ?data) = (kept @ ?x) @ junk' @ ?r"
      unfolding junk'_def by (rule compact_move [OF Cons.prems(2,3)])
    moreover have "\<exists>data'. discard_compact i ((kept @ ?x) @ junk' @ ?r) e (dst + length ?x) (src + length ?x) =
        (data', dst + length ?x + length (encode_frames ?fs))
      \<and> take (dst + length ?x + length (encode_frames ?fs)) data' = (kept @ ?x) @ encode_frames ?fs"
      by (rule Cons.IH) (use Cons.prems hp in \<open>auto simp: junk'_def\<close>)
    ultimately show ?thesis
      using True by (simp add: step add.assoc)
  next
    case False
    have "\<exists>data'. discard_compact i (kept @ (junk @ ?x) @ ?r) e dst (src + length ?x) =
        (data', dst + length (encode_frames ?fs)) \<and> take (dst + length (encode_frames ?fs)) data' = kept @ encode_frames ?fs"
      by (rule Cons.IH) (use Cons.prems hp in auto)
    then show ?thesis
      using False by (simp add: step)
  qed
qed

text \<open>What is left of one entry: an entry in flight or the replay copy stays as it is.\<close>

definition discard_entry :: "u16 \<Rightarrow> bool \<Rightarrow> nat option \<Rightarrow> mux_frame \<Rightarrow> mux_frame list" where
  "discard_entry i is_sendbuf copy f =
    (if f_pos f \<noteq> 0 \<or> is_sendbuf \<and> copy = Some (f_addr f) then [f]
     else case filter (keeps i) (entry_frames f) of
            [] \<Rightarrow> []
          | fs \<Rightarrow> [f\<lparr>f_data := encode_frames fs\<rparr>])"

definition well_formed :: "mux_frame \<Rightarrow> bool" where
  "well_formed f \<longleftrightarrow> subframes (f_data f) \<noteq> None \<and> f_data f \<noteq> []"

lemma well_formedE:
  assumes "well_formed f"
  obtains "\<forall>hp\<in>set (entry_frames f). frame_ok hp" "f_data f = encode_frames (entry_frames f)"
    "entry_frames f \<noteq> []" "MUX_FRAME_HEADER_SIZE \<le> f_len f"
proof -
  obtain fs where fs: "subframes (f_data f) = Some fs"
    using assms by (auto simp: well_formed_def)
  note d = subframes_SomeD [OF fs]
  have e: "f_data f = encode_frames fs"
    using d by simp
  have "fs \<noteq> []"
    using e assms by (auto simp: well_formed_def)
  then have "MUX_FRAME_HEADER_SIZE \<le> f_len f"
    unfolding e by (cases fs) simp_all
  moreover have "entry_frames f = fs"
    using fs by (simp add: entry_frames_def)
  ultimately show thesis
    using that d e \<open>fs \<noteq> []\<close> by blast
qed

lemma filter_encode_length:
  "length (encode_frames (filter P fs)) = length (encode_frames fs) \<longleftrightarrow> filter P fs = fs"
proof -
  have le: "length (encode_frames (filter P fs)) \<le> length (encode_frames fs)" for fs
    by (induction fs) auto
  show ?thesis
  proof (induction fs)
    case (Cons f fs)
    show ?case
      using Cons le [of fs] by (auto simp: MUX_FRAME_HEADER_SIZE_def Cons_eq_filter_iff)
  qed simp
qed

lemma discard_loop_step:
  fixes i :: u16 and b :: bool and ss :: mux_session
  assumes "well_formed f"
  defines "e \<equiv> discard_entry i b (retransmit_copy (unacked ss)) f"
  shows "discard_loop i b (f # q) ss =
    (if e = [] then discard_loop i b q (pool_put f (if b \<and> sendbuf_staging (wire ss) \<and> q = []
        then ss\<lparr>wire := (wire ss)\<lparr>sendbuf_staging := False\<rparr>\<rparr> else ss))
     else let (q, ss) = discard_loop i b q ss in (e @ q, ss))"
proof -
  let ?fs = "filter (keeps i) (entry_frames f)"
  obtain ok: "\<forall>hp\<in>set (entry_frames f). frame_ok hp" and data: "f_data f = encode_frames (entry_frames f)"
    and ne: "entry_frames f \<noteq> []" and len: "MUX_FRAME_HEADER_SIZE \<le> f_len f"
    using well_formedE [OF assms(1)] by blast
  have m: "discard_measure i (f_data f) 0 0 = (False, length (encode_frames ?fs))"
    using discard_measure_sum [OF ok, of "[]"] by (simp add: data)
  obtain data' where c: "discard_compact i (f_data f) (f_len f) 0 0 = (data', length (encode_frames ?fs))"
    "take (length (encode_frames ?fs)) data' = encode_frames ?fs"
    using discard_compact_keeps [OF ok, of "[]" 0 "[]" 0 _ i] by (auto simp: data)
  have z: "encode_frames ?fs = [] \<longleftrightarrow> ?fs = []"
    by (cases ?fs) (auto simp: encode_frame_eq header_bytes_def)
  have same: "length (encode_frames ?fs) = f_len f \<Longrightarrow> f\<lparr>f_data := encode_frames ?fs\<rparr> = f"
    using filter_encode_length [of "keeps i" "entry_frames f"] data by simp
  show ?thesis
  proof (cases "f_pos f \<noteq> 0 \<or> b \<and> retransmit_copy (unacked ss) = Some (f_addr f)")
    case True
    then show ?thesis
      by (auto simp: e_def discard_entry_def Let_def)
  next
    case False
    then have e: "e = (if ?fs = [] then [] else [f\<lparr>f_data := encode_frames ?fs\<rparr>])"
      by (auto simp: e_def discard_entry_def split: list.split)
    have len': "0 < f_len f"
      using len header_size_pos by linarith
    show ?thesis
    proof (cases "?fs = []")
      case True
      then show ?thesis
        using False len len' m by (auto simp: e Let_def)
    next
      case ne: False
      then have pos: "0 < length (encode_frames ?fs)"
        using z by simp
      show ?thesis
        using False len m c pos ne same
        by (cases "length (encode_frames ?fs) = f_len f") (auto simp: e Let_def not_less case_prod_beta)
    qed
  qed
qed

text \<open>What discarding leaves of a queue.\<close>

definition discard_queue :: "u16 \<Rightarrow> bool \<Rightarrow> nat option \<Rightarrow> mux_frame list \<Rightarrow> mux_frame list" where
  "discard_queue i b copy q = concat (map (discard_entry i b copy) q)"

lemma discard_queue_simps [simp]:
  "discard_queue i b copy [] = []" "discard_queue i b copy (f # q) = discard_entry i b copy f @ discard_queue i b copy q"
  by (simp_all add: discard_queue_def)

lemma discard_entry_addrs: "e = discard_entry i b copy f \<Longrightarrow> e \<noteq> [] \<Longrightarrow> addrs e = {#f_addr f#}"
  by (auto simp: discard_entry_def split: if_splits list.splits)

lemma staging_same:
  "sendbuf_staging w = b \<Longrightarrow> ss\<lparr>wire := w\<lparr>sendbuf_staging := b\<rparr>\<rparr> = ss\<lparr>wire := w\<rparr>"
  by (cases w) simp

lemma discard_loop_spec:
  assumes "list_all well_formed q"
  shows "fst (discard_loop i b q ss) = discard_queue i b (retransmit_copy (unacked ss)) q
    \<and> freed (snd (discard_loop i b q ss)) + addrs (fst (discard_loop i b q ss)) = freed ss + addrs q
    \<and> (\<exists>pl. snd (discard_loop i b q ss) = ss\<lparr>pool := pl, wire := (wire ss)\<lparr>sendbuf_staging := sendbuf_staging (wire ss)
          \<and> \<not> (b \<and> q \<noteq> [] \<and> discard_entry i b (retransmit_copy (unacked ss)) (last q) = [])\<rparr>\<rparr>)"
  using assms
proof (induction q arbitrary: ss)
  case Nil
  show ?case
    by (auto intro!: exI [of _ "pool ss"])
next
  case (Cons f q)
  let ?c = "retransmit_copy (unacked ss)"
  define e where "e = discard_entry i b ?c f"
  define s1 where "s1 = (if e = [] then pool_put f (if b \<and> sendbuf_staging (wire ss) \<and> q = []
        then ss\<lparr>wire := (wire ss)\<lparr>sendbuf_staging := False\<rparr>\<rparr> else ss) else ss)"
  have f: "well_formed f" "list_all well_formed q"
    using Cons.prems by simp_all
  have st: "discard_loop i b (f # q) ss = (e @ fst (discard_loop i b q s1), snd (discard_loop i b q s1))"
    by (simp only: discard_loop_step [OF f(1)] e_def [symmetric] s1_def) (simp add: case_prod_beta)
  have s1: "retransmit_copy (unacked s1) = ?c" "freed s1 + addrs e = freed ss + {#f_addr f#}"
    "\<exists>pl. s1 = ss\<lparr>pool := pl, wire := (wire ss)\<lparr>sendbuf_staging := sendbuf_staging (wire ss) \<and> \<not> (b \<and> q = [] \<and> e = [])\<rparr>\<rparr>"
    using discard_entry_addrs [OF e_def]
    by (auto simp: s1_def freed_def pool_put_def mux_frame_put_def intro!: exI [of _ "pool s1"] simp: staging_same)
  note IH = Cons.IH [OF f(2), of s1, unfolded s1(1)]
  obtain p1 where p1: "s1 = ss\<lparr>pool := p1, wire := (wire ss)
      \<lparr>sendbuf_staging := sendbuf_staging (wire ss) \<and> \<not> (b \<and> q = [] \<and> e = [])\<rparr>\<rparr>"
    using s1(3) by blast
  obtain pl where pl: "snd (discard_loop i b q s1) = s1\<lparr>pool := pl, wire := (wire s1)\<lparr>sendbuf_staging :=
      sendbuf_staging (wire s1) \<and> \<not> (b \<and> q \<noteq> [] \<and> discard_entry i b ?c (last q) = [])\<rparr>\<rparr>"
    using IH by blast
  have "snd (discard_loop i b (f # q) ss) = ss\<lparr>pool := pl, wire := (wire ss)\<lparr>sendbuf_staging := sendbuf_staging (wire ss)
      \<and> \<not> (b \<and> f # q \<noteq> [] \<and> discard_entry i b ?c (last (f # q)) = [])\<rparr>\<rparr>"
    unfolding st snd_conv pl unfolding p1 by (cases "q = []") (simp_all add: e_def)
  moreover have "freed (snd (discard_loop i b q s1)) + addrs (fst (discard_loop i b q s1)) = freed s1 + addrs q"
    using IH by blast
  then have "freed (snd (discard_loop i b (f # q) ss)) + addrs (fst (discard_loop i b (f # q) ss))
      = freed s1 + addrs e + addrs q"
    unfolding st by (simp add: ac_simps)
  then have "freed (snd (discard_loop i b (f # q) ss)) + addrs (fst (discard_loop i b (f # q) ss)) = freed ss + addrs (f # q)"
    unfolding s1(2) by (simp add: ac_simps)
  moreover have "fst (discard_loop i b (f # q) ss) = discard_queue i b ?c (f # q)"
    unfolding st fst_conv using IH by (simp only: discard_queue_simps e_def)
  ultimately show ?case
    by blast
qed

text \<open>C18. Discarding a stream's queued frames is exactly the filter it stands for: in every
  entry that is not yet in flight the stream's frames disappear, except its resets, and the
  frames of all other streams stay, in order and byte for byte; an entry left empty goes back
  to the pool, and the flag for the open tail is dropped with it.  The frame being replayed
  and partly written entries are not touched.  The two in-place passes over packed entries
  implement this for the send queue and the out-of-band queue alike.\<close>

theorem mux_session_discard_stream_frames_filters:
  fixes i :: u16
  assumes "list_all well_formed (sendbuf (wire ss))" "list_all well_formed (oobbuf (wire ss))"
  defines "r \<equiv> mux_session_discard_stream_frames i ss" and "copy \<equiv> retransmit_copy (unacked ss)"
  shows "sendbuf (wire r) = discard_queue i True copy (sendbuf (wire ss))
    \<and> oobbuf (wire r) = discard_queue i False copy (oobbuf (wire ss))
    \<and> sendbuf_staging (wire r) = (sendbuf_staging (wire ss) \<and> \<not> (sendbuf (wire ss) \<noteq> []
        \<and> discard_entry i True copy (last (sendbuf (wire ss))) = []))
    \<and> freed r + held r = freed ss + held ss \<and> unacked r = unacked ss \<and> sched r = sched ss"
proof -
  define q1 s1 where "q1 = fst (discard_loop i True (sendbuf (wire ss)) ss)"
    and "s1 = set_sendbuf q1 (snd (discard_loop i True (sendbuf (wire ss)) ss))"
  define q2 s2 where "q2 = fst (discard_loop i False (oobbuf (wire ss)) s1)"
    and "s2 = snd (discard_loop i False (oobbuf (wire ss)) s1)"
  note d1 = discard_loop_spec [OF assms(1), of i True ss, folded q1_def]
  obtain p1 where p1: "snd (discard_loop i True (sendbuf (wire ss)) ss) = ss\<lparr>pool := p1, wire := (wire ss)
      \<lparr>sendbuf_staging := sendbuf_staging (wire ss) \<and> \<not> (True \<and> sendbuf (wire ss) \<noteq> []
        \<and> discard_entry i True (retransmit_copy (unacked ss)) (last (sendbuf (wire ss))) = [])\<rparr>\<rparr>"
    using d1 by blast
  note d2 = discard_loop_spec [OF assms(2), of i False s1, folded q2_def s2_def]
  have s1: "unacked s1 = unacked ss" "oobbuf (wire s1) = oobbuf (wire ss)" "sched s1 = sched ss"
    "dgrambuf (wire s1) = dgrambuf (wire ss)" "sendbuf (wire s1) = q1"
    "freed s1 = freed (snd (discard_loop i True (sendbuf (wire ss)) ss))"
    "sendbuf_staging (wire s1) = (sendbuf_staging (wire ss) \<and> \<not> (sendbuf (wire ss) \<noteq> []
        \<and> discard_entry i True copy (last (sendbuf (wire ss))) = []))"
    unfolding s1_def p1 by (simp_all add: set_sendbuf_def freed_def copy_def)
  obtain p2 where p2: "s2 = s1\<lparr>pool := p2, wire := (wire s1)\<lparr>sendbuf_staging := sendbuf_staging (wire s1)\<rparr>\<rparr>"
    using d2 by auto
  have r: "r = s2\<lparr>wire := (wire s2)\<lparr>oobbuf := q2\<rparr>\<rparr>"
    by (simp add: r_def mux_session_discard_stream_frames_def case_prod_beta Let_def q1_def s1_def [symmetric]
        q2_def s2_def) (simp add: s1_def q1_def set_sendbuf_def p1)
  have fr: "freed r = freed s2" "tab r = tab ss"
    by (simp_all add: r p2 freed_def tab_def s1)
  have "freed r + held r = freed s2 + addrs q2 + addrs q1 + addrs (dgrambuf (wire ss))
      + addrs (ring_items (u_ring (unacked ss))) + addrs (queued (tab ss))"
    unfolding held_def fr by (simp add: r p2 s1 ac_simps)
  also have "freed s2 + addrs q2 = freed s1 + addrs (oobbuf (wire ss))"
    using d2 by blast
  also have "freed s1 + addrs (oobbuf (wire ss)) + addrs q1 = freed ss + addrs (sendbuf (wire ss)) + addrs (oobbuf (wire ss))"
    using d1 by (simp add: s1(6)) (metis add.assoc add.commute)
  finally have "freed r + held r = freed ss + held ss"
    by (simp add: held_def ac_simps)
  then show ?thesis
    using d1 d2 by (simp add: r p2 s1 copy_def)
qed

section \<open>Examples\<close>

definition sample_queued :: mux_session where
  "sample_queued = sample_session\<lparr>wire := (wire sample_session)\<lparr>sendbuf := [sample_entry], oobbuf := [],
    sendbuf_staging := True\<rparr>, unacked := zero_unacked\<rparr>"

lemma sample_entry_frames:
  "subframes (f_data sample_entry) =
    Some [(sample_hdr 8 3 1, [1, 2, 3]), (sample_hdr 16 0 0, []), (sample_hdr 4 0 3, [])]"
  using subframes_encode_append [of "[(sample_hdr 8 3 1, [1, 2, 3]), (sample_hdr 16 0 0, []), (sample_hdr 4 0 3, [])]" "[]"]
  by (simp add: sample_entry_def sample_frame_def frame_ok_def sample_hdr_def)

lemma sample_entry_facts:
  "f_pos sample_entry = 0" "entry_fits sample_entry" "f_len sample_entry = 27" "well_formed sample_entry"
proof -
  show pos: "f_pos sample_entry = 0" "entry_fits sample_entry" and len: "f_len sample_entry = 27"
    by (simp_all add: sample_entry_def sample_frame_def entry_fits_def MUX_FRAME_HEADER_SIZE_def)
  show "well_formed sample_entry"
    using len by (auto simp: well_formed_def sample_entry_frames)
qed

theorem mux_wire_sendbuf_push_appends_witness:
  "queue_bytes (sendbuf (wire (mux_wire_sendbuf_push sample_entry sample_queued))) =
    f_data sample_entry @ f_data sample_entry"
  using mux_wire_sendbuf_push_appends [of sample_queued sample_entry]
  by (simp add: sample_queued_def staging_ok_def sample_entry_facts)

theorem mux_session_discard_stream_frames_filters_witness:
  "sendbuf (wire (mux_session_discard_stream_frames 1 sample_queued)) =
    [sample_entry\<lparr>f_data := encode_frames [(sample_hdr 16 0 0, []), (sample_hdr 4 0 3, [])]\<rparr>]"
  using mux_session_discard_stream_frames_filters [of sample_queued 1]
  by (simp add: sample_queued_def sample_entry_facts zero_unacked_def discard_entry_def entry_frames_def
      sample_entry_frames keeps_def survives_def sample_hdr_def has_flag_def MUX_FLAG_RST_def)

end
