(* ===== verification/Stream_Ops.thy ===== *)
theory Stream_Ops
  imports Egress
begin

text \<open>
  The operations of one stream (\<^verbatim>\<open>mux/stream.c\<close>): window grants, the local socket's
  watcher, the abortive and the graceful close, the delivery of received payload to the local
  socket or the application, credit updates, the exchange of \<open>FIN\<close> and \<open>RST\<close>, the
  attachment of a socket or of a direct watcher, and the send queue.  A stream is named by its
  ID in the stream table; when an operation ends the session the table disappears, which the
  code tests with \<^verbatim>\<open>session_streams_freed\<close>.
\<close>

section \<open>Window grants\<close>

definition MUX_PRESSURE_MIN_SCALE :: rat where "MUX_PRESSURE_MIN_SCALE = 1 / 8"

text \<open>A 32-bit integer converts to a double exactly.\<close>

definition session_pressure_scale :: "mux_session \<Rightarrow> rat" where
  "session_pressure_scale ss =
    (if mem_pressure_hi (conf ss) \<le> 0 then 1
     else if recv_buffered_bytes ss = 0 then 1
     else let buffered = d_of_nat (recv_buffered_bytes ss);
              s_high = of_int (mem_pressure_hi (conf ss));
              s_low = of_int (mem_pressure_lo (conf ss)) in
     if buffered \<le> s_low then 1
     else if buffered \<ge> s_high then MUX_PRESSURE_MIN_SCALE
     else d_minus 1 (d_mult (d_div (d_minus buffered s_low) (d_minus s_high s_low))
            (1 - MUX_PRESSURE_MIN_SCALE)))"

definition mux_stream_grant_inc :: "mux_session \<Rightarrow> mux_stream \<Rightarrow> nat" where
  "mux_stream_grant_inc ss s =
    (let grantable = stream_grantable_bytes s in
     if grantable < MUX_WINDOW_UNIT then 0
     else let scale = session_pressure_scale ss;
              scaled = d_trunc (d_mult (d_of_nat grantable) scale);
              effective = max scaled MUX_WINDOW_UNIT
          in min (effective div MUX_WINDOW_UNIT) 65535)"

section \<open>The watchers of a stream\<close>

definition stream_can_shutdown_write_now :: "mux_stream \<Rightarrow> bool" where
  "stream_can_shutdown_write_now s \<longleftrightarrow> s_is_direct s \<or> s_connected s"

definition stream_shutdown_local_write :: "mux_session \<times> mux_stream \<Rightarrow> mux_session \<times> mux_stream" where
  "stream_shutdown_local_write p =
    (let (ss, s) = p in
     if s_tx_shutdown s then (ss, s)
     else (if \<not> s_is_direct s then put_out (Out_shutdown_fd (io_fd (s_io s))) ss else ss, s\<lparr>s_tx_shutdown := True\<rparr>))"

definition stream_finish_drained_write :: "u16 \<Rightarrow> mux_session \<Rightarrow> bool \<times> mux_session" where
  "stream_finish_drained_write i ss =
    (if \<not> stream_can_shutdown_write_now (stm ss i) then (False, ss)
     else let ss = (if \<not> s_tx_shutdown (stm ss i) then on_stm i stream_shutdown_local_write ss else ss)
          in if s_state (stm ss i) = STREAM_CLOSING then (True, stream_mark_closed i ss) else (False, ss))"

definition stream_local_read_allowed :: "mux_stream \<Rightarrow> bool" where
  "stream_local_read_allowed s \<longleftrightarrow>
    (if s_rx_eof s then False
     else if s_state s = STREAM_INIT then s_send_queue s = []
     else s_state s = STREAM_ESTABLISHED \<or> s_state s = STREAM_CLOSE_WAIT)"

definition update_watcher :: "mux_stream \<Rightarrow> mux_stream" where
  "update_watcher s =
    (if s_state s = STREAM_CLOSED then s
     else if io_fd (s_io s) = - 1 then s
     else if \<not> s_connected s then s\<lparr>s_io := modify_io_events (s_io s) False True\<rparr>
     else let rd = (stream_local_read_allowed s \<and> stream_read_credit_avail s \<noteq> 0);
              wr = (bytebuf_readable (s_recvbuf s) > 0)
          in s\<lparr>s_io := modify_io_events (s_io s) rd wr\<rparr>)"

definition stream_feed_user :: "bool \<Rightarrow> bool \<Rightarrow> mux_stream \<Rightarrow> mux_stream" where
  "stream_feed_user rd wr s =
    (if \<not> s_is_direct s then s
     else case s_w_io s of
            None \<Rightarrow> s
          | Some w \<Rightarrow> s\<lparr>s_w_io := Some (w\<lparr>mio_pend_read := mio_pend_read w \<or> (rd \<and> mio_read w),
                mio_pend_write := mio_pend_write w \<or> (wr \<and> mio_write w)\<rparr>)\<rparr>)"

section \<open>Closing\<close>

text \<open>Return the receive buffer's bytes to the session's gauge and empty it.\<close>

definition stream_drop_recvbuf :: "u16 \<Rightarrow> mux_session \<Rightarrow> mux_session" where
  "stream_drop_recvbuf i ss =
    (let len = rb_len (s_recvbuf (stm ss i));
         ss = counter_sub cnt_recv_buffered_bytes len (ss\<lparr>recv_buffered_bytes := recv_buffered_bytes ss - len\<rparr>)
     in upd_stm i (\<lambda>s. s\<lparr>s_recvbuf := bytebuf_reset (s_recvbuf s), s_buffered_bytes := 0\<rparr>) ss)"

definition stream_reset_unread :: "u16 \<Rightarrow> mux_session \<Rightarrow> mux_session" where
  "stream_reset_unread i ss =
    (let ss = mux_session_discard_stream_frames i (stream_drop_recvbuf i ss) in
     if s_rst_sent (stm ss i) \<or> s_rst_received (stm ss i) then ss
     else let (ok, ss) = mux_session_send_ctrl i MUX_FLAG_RST (unat (status_code MUX_STATUS_CANCEL)) ss
          in upd_stm i (\<lambda>s. s\<lparr>s_rst_sent := ok, s_aborted := True\<rparr>) ss)"

definition mux_stream_do_close :: "u16 \<Rightarrow> mux_session \<Rightarrow> mux_session" where
  "mux_stream_do_close i ss =
    (if s_state (stm ss i) = STREAM_CLOSED then ss
     else let ss = (if bytebuf_readable (s_recvbuf (stm ss i)) > 0
                    then let ss = stream_reset_unread i ss
                         in if \<not> s_is_direct (stm ss i) then stream_rst_notify_socket (ss, stm ss i) else ss
                    else ss)
          in stream_mark_closed i (upd_stm i stream_detach_user ss))"

definition mux_stream_do_shutdown :: "u16 \<Rightarrow> mux_session \<Rightarrow> mux_session" where
  "mux_stream_do_shutdown i ss =
    (let ss = upd_stm i (\<lambda>s. s\<lparr>s_rx_eof := True\<rparr>) ss;
         ss = (if s_is_direct (stm ss i)
               then upd_stm i (\<lambda>s. s\<lparr>s_w_io := map_option (\<lambda>w. w\<lparr>mio_pend_write := False\<rparr>) (s_w_io s)\<rparr>) ss
               else ss);
         s = stm ss i
     in if s_is_direct s \<and> s_user_closed s \<and> s_state s = STREAM_CLOSING \<and> bytebuf_readable (s_recvbuf s) = 0
        then stream_mark_closed i ss
        else mux_sched_wake ss i)"

text \<open>The part of \<^verbatim>\<open>mux_stream_close\<close> that runs for an open stream with a mode.\<close>

definition stream_relinquish :: "u16 \<Rightarrow> mux_session \<Rightarrow> mux_session" where
  "stream_relinquish i ss =
    (let ss = (if s_is_direct (stm ss i) then upd_stm i (\<lambda>s. s\<lparr>s_user_closed := True, s_w_io := None\<rparr>) ss else ss)
     in if bytebuf_readable (s_recvbuf (stm ss i)) = 0 then mux_stream_do_shutdown i ss
        else mux_stream_do_close i ss)"

text \<open>The report of a reset runs the application's callback at once, which may close the
  stream.\<close>

definition stream_rst_notify_direct :: "u16 \<Rightarrow> mux_session \<Rightarrow> mux_session" where
  "stream_rst_notify_direct i ss =
    (case s_w_io (stm ss i) of
       None \<Rightarrow> ss
     | Some w \<Rightarrow>
         (let ss = upd_stm i (\<lambda>s. s\<lparr>s_w_io := Some (w\<lparr>mio_pend_read := False, mio_pend_write := False\<rparr>)\<rparr>) ss;
              ss = put_out (Out_invoke_read i) ss
          in if \<not> on_reset (cb ss) i then ss
             else if s_state (stm ss i) = STREAM_CLOSED then mux_stream_do_release i ss
             else stream_relinquish i (upd_stm i (\<lambda>s. s\<lparr>s_pending_attach := False\<rparr>) ss)))"

definition stream_abort_notify_close :: "u16 \<Rightarrow> mux_session \<Rightarrow> mux_session" where
  "stream_abort_notify_close i ss =
    (if s_is_direct (stm ss i)
     then let ss = stream_rst_notify_direct i ss in
          if session_streams_freed ss \<or> s_state (stm ss i) = STREAM_CLOSED then ss
          else stream_mark_closed i (upd_stm i stream_detach_user ss)
     else stream_mark_closed i (stream_rst_notify_socket (ss, stm ss i)))"

definition mux_stream_abort :: "u16 \<Rightarrow> mux_status \<Rightarrow> mux_session \<Rightarrow> mux_session" where
  "mux_stream_abort i code ss =
    (if s_state (stm ss i) = STREAM_CLOSED then ss
     else let ss = counter_add num_stream_errors 1 ss;
              ss = upd_stm i (\<lambda>s. s\<lparr>s_aborted := True\<rparr>) ss;
              ss = mux_session_discard_stream_frames i ss;
              ss = (if \<not> s_rst_sent (stm ss i)
                    then let (ok, ss) = mux_session_send_ctrl i MUX_FLAG_RST (unat (status_code code)) ss
                         in upd_stm i (\<lambda>s. s\<lparr>s_rst_sent := ok\<rparr>) ss
                    else ss)
          in stream_abort_notify_close i ss)"

definition mux_stream_abort_unopened :: "u16 \<Rightarrow> mux_session \<Rightarrow> mux_session" where
  "mux_stream_abort_unopened i ss =
    stream_abort_notify_close i (upd_stm i (\<lambda>s. s\<lparr>s_aborted := True\<rparr>) (counter_add num_stream_errors 1 ss))"

definition mux_stream_recv_rst :: "u16 \<Rightarrow> mux_session \<Rightarrow> mux_session" where
  "mux_stream_recv_rst i ss =
    (let ss = upd_stm i (\<lambda>s. s\<lparr>s_rst_received := True\<rparr>) ss;
         direct = s_is_direct (stm ss i);
         ss = (if \<not> direct then stream_rst_notify_socket (ss, stm ss i) else stream_rst_notify_direct i ss)
     in if direct \<and> session_streams_freed ss then ss
        else if s_state (stm ss i) = STREAM_CLOSED then ss
        else let ss = upd_stm i stream_detach_user ss;
                 ss = mux_session_discard_stream_frames i ss
             in stream_mark_closed i (stream_drop_recvbuf i ss))"

section \<open>Acknowledging received data\<close>

definition MUX_NAGLE_TICKS :: u8 where "MUX_NAGLE_TICKS = 1"
definition MUX_DELAYED_ACK_TICKS :: u8 where "MUX_DELAYED_ACK_TICKS = 1"

definition stream_try_shrink_recv_window :: "mux_session \<Rightarrow> mux_stream \<Rightarrow> mux_stream" where
  "stream_try_shrink_recv_window ss s =
    (if \<not> auto_stream_window ss then s
     else let target = unat (stream_window ss) * MUX_WINDOW_UNIT in
     if target \<ge> unat (s_recv_window s) then s
     else let outstanding = unat (s_grant_sent s - s_bytes_received s) in
     if unat (s_buffered_bytes s) + outstanding > target then s
     else s\<lparr>s_recv_window := of_nat target\<rparr>)"

definition mux_stream_check_ack :: "u16 \<Rightarrow> mux_session \<Rightarrow> mux_session" where
  "mux_stream_check_ack i ss =
    (if s_state (stm ss i) = STREAM_CLOSED then ss
     else let ss = upd_stm i (stream_try_shrink_recv_window ss) ss in
     if s_ack_pending (stm ss i) then ss
     else let grantable = stream_grantable_bytes (stm ss i) in
     if grantable < MUX_WINDOW_UNIT then ss
     else let immediate = 2 * unat (max_payload ss) in
     if \<not> grantable \<ge> immediate then mux_sched_delay i MUX_DELAYED_ACK_TICKS ss
     else let ss = upd_stm i (\<lambda>s. s\<lparr>s_ack_pending := True\<rparr>) ss in
     if s_sched_queue (stm ss i) \<noteq> SCHED_QUEUE_DRR \<and> drr_active (sched ss) \<noteq> Some i
     then mux_sched_wake ss i else ss)"

section \<open>Writing to the local socket\<close>

text \<open>One non-blocking send: the operating system takes a prefix of the bytes, or answers with
  an error.  The bytes taken go out as \<open>wrap\<close> records them.\<close>

definition socket_send ::
    "(u8 list \<Rightarrow> mux_output) \<Rightarrow> u8 list \<Rightarrow> mux_session \<Rightarrow> send_answer \<times> mux_session" where
  "socket_send wrap buf ss =
    (let n = os_send_calls (os ss); answer = os_send (os ss) n;
         ss = ss\<lparr>os := (os ss)\<lparr>os_send_calls := Suc n\<rparr>\<rparr>
     in case answer of
          Send_ok k \<Rightarrow> (Send_ok (min k (length buf)),
            if min k (length buf) = 0 then ss else put_out (wrap (take k buf)) ss)
        | Send_again \<Rightarrow> (Send_again, ss)
        | Send_err e \<Rightarrow> (Send_err e, ss))"

text \<open>The loop of \<^verbatim>\<open>stream_local_write\<close>: the number of bytes written, or
  \<^const>\<open>None\<close> for a hard error.\<close>

function local_write_loop :: "int \<Rightarrow> u8 list \<Rightarrow> nat \<Rightarrow> mux_session \<Rightarrow> nat option \<times> mux_session" where
  "local_write_loop sfd data nwrite ss =
    (if \<not> nwrite < length data then (Some nwrite, ss)
     else case socket_send (Out_local sfd) (drop nwrite data) ss of
            (Send_again, ss) \<Rightarrow> (Some nwrite, ss)
          | (Send_err e, ss) \<Rightarrow> (None, ss)
          | (Send_ok nbytes, ss) \<Rightarrow>
              if nbytes = 0 then (Some nwrite, ss) else local_write_loop sfd data (nwrite + nbytes) ss)"
  by pat_completeness auto
termination
  by (relation "measure (\<lambda>(sfd, data, nwrite, ss). length data - nwrite)") auto

declare local_write_loop.simps [simp del]

definition stream_local_write :: "u16 \<Rightarrow> u8 list \<Rightarrow> mux_session \<Rightarrow> nat \<times> mux_session" where
  "stream_local_write i data ss =
    (case local_write_loop (io_fd (s_io (stm ss i))) data 0 ss of
       (Some nwrite, ss) \<Rightarrow> (nwrite, ss)
     | (None, ss) \<Rightarrow> (0, mux_stream_abort i MUX_STATUS_INTERNAL_ERROR ss))"

definition update_send_timeout :: "bool \<Rightarrow> mux_stream \<Rightarrow> mux_stream" where
  "update_send_timeout progress s =
    (if t_repeat (s_timeout s) \<le> 0 then s
     else if bytebuf_readable (s_recvbuf s) = 0 then s\<lparr>s_timeout := ev_timer_stop (s_timeout s)\<rparr>
     else if \<not> t_active (s_timeout s) \<or> progress then s\<lparr>s_timeout := ev_timer_again (s_timeout s)\<rparr>
     else s)"

text \<open>Account for \<open>n\<close> bytes taken out of the receive buffer.\<close>

definition stream_consume :: "u16 \<Rightarrow> nat \<Rightarrow> mux_session \<Rightarrow> mux_session" where
  "stream_consume i n ss =
    (let ss = upd_stm i (\<lambda>s. s\<lparr>s_recvbuf := bytebuf_consume (s_recvbuf s) n,
                s_buffered_bytes := s_buffered_bytes s - of_nat n\<rparr>) ss
     in counter_sub cnt_recv_buffered_bytes n (ss\<lparr>recv_buffered_bytes := recv_buffered_bytes ss - n\<rparr>))"

text \<open>What follows the loop of \<^verbatim>\<open>stream_flush_local\<close>.\<close>

definition flush_local_drained :: "u16 \<Rightarrow> mux_session \<Rightarrow> mux_session" where
  "flush_local_drained i ss =
    (let ss = upd_stm i (update_send_timeout False) ss; s = stm ss i
     in if (s_state s = STREAM_CLOSE_WAIT \<or> s_state s = STREAM_CLOSING) \<and> bytebuf_readable (s_recvbuf s) = 0
        then snd (stream_finish_drained_write i ss) else ss)"

text \<open>The bytes in the buffer bound the rounds of the loop.\<close>

fun flush_local_loop :: "nat \<Rightarrow> u16 \<Rightarrow> bool \<Rightarrow> mux_session \<Rightarrow> mux_session" where
  "flush_local_loop fuel i made_progress ss =
    (let rb = s_recvbuf (stm ss i) in
     if \<not> bytebuf_readable rb > 0 then flush_local_drained i ss
     else let (nwrite, ss) = stream_local_write i (bytebuf_read_ptr rb) ss in
     if nwrite = 0
     then (if \<not> session_streams_freed ss \<and> s_state (stm ss i) \<noteq> STREAM_CLOSED
           then upd_stm i (update_send_timeout made_progress) ss else ss)
     else let ss = mux_stream_check_ack i (stream_consume i nwrite ss)
          in case fuel of 0 \<Rightarrow> ss | Suc k \<Rightarrow> flush_local_loop k i True ss)"

declare flush_local_loop.simps [simp del]

definition stream_flush_local :: "u16 \<Rightarrow> mux_session \<Rightarrow> mux_session" where
  "stream_flush_local i ss = flush_local_loop (bytebuf_readable (s_recvbuf (stm ss i))) i False ss"

section \<open>Receiving\<close>

definition stream_notify_readable :: "u16 \<Rightarrow> mux_session \<Rightarrow> mux_session" where
  "stream_notify_readable i ss =
    (let s = stm ss i in
     if s_is_direct s then upd_stm i (stream_feed_user True False) ss
     else let eager = (s_connected s \<and> \<not> io_write (s_io s));
              ss = (if eager then stream_flush_local i ss else ss)
          in if eager \<and> session_streams_freed ss then ss
             else upd_stm i (\<lambda>s. stream_feed_user True False (update_watcher s)) ss)"

text \<open>The payload is buffered for the reader.\<close>

definition recv_buffer :: "u16 \<Rightarrow> u8 list \<Rightarrow> mux_session \<Rightarrow> mux_session" where
  "recv_buffer i payload ss =
    (if payload = [] then ss
     else let n = length payload; (ok, rb, hp) = mux_bytebuf_reserve (heap ss) (s_recvbuf (stm ss i)) n True;
              ss = upd_stm i (\<lambda>s. s\<lparr>s_recvbuf := rb\<rparr>) (ss\<lparr>heap := hp\<rparr>) in
     if \<not> ok then mux_stream_abort i MUX_STATUS_INTERNAL_ERROR ss
     else let ss = upd_stm i (\<lambda>s. s\<lparr>s_recvbuf := bytebuf_append (s_recvbuf s) payload\<rparr>) ss;
              ss = counter_add cnt_recv_buffered_bytes n (ss\<lparr>recv_buffered_bytes := recv_buffered_bytes ss + n\<rparr>);
              ss = upd_stm i (\<lambda>s. s\<lparr>s_bytes_received := s_bytes_received s + of_nat n,
                     s_buffered_bytes := s_buffered_bytes s + of_nat n\<rparr>) ss
          in stream_notify_readable i ss)"

definition mux_stream_recv_copy :: "u16 \<Rightarrow> u8 list \<Rightarrow> mux_session \<Rightarrow> mux_session" where
  "mux_stream_recv_copy i payload ss =
    (let s = stm ss i; payload_len = length payload in
     if s_state s = STREAM_CLOSED then ss
     else if payload_len > unat (s_grant_sent s - s_bytes_received s)
     then mux_stream_abort i MUX_STATUS_FLOW_CONTROL_ERROR ss
     else if unat (s_buffered_bytes s) + payload_len > unat (s_recv_window s)
     then mux_stream_abort i MUX_STATUS_FLOW_CONTROL_ERROR ss
     else if s_is_direct s \<and> s_user_closed s \<and> payload_len > 0
     then stream_mark_closed i (stream_reset_unread i ss)
     else if payload_len > 0 \<and> bytebuf_readable (s_recvbuf s) = 0 \<and> \<not> s_is_direct s \<and> s_connected s
         \<and> (s_state s = STREAM_ESTABLISHED \<or> s_state s = STREAM_FIN_WAIT)
     then let (nwrite, ss) = stream_local_write i payload ss in
          if session_streams_freed ss \<or> s_state (stm ss i) = STREAM_CLOSED then ss
          else if nwrite > 0
          then let ss = upd_stm i (\<lambda>s. s\<lparr>s_bytes_received := s_bytes_received s + of_nat nwrite\<rparr>) ss
               in recv_buffer i (drop nwrite payload) (mux_stream_check_ack i ss)
          else recv_buffer i payload ss
     else recv_buffer i payload ss)"

definition stream_notify_writable :: "mux_stream \<Rightarrow> mux_stream" where
  "stream_notify_writable s =
    (let s = (if \<not> s_is_direct s then update_watcher s else s)
     in if stream_direct_write_ready s then stream_feed_user False True s else s)"

definition mux_stream_recv_window :: "u16 \<Rightarrow> nat \<Rightarrow> mux_session \<Rightarrow> mux_session" where
  "mux_stream_recv_window i window_inc ss =
    (let inc_bytes = window_inc * MUX_WINDOW_UNIT;
         outstanding = stream_credit_avail (stm ss i) in
     if outstanding + inc_bytes > 2 ^ 31 - 1 then mux_stream_abort i MUX_STATUS_FLOW_CONTROL_ERROR ss
     else let ss = upd_stm i (\<lambda>s. s\<lparr>s_send_window := s_send_window s + of_nat inc_bytes\<rparr>) ss in
     if outstanding + inc_bytes = 0 then ss
     else let ss = upd_stm i stream_notify_writable ss
          in if s_send_queue (stm ss i) \<noteq> [] then mux_sched_wake ss i else ss)"

section \<open>The exchange of FIN\<close>

definition mux_stream_mark_fin_sent :: "u16 \<Rightarrow> mux_session \<Rightarrow> mux_session" where
  "mux_stream_mark_fin_sent i ss =
    (case s_state (stm ss i) of
       STREAM_FIN_WAIT \<Rightarrow> ss
     | STREAM_CLOSING \<Rightarrow> ss
     | STREAM_ESTABLISHED \<Rightarrow> on_stm i (stream_set_state STREAM_FIN_WAIT) ss
     | STREAM_CLOSE_WAIT \<Rightarrow>
         (let ss = on_stm i (stream_set_state STREAM_CLOSING) ss; s = stm ss i in
          if s_is_direct s then (if s_user_closed s then mux_stream_do_close i ss else ss)
          else if bytebuf_readable (s_recvbuf s) = 0 then snd (stream_finish_drained_write i ss)
          else ss)
     | _ \<Rightarrow> ss)"

text \<open>The state change a received \<open>FIN\<close> makes; it is unexpected in the opening states.\<close>

definition fin_transition :: "u16 \<Rightarrow> mux_session \<Rightarrow> mux_session" where
  "fin_transition i ss =
    (case s_state (stm ss i) of
       STREAM_ESTABLISHED \<Rightarrow> on_stm i (stream_set_state STREAM_CLOSE_WAIT) ss
     | STREAM_FIN_WAIT \<Rightarrow> on_stm i (stream_set_state STREAM_CLOSING) ss
     | _ \<Rightarrow> ss)"

definition mux_stream_recv_fin :: "u16 \<Rightarrow> mux_session \<Rightarrow> mux_session" where
  "mux_stream_recv_fin i ss =
    (if s_state (stm ss i) = STREAM_CLOSED then ss
     else if s_state (stm ss i) = STREAM_CLOSE_WAIT \<or> s_state (stm ss i) = STREAM_CLOSING then ss
     else let ss = fin_transition i ss; s = stm ss i in
     if s_is_direct s \<and> s_user_closed s \<and> s_state s = STREAM_CLOSING then mux_stream_do_close i ss
     else let (done, ss) = (if \<not> s_is_direct s \<and> bytebuf_readable (s_recvbuf s) = 0
                            then stream_finish_drained_write i ss else (False, ss))
          in if done then ss else upd_stm i (stream_feed_user True False) ss)"

section \<open>Opening\<close>

text \<open>A new stream; the caller links it into the table.\<close>

definition mux_stream_new :: "mux_session \<Rightarrow> u16 \<Rightarrow> bool \<Rightarrow> mux_stream option \<times> mux_session" where
  "mux_stream_new ss i active_open =
    (let (ok, hp) = heap_request (heap ss); ss = ss\<lparr>heap := hp\<rparr> in
     if \<not> ok then (None, ss)
     else let s = zero_stream\<lparr>s_id := i, s_state := STREAM_INIT,
                s_recv_window := of_nat (unat (stream_window ss) * MUX_WINDOW_UNIT),
                s_send_window := of_nat MUX_DEFAULT_SEND_WINDOW, s_grant_sent := of_nat MUX_DEFAULT_SEND_WINDOW,
                s_io := zero_io\<lparr>io_fd := - 1\<rparr>,
                s_timeout := zero_timer\<lparr>t_repeat := of_int (conf_send_timeout (conf ss))\<rparr>\<rparr>;
              (rb, hp) = bytebuf_new (heap ss) (unat (max_payload ss)); ss = ss\<lparr>heap := hp\<rparr>
          in case rb of
               None \<Rightarrow> (None, ss)
             | Some rb \<Rightarrow>
                 (let ss = counter_add (if active_open then num_stream_opened else num_stream_accepted) 1 ss;
                      ss = counter_add num_streams 1 ss;
                      (ss, s) = stream_set_state (if active_open then STREAM_INIT else STREAM_SYN_RECEIVED)
                                  (ss, s\<lparr>s_recvbuf := rb\<rparr>)
                  in (Some s, ss)))"

definition stream_attachable :: "mux_stream \<Rightarrow> bool" where
  "stream_attachable s =
    (case s_state s of
       STREAM_INIT \<Rightarrow> True
     | STREAM_SYN_SENT \<Rightarrow> True
     | STREAM_SYN_RECEIVED \<Rightarrow> True
     | STREAM_CLOSED \<Rightarrow> False
     | _ \<Rightarrow> \<not> stream_has_mode s)"

text \<open>Answer the peer's \<open>SYN\<close>; false when no frame could be had for it.\<close>

definition send_syn_ack :: "u16 \<Rightarrow> mux_session \<Rightarrow> bool \<times> mux_session" where
  "send_syn_ack i ss =
    (let inc = mux_stream_grant_inc ss (stm ss i);
         (ok, ss) = mux_session_send_ctrl i (MUX_FLAG_SYN OR MUX_FLAG_ACK) inc ss
     in if \<not> ok then (False, mux_stream_abort i MUX_STATUS_INTERNAL_ERROR ss)
        else let ss = upd_stm i (\<lambda>s. s\<lparr>s_grant_sent := s_grant_sent s + of_nat (inc * MUX_WINDOW_UNIT),
                         s_ack_pending := False\<rparr>) ss
             in (True, on_stm i (stream_set_state STREAM_ESTABLISHED) ss))"

definition mux_stream_do_attach_fd :: "u16 \<Rightarrow> int \<Rightarrow> mux_session \<Rightarrow> mux_session" where
  "mux_stream_do_attach_fd i fd ss =
    (if \<not> stream_attachable (stm ss i)
     then stream_hand_over_rejected i (put_out (Out_close_fd fd) ss)
     else let ss = upd_stm i (\<lambda>s. s\<lparr>s_pending_attach := False\<rparr>) ss;
              ss = (if os_user_timeout (os ss)
                    then upd_stm i (\<lambda>s. s\<lparr>s_timeout := (s_timeout s)\<lparr>t_repeat := 0\<rparr>\<rparr>) ss else ss);
              (ok, ss) =
                (if s_state (stm ss i) = STREAM_SYN_RECEIVED
                 then let ss = upd_stm i (\<lambda>s. s\<lparr>s_io := ev_io_set (s_io s) fd False True\<rparr>) ss;
                          (ok, ss) = send_syn_ack i ss
                      in if \<not> ok then (False, ss)
                         else (True, upd_stm i (\<lambda>s. s\<lparr>s_connected := False,
                                s_timeout := (if t_repeat (s_timeout s) > 0 then ev_timer_again (s_timeout s)
                                              else s_timeout s)\<rparr>) ss)
                 else (True, upd_stm i (\<lambda>s. s\<lparr>s_connected := True, s_io := ev_io_set (s_io s) fd False False\<rparr>) ss))
          in if \<not> ok then ss
             else let ss = upd_stm i (\<lambda>s. s\<lparr>s_io := ev_io_start (s_io s)\<rparr>) ss; s = stm ss i;
                      (done, ss) =
                        (if (s_state s = STREAM_CLOSE_WAIT \<or> s_state s = STREAM_CLOSING)
                            \<and> bytebuf_readable (s_recvbuf s) = 0
                         then stream_finish_drained_write i ss else (False, ss))
                  in if done then ss else upd_stm i update_watcher ss)"

text \<open>Start direct I/O with the watcher \<open>w\<close>; false when the binding was severed.\<close>

definition mux_stream_do_io_start :: "u16 option \<Rightarrow> mux_stream_io \<Rightarrow> mux_session \<Rightarrow> bool \<times> mux_session" where
  "mux_stream_do_io_start ref w ss =
    (case ref of
       None \<Rightarrow> (False, ss)
     | Some i \<Rightarrow>
         (if \<not> stream_attachable (stm ss i) then (False, stream_hand_over_rejected i ss)
          else let ss = upd_stm i (\<lambda>s. s\<lparr>s_pending_attach := False, s_is_direct := True, s_w_io := Some w\<rparr>) ss;
                   (ok, ss) = (if s_state (stm ss i) = STREAM_SYN_RECEIVED then send_syn_ack i ss else (True, ss))
               in if \<not> ok then (False, ss)
                  else let ss = (if stream_direct_read_ready (stm ss i)
                                 then upd_stm i (stream_feed_user True False) ss else ss);
                           ss = (if stream_direct_write_ready (stm ss i)
                                 then upd_stm i (stream_feed_user False True) ss else ss)
                       in (True, ss)))"

definition mux_stream_mark_syn_sent :: "u16 \<Rightarrow> mux_session \<Rightarrow> mux_session" where
  "mux_stream_mark_syn_sent i ss =
    (let ss = on_stm i (stream_set_state STREAM_SYN_SENT) ss
     in upd_stm i (\<lambda>s. let s = s\<lparr>s_syn_sent_ns := os_clock_ns (os ss)\<rparr>
          in if \<not> s_is_direct s \<and> io_fd (s_io s) \<noteq> - 1 then update_watcher s else s) ss)"

definition mux_stream_start :: "u16 \<Rightarrow> mux_session \<Rightarrow> mux_session" where
  "mux_stream_start i ss =
    (let ss = on_stm i (stream_set_state STREAM_ESTABLISHED) ss;
         ss = (if s_rx_eof (stm ss i) \<and> s_send_queue (stm ss i) = [] then mux_sched_wake ss i else ss)
     in upd_stm i stream_notify_writable ss)"

section \<open>The send queue\<close>

definition mux_stream_queue_send :: "u16 \<Rightarrow> mux_frame \<Rightarrow> mux_session \<Rightarrow> mux_session" where
  "mux_stream_queue_send i frame ss =
    (let ss = upd_stm i (\<lambda>s. s\<lparr>s_queued_send_bytes := s_queued_send_bytes s
                  + of_nat (f_len frame - MUX_FRAME_HEADER_SIZE),
                s_send_queue := s_send_queue s @ [frame\<lparr>f_cursor := 0\<rparr>]\<rparr>) ss
     in counter_add cnt_send_buffered_frames 1 (ss\<lparr>send_buffered_frames := send_buffered_frames ss + 1\<rparr>))"

definition mux_stream_dequeue_send :: "u16 \<Rightarrow> mux_session \<Rightarrow> mux_frame option \<times> mux_session" where
  "mux_stream_dequeue_send i ss =
    (let s = stm ss i in
     if \<not> stream_can_send_data s then (None, ss)
     else case s_send_queue s of
       [] \<Rightarrow> (None, upd_stm i (\<lambda>s. s\<lparr>s_nagle_flush := False\<rparr>) ss)
     | frame # rest \<Rightarrow>
         (let credit = stream_credit_avail s;
              payload = f_len frame - MUX_FRAME_HEADER_SIZE in
          if credit = 0 then (None, ss)
          else if payload = 0 \<or> payload > credit then (None, ss)
          else let nagle_bypass = s_nagle_flush s;
                   ss = upd_stm i (\<lambda>s. s\<lparr>s_nagle_flush := False\<rparr>) ss in
          if \<not> nodelay (conf ss) \<and> \<not> nagle_bypass \<and> s_unacked_bytes s > 0 \<and> payload < unat (max_payload ss)
          then (None, mux_sched_delay i MUX_NAGLE_TICKS ss)
          else let ss = upd_stm i (\<lambda>s. s\<lparr>s_send_queue := rest,
                       s_queued_send_bytes := s_queued_send_bytes s - of_nat payload\<rparr>) ss
               in (Some frame, counter_sub cnt_send_buffered_frames 1
                    (ss\<lparr>send_buffered_frames := send_buffered_frames ss - 1\<rparr>))))"

definition mux_stream_notify_recv :: "mux_stream \<Rightarrow> mux_stream" where
  "mux_stream_notify_recv s =
    (if \<not> s_is_direct s then update_watcher s
     else if stream_direct_write_ready s then stream_feed_user False True s else s)"

end
