(* ===== verification/Stream_Inv.thy ===== *)
theory Stream_Inv
  imports Stream_Ops
begin

text \<open>
  What the operations of a stream keep: the links of the scheduler, the life cycle of the
  stream's state, and the accounting of its receive window.
\<close>

section \<open>Operations that leave the stream table alone\<close>

lemma egress_links [simp]:
  "links (mux_notify_write ss) = links ss" "links (set_sendbuf q ss) = links ss"
  "links (mux_wire_sendbuf_push f ss) = links ss" "links (snd (pool_get ss c)) = links ss"
  by (simp_all add: mux_notify_write_def set_sendbuf_def mux_wire_sendbuf_push_def pool_get_def case_prod_beta Let_def)

lemma send_ctrl_links [simp]: "links (snd (mux_session_send_ctrl i flags x ss)) = links ss"
proof -
  have "links (snd (pool_get ss c)) = links ss" for c
    by simp
  then show ?thesis
    by (auto simp: mux_session_send_ctrl_def Let_def split: prod.split option.split dest!: arg_cong [of _ _ snd])
qed

lemma discard_loop_links [simp]: "links (snd (discard_loop i b q ss)) = links ss"
  by (induction q arbitrary: ss) (simp_all add: Let_def case_prod_beta)

lemma discard_links [simp]: "links (mux_session_discard_stream_frames i ss) = links ss"
  by (simp add: mux_session_discard_stream_frames_def Let_def case_prod_beta)

lemmas unlinked = stm_links(1,2) [OF send_ctrl_links] stm_links(1,2) [OF discard_links]

lemma unlinked_stm [simp]:
  "stm (snd (mux_session_send_ctrl i flags x ss)) j = stm ss j" "keys (snd (mux_session_send_ctrl i flags x ss)) = keys ss"
  "stm (mux_session_discard_stream_frames i ss) j = stm ss j"
  "keys (mux_session_discard_stream_frames i ss) = keys ss"
  by (rule unlinked)+

section \<open>Fields the queues leave alone\<close>

definition stream_core :: "mux_stream \<Rightarrow> mux_stream" where
  "stream_core s = s\<lparr>s_sched_queue := SCHED_QUEUE_NONE, s_delay_pending := False, s_delay_ticks := 0\<rparr>"

lemma stm_upd_stm: "stm (upd_stm i f ss) j = (if j = i \<and> i \<in> keys ss then f (stm ss i) else stm ss j)"
  by (simp add: upd_stm_def stm_put_stm)

lemma keys_upd_stm [simp]: "keys (upd_stm i f ss) = keys ss"
  by (simp add: upd_stm_def)

lemma upd_same [simp]: "i \<in> keys ss \<Longrightarrow> stm (upd_stm i f ss) i = f (stm ss i)"
  by (simp add: stm_upd_stm)

lemma wake_core [simp]: "stream_core (stm (mux_sched_wake ss i) j) = stream_core (stm ss j)"
proof -
  have "stream_core (stm (sched_enqueue i ss) j) = stream_core (stm ss j)"
    "stream_core (stm (sched_lp_enqueue i ss) j) = stream_core (stm ss j)"
    by (simp_all add: sched_enqueue_eq sched_lp_enqueue_eq stm_put_stm stream_core_def)
  then show ?thesis
    by (simp add: mux_sched_wake_def Let_def)
qed

lemma delay_core [simp]: "stream_core (stm (mux_sched_delay i n ss) j) = stream_core (stm ss j)"
proof -
  have "stm (mux_sched_coalesce_arm a) j = stm a j" for a
    by (rule stm_links) simp
  then show ?thesis
    by (simp add: mux_sched_delay_def stm_upd_stm Let_def stream_core_def)
qed

lemma stream_coreD:
  assumes "stream_core s = stream_core s'"
  shows
  "s_id s = s_id s'" "s_is_direct s = s_is_direct s'" "s_user_closed s = s_user_closed s'"
  "s_pending_attach s = s_pending_attach s'" "s_orphaned s = s_orphaned s'" "s_ack_pending s = s_ack_pending s'"
  "s_rx_eof s = s_rx_eof s'" "s_tx_shutdown s = s_tx_shutdown s'" "s_rst_received s = s_rst_received s'"
  "s_halfopen_counted s = s_halfopen_counted s'" "s_nagle_flush s = s_nagle_flush s'" "s_rst_sent s = s_rst_sent s'"
  "s_aborted s = s_aborted s'" "s_state s = s_state s'" "s_io s = s_io s'" "s_timeout s = s_timeout s'"
  "s_connected s = s_connected s'" "s_w_io s = s_w_io s'" "s_send_queue s = s_send_queue s'"
  "s_recvbuf s = s_recvbuf s'" "s_bytes_sent s = s_bytes_sent s'" "s_send_window s = s_send_window s'"
  "s_unacked_bytes s = s_unacked_bytes s'" "s_deficit s = s_deficit s'"
  "s_queued_send_bytes s = s_queued_send_bytes s'" "s_bytes_received s = s_bytes_received s'"
  "s_buffered_bytes s = s_buffered_bytes s'" "s_recv_window s = s_recv_window s'" "s_grant_sent s = s_grant_sent s'"
  "s_syn_sent_ns s = s_syn_sent_ns s'" "s_tombstone s = s_tombstone s'"
proof -
  have *: "f s = f s'" if "\<And>s. f (stream_core s) = f s" for f :: "mux_stream \<Rightarrow> 'x"
    using assms that by metis
  show "s_id s = s_id s'" "s_is_direct s = s_is_direct s'" "s_user_closed s = s_user_closed s'" "s_pending_attach s = s_pending_attach s'" "s_orphaned s = s_orphaned s'" "s_ack_pending s = s_ack_pending s'" "s_rx_eof s = s_rx_eof s'" "s_tx_shutdown s = s_tx_shutdown s'" "s_rst_received s = s_rst_received s'" "s_halfopen_counted s = s_halfopen_counted s'" "s_nagle_flush s = s_nagle_flush s'" "s_rst_sent s = s_rst_sent s'" "s_aborted s = s_aborted s'" "s_state s = s_state s'" "s_io s = s_io s'" "s_timeout s = s_timeout s'" "s_connected s = s_connected s'" "s_w_io s = s_w_io s'" "s_send_queue s = s_send_queue s'" "s_recvbuf s = s_recvbuf s'" "s_bytes_sent s = s_bytes_sent s'" "s_send_window s = s_send_window s'" "s_unacked_bytes s = s_unacked_bytes s'" "s_deficit s = s_deficit s'" "s_queued_send_bytes s = s_queued_send_bytes s'" "s_bytes_received s = s_bytes_received s'" "s_buffered_bytes s = s_buffered_bytes s'" "s_recv_window s = s_recv_window s'" "s_grant_sent s = s_grant_sent s'" "s_syn_sent_ns s = s_syn_sent_ns s'" "s_tombstone s = s_tombstone s'"
    by (rule *; simp add: stream_core_def)+
qed

lemma wake_fields [simp]:
  "s_id (stm (mux_sched_wake ss i) j) = s_id (stm ss j)"
  "s_is_direct (stm (mux_sched_wake ss i) j) = s_is_direct (stm ss j)"
  "s_user_closed (stm (mux_sched_wake ss i) j) = s_user_closed (stm ss j)"
  "s_pending_attach (stm (mux_sched_wake ss i) j) = s_pending_attach (stm ss j)"
  "s_orphaned (stm (mux_sched_wake ss i) j) = s_orphaned (stm ss j)"
  "s_ack_pending (stm (mux_sched_wake ss i) j) = s_ack_pending (stm ss j)"
  "s_rx_eof (stm (mux_sched_wake ss i) j) = s_rx_eof (stm ss j)"
  "s_tx_shutdown (stm (mux_sched_wake ss i) j) = s_tx_shutdown (stm ss j)"
  "s_rst_received (stm (mux_sched_wake ss i) j) = s_rst_received (stm ss j)"
  "s_halfopen_counted (stm (mux_sched_wake ss i) j) = s_halfopen_counted (stm ss j)"
  "s_nagle_flush (stm (mux_sched_wake ss i) j) = s_nagle_flush (stm ss j)"
  "s_rst_sent (stm (mux_sched_wake ss i) j) = s_rst_sent (stm ss j)"
  "s_aborted (stm (mux_sched_wake ss i) j) = s_aborted (stm ss j)"
  "s_state (stm (mux_sched_wake ss i) j) = s_state (stm ss j)" "s_io (stm (mux_sched_wake ss i) j) = s_io (stm ss j)"
  "s_timeout (stm (mux_sched_wake ss i) j) = s_timeout (stm ss j)"
  "s_connected (stm (mux_sched_wake ss i) j) = s_connected (stm ss j)"
  "s_w_io (stm (mux_sched_wake ss i) j) = s_w_io (stm ss j)"
  "s_send_queue (stm (mux_sched_wake ss i) j) = s_send_queue (stm ss j)"
  "s_recvbuf (stm (mux_sched_wake ss i) j) = s_recvbuf (stm ss j)"
  "s_bytes_sent (stm (mux_sched_wake ss i) j) = s_bytes_sent (stm ss j)"
  "s_send_window (stm (mux_sched_wake ss i) j) = s_send_window (stm ss j)"
  "s_unacked_bytes (stm (mux_sched_wake ss i) j) = s_unacked_bytes (stm ss j)"
  "s_deficit (stm (mux_sched_wake ss i) j) = s_deficit (stm ss j)"
  "s_queued_send_bytes (stm (mux_sched_wake ss i) j) = s_queued_send_bytes (stm ss j)"
  "s_bytes_received (stm (mux_sched_wake ss i) j) = s_bytes_received (stm ss j)"
  "s_buffered_bytes (stm (mux_sched_wake ss i) j) = s_buffered_bytes (stm ss j)"
  "s_recv_window (stm (mux_sched_wake ss i) j) = s_recv_window (stm ss j)"
  "s_grant_sent (stm (mux_sched_wake ss i) j) = s_grant_sent (stm ss j)"
  "s_syn_sent_ns (stm (mux_sched_wake ss i) j) = s_syn_sent_ns (stm ss j)"
  "s_tombstone (stm (mux_sched_wake ss i) j) = s_tombstone (stm ss j)"
  by (rule stream_coreD [OF wake_core])+

lemma delay_fields [simp]:
  "s_id (stm (mux_sched_delay i n ss) j) = s_id (stm ss j)"
  "s_is_direct (stm (mux_sched_delay i n ss) j) = s_is_direct (stm ss j)"
  "s_user_closed (stm (mux_sched_delay i n ss) j) = s_user_closed (stm ss j)"
  "s_pending_attach (stm (mux_sched_delay i n ss) j) = s_pending_attach (stm ss j)"
  "s_orphaned (stm (mux_sched_delay i n ss) j) = s_orphaned (stm ss j)"
  "s_ack_pending (stm (mux_sched_delay i n ss) j) = s_ack_pending (stm ss j)"
  "s_rx_eof (stm (mux_sched_delay i n ss) j) = s_rx_eof (stm ss j)"
  "s_tx_shutdown (stm (mux_sched_delay i n ss) j) = s_tx_shutdown (stm ss j)"
  "s_rst_received (stm (mux_sched_delay i n ss) j) = s_rst_received (stm ss j)"
  "s_halfopen_counted (stm (mux_sched_delay i n ss) j) = s_halfopen_counted (stm ss j)"
  "s_nagle_flush (stm (mux_sched_delay i n ss) j) = s_nagle_flush (stm ss j)"
  "s_rst_sent (stm (mux_sched_delay i n ss) j) = s_rst_sent (stm ss j)"
  "s_aborted (stm (mux_sched_delay i n ss) j) = s_aborted (stm ss j)"
  "s_state (stm (mux_sched_delay i n ss) j) = s_state (stm ss j)"
  "s_io (stm (mux_sched_delay i n ss) j) = s_io (stm ss j)"
  "s_timeout (stm (mux_sched_delay i n ss) j) = s_timeout (stm ss j)"
  "s_connected (stm (mux_sched_delay i n ss) j) = s_connected (stm ss j)"
  "s_w_io (stm (mux_sched_delay i n ss) j) = s_w_io (stm ss j)"
  "s_send_queue (stm (mux_sched_delay i n ss) j) = s_send_queue (stm ss j)"
  "s_recvbuf (stm (mux_sched_delay i n ss) j) = s_recvbuf (stm ss j)"
  "s_bytes_sent (stm (mux_sched_delay i n ss) j) = s_bytes_sent (stm ss j)"
  "s_send_window (stm (mux_sched_delay i n ss) j) = s_send_window (stm ss j)"
  "s_unacked_bytes (stm (mux_sched_delay i n ss) j) = s_unacked_bytes (stm ss j)"
  "s_deficit (stm (mux_sched_delay i n ss) j) = s_deficit (stm ss j)"
  "s_queued_send_bytes (stm (mux_sched_delay i n ss) j) = s_queued_send_bytes (stm ss j)"
  "s_bytes_received (stm (mux_sched_delay i n ss) j) = s_bytes_received (stm ss j)"
  "s_buffered_bytes (stm (mux_sched_delay i n ss) j) = s_buffered_bytes (stm ss j)"
  "s_recv_window (stm (mux_sched_delay i n ss) j) = s_recv_window (stm ss j)"
  "s_grant_sent (stm (mux_sched_delay i n ss) j) = s_grant_sent (stm ss j)"
  "s_syn_sent_ns (stm (mux_sched_delay i n ss) j) = s_syn_sent_ns (stm ss j)"
  "s_tombstone (stm (mux_sched_delay i n ss) j) = s_tombstone (stm ss j)"
  by (rule stream_coreD [OF delay_core])+

section \<open>The life cycle of a stream\<close>

text \<open>The causes of a state change: the close of a stream, the end of its delivery, a \<open>FIN\<close> received or sent, the \<open>SYN\<close> that
  goes out, the \<open>SYN|ACK\<close> that answers it, and the acceptance of the peer's \<open>SYN\<close>.  Each moves a
  stream along the state machine of \<^verbatim>\<open>doc/spec.md\<close> (section 4.3) in one way.\<close>

datatype cause = By_close | By_finish | By_fin_in | By_fin_out | By_syn_out | By_syn_ack | By_accept

fun moved :: "cause \<Rightarrow> stream_state \<Rightarrow> stream_state" where
  "moved By_fin_in STREAM_ESTABLISHED = STREAM_CLOSE_WAIT"
| "moved By_fin_in STREAM_FIN_WAIT = STREAM_CLOSING"
| "moved By_fin_out STREAM_ESTABLISHED = STREAM_FIN_WAIT"
| "moved By_fin_out STREAM_CLOSE_WAIT = STREAM_CLOSING"
| "moved By_syn_out STREAM_INIT = STREAM_SYN_SENT"
| "moved By_syn_ack STREAM_SYN_SENT = STREAM_ESTABLISHED"
| "moved By_accept STREAM_SYN_RECEIVED = STREAM_ESTABLISHED"
| "moved c st = st"

lemma moved_moved [simp]: "moved c (moved c st) = moved c st"
  by (cases c; cases st) simp_all

lemma moved_closed [simp]: "moved c STREAM_CLOSED = STREAM_CLOSED"
  by (cases c) simp_all

text \<open>Where the cause may also close a stream: anywhere for a close; otherwise once both \<open>FIN\<close>s are exchanged, and
  where the answer to a \<open>SYN\<close>, or the \<open>SYN\<close> itself, cannot be sent.\<close>

fun closes :: "cause \<Rightarrow> stream_state \<Rightarrow> bool" where
  "closes By_close st = True"
| "closes By_finish st = (st = STREAM_CLOSING)"
| "closes By_fin_in st = (st = STREAM_FIN_WAIT \<or> st = STREAM_CLOSING)"
| "closes By_fin_out st = (st = STREAM_CLOSE_WAIT \<or> st = STREAM_CLOSING)"
| "closes By_syn_out st = (st = STREAM_INIT)"
| "closes By_syn_ack st = False"
| "closes By_accept st = (st = STREAM_SYN_RECEIVED \<or> st = STREAM_CLOSING)"

text \<open>What a stream may be after an operation with that cause.\<close>

definition outcomes :: "bool \<Rightarrow> cause \<Rightarrow> stream_state \<Rightarrow> stream_state set" where
  "outcomes concerned c st =
    (if concerned then {st, moved c st} \<union> (if closes c st then {STREAM_CLOSED} else {}) else {st})"

lemma outcomes_refl [simp]: "st \<in> outcomes b c st"
  by (simp add: outcomes_def)

lemma outcomes_trans: "y \<in> outcomes b c x \<Longrightarrow> z \<in> outcomes b c y \<Longrightarrow> z \<in> outcomes b c x"
  by (cases c; cases x) (auto simp: outcomes_def split: if_splits)

text \<open>The table goes with the session.\<close>

abbreviation down :: "mux_session \<Rightarrow> bool" where
  "down \<equiv> session_streams_freed"

lemma down_stm [simp]: "down (put_stm i s ss) = down ss" "down (upd_stm i f ss) = down ss"
  by (simp_all add: session_streams_freed_def put_stm_def upd_stm_def)

lemma down_links: "links a = links b \<Longrightarrow> down a = down b"
  by (simp add: session_streams_freed_def links_def sc_links_def)

lemma down_empty: "down ss \<Longrightarrow> keys ss = {} \<and> stm ss j = dead_stream"
  by (simp add: session_streams_freed_def keys_def tab_def stm_def)

lemma down_sched [simp]:
  "down (ss\<lparr>sched := (sched ss)\<lparr>sched_fifo := q\<rparr>\<rparr>) = down ss" "down (ss\<lparr>sched := (sched ss)\<lparr>lp_fifo := q\<rparr>\<rparr>) = down ss"
  "down (ss\<lparr>sched := (sched ss)\<lparr>delay_list := q\<rparr>\<rparr>) = down ss" "down (ss\<lparr>sched := (sched ss)\<lparr>drr_active := d\<rparr>\<rparr>) = down ss"
  "down (ss\<lparr>sched := (sched ss)\<lparr>num_closed := n\<rparr>\<rparr>) = down ss"
  "down (ss\<lparr>sched := (sched ss)\<lparr>num_closed := n, num_tombstones := m\<rparr>\<rparr>) = down ss"
  "down (ss\<lparr>sched := (sched ss)\<lparr>num_tombstones := m\<rparr>\<rparr>) = down ss"
  by (simp_all add: session_streams_freed_def)

lemma down_queue [simp]:
  "down (sched_enqueue i ss) = down ss" "down (sched_lp_enqueue i ss) = down ss" "down (mux_sched_schedule ss) = down ss"
  "down (mux_sched_wake ss i) = down ss" "down (mux_sched_coalesce_arm ss) = down ss" "down (mux_sched_delay i n ss) = down ss"
proof -
  show e: "down (sched_enqueue i ss) = down ss" "down (sched_lp_enqueue i ss) = down ss" for ss
    by (simp_all add: sched_enqueue_eq sched_lp_enqueue_eq)
  show s: "down (mux_sched_schedule ss) = down ss" "down (mux_sched_coalesce_arm ss) = down ss" for ss
    by (rule down_links; simp)+
  have "down (mux_session_notify ss) = down ss" "down (set_tx_pending ss) = down ss" for ss
    by (rule down_links; simp add: set_tx_pending_def)+
  then show "down (mux_sched_wake ss i) = down ss"
    by (simp add: mux_sched_wake_def Let_def e s)
  show "down (mux_sched_delay i n ss) = down ss"
    by (simp add: mux_sched_delay_def Let_def s)
qed

text \<open>\<open>tame\<close>: the operation keeps the scheduler's links and changes no stream's state.
  \<open>good A c\<close>: it keeps the links and adds no stream; unless the session ends with it, only streams of
  \<open>A\<close> change state, and only as \<open>c\<close> moves or closes them.  A stream that is gone counts as closed.\<close>

definition tame :: "mux_session \<Rightarrow> mux_session \<Rightarrow> bool" where
  "tame ss ss' \<longleftrightarrow> (sched_inv ss \<longrightarrow> sched_inv ss') \<and> keys ss' = keys ss \<and> down ss' = down ss
    \<and> (\<forall>j. s_state (stm ss' j) = s_state (stm ss j))"

definition good :: "u16 set \<Rightarrow> cause \<Rightarrow> mux_session \<Rightarrow> mux_session \<Rightarrow> bool" where
  "good A c ss ss' \<longleftrightarrow> (sched_inv ss \<longrightarrow> sched_inv ss' \<and> keys ss' \<subseteq> keys ss \<and> (down ss \<longrightarrow> down ss')
    \<and> (down ss' \<or> (\<forall>j. s_state (stm ss' j) \<in> outcomes (j \<in> A) c (s_state (stm ss j)))))"

lemma tameD:
  assumes "tame ss ss'"
  shows "sched_inv ss \<Longrightarrow> sched_inv ss'" "keys ss' = keys ss" "s_state (stm ss' j) = s_state (stm ss j)"
  using assms by (auto simp: tame_def)

lemma tame_refl [simp]: "tame ss ss"
  by (simp add: tame_def)

lemma tame_trans: "tame a b \<Longrightarrow> tame b c \<Longrightarrow> tame a c"
  by (simp add: tame_def)

lemma good_refl [simp]: "good A c ss ss"
  by (simp add: good_def)

lemma good_trans: "good A c x y \<Longrightarrow> good A c y z \<Longrightarrow> good A c x z"
  unfolding good_def by (meson order_trans outcomes_trans)

lemma good_tame: "tame ss ss' \<Longrightarrow> good A c ss ss'"
  by (simp add: tame_def good_def)

lemma tame_good: "tame x y \<Longrightarrow> good A c y z \<Longrightarrow> good A c x z"
  using good_trans good_tame by blast

lemma good_tame_after: "good A c x y \<Longrightarrow> tame y z \<Longrightarrow> good A c x z"
  using good_trans good_tame by blast

text \<open>A close in the course of an operation with another cause.\<close>

lemma good_close:
  assumes "good {i} By_close x y" "closes c (s_state (stm x i)) \<or> s_state (stm x i) = STREAM_CLOSED"
  shows "good {i} c x y"
proof -
  have "st \<in> outcomes (j \<in> {i}) c (s_state (stm x j))" if "st \<in> outcomes (j \<in> {i}) By_close (s_state (stm x j))" for st j
    using that assms(2) by (auto simp: outcomes_def split: if_splits)
  then show ?thesis
    using assms(1) unfolding good_def by blast
qed

lemma good_finish:
  assumes "good {i} By_finish x y" "closes c STREAM_CLOSING"
  shows "good {i} c x y"
proof -
  have "st' \<in> outcomes b c st" if "st' \<in> outcomes b By_finish st" for st' st b
    using that assms(2) by (auto simp: outcomes_def split: if_splits)
  then show ?thesis
    using assms(1) unfolding good_def by blast
qed

lemma good_all:
  assumes "good A c x y"
  shows "good UNIV c x y"
proof -
  have "st' \<in> outcomes (j \<in> UNIV) c st" if "st' \<in> outcomes (j \<in> A) c st" for st' st j
    using that by (auto simp: outcomes_def split: if_splits)
  then show ?thesis
    using assms unfolding good_def by blast
qed

lemma tame_links: "links ss' = links ss \<Longrightarrow> tame ss ss'"
  using sched_inv_links stm_links down_links by (metis tame_def)

lemma tame_upd: "same_links (stm ss i) (f (stm ss i)) \<Longrightarrow> tame ss (upd_stm i f ss)"
  using upd_same_inv(1) [of ss i f] by (auto simp: tame_def stm_upd_stm same_links_def)

lemma tame_wake: "i \<in> keys ss \<Longrightarrow> tame ss (mux_sched_wake ss i)"
  by (simp add: tame_def wake_inv)

lemma tame_delay: "i \<in> keys ss \<Longrightarrow> tame ss (mux_sched_delay i n ss)"
  by (simp add: tame_def delay_inv)

lemma open_live: "s_state (stm ss i) \<noteq> STREAM_CLOSED \<Longrightarrow> i \<in> keys ss"
  by (rule ccontr) (simp add: stm_missing dead_stream_def)

section \<open>Closing\<close>

lemma stop_streams [simp]: "streams (sched (fst (stream_stop p))) = streams (sched (fst p))"
  by (simp add: stream_stop_def mux_sched_delay_remove_def Let_def case_prod_beta)

lemma stop_stm [simp]: "stm (fst (stream_stop p)) j = stm (fst p) j" "keys (fst (stream_stop p)) = keys (fst p)"
  by (simp_all add: stm_def keys_def tab_def)

lemma release_stm [simp]:
  "stm (fst (stream_release_buffers p)) j = stm (fst p) j" "keys (fst (stream_release_buffers p)) = keys (fst p)"
  by (rule stm_links; simp)+

lemma set_state_stm [simp]:
  "stm (fst (stream_set_state st p)) j = stm (fst p) j" "keys (fst (stream_set_state st p)) = keys (fst p)"
  by (rule stm_links; simp)+

lemma set_state_state [simp]: "s_state (snd (stream_set_state st p)) = st"
  by (simp add: stream_set_state_def Let_def case_prod_beta)

lemma stop_state [simp]: "s_state (snd (stream_stop p)) = s_state (snd p)"
  by (simp add: stream_stop_def mux_sched_delay_remove_def Let_def case_prod_beta)

lemma release_state [simp]: "s_state (snd (stream_release_buffers p)) = s_state (snd p)"
  by (simp add: stream_release_buffers_def Let_def case_prod_beta)

lemma close_fd_state [simp]:
  "s_state (stm (close_stream_fd i ss) j) = s_state (stm ss j)" "keys (close_stream_fd i ss) = keys ss"
  by (simp_all add: close_stream_fd_def stm_upd_stm Let_def)

lemma mark_closed_stream_state:
  "keys (mark_closed_stream i ss) = keys ss"
  "s_state (stm (mark_closed_stream i ss) j) = (if j = i then STREAM_CLOSED else s_state (stm ss j))"
  by (cases "i \<in> keys ss"; simp add: mark_closed_stream_def Let_def on_stm_eq stm_put_stm stm_missing dead_stream_def)+

lemma links_gone: "links ss = (None, [], [], [], None, 0, 0) \<Longrightarrow> keys ss = {} \<and> stm ss j = dead_stream"
  by (simp add: links_def sc_links_def keys_def tab_def stm_def)

lemma endedD:
  assumes "ended ss ss'"
  shows "down ss' \<or> keys ss' = keys ss \<and> down ss' = down ss \<and> (\<forall>j. stm ss' j = stm ss j)"
proof -
  have "down ss'" if "links ss' = (None, [], [], [], None, 0, 0)"
    using that by (simp add: session_streams_freed_def links_def sc_links_def)
  then show ?thesis
    using assms stm_links [of ss' ss] down_links [of ss' ss] by (auto simp: ended_def)
qed

lemma ended_good: "ended ss ss' \<Longrightarrow> good A c ss ss'"
  using ended_inv [of ss ss'] endedD [of ss ss'] down_empty [of ss'] by (auto simp: good_def)

lemma down_mark_closed_stream [simp]: "down (mark_closed_stream i ss) = down ss"
  by (simp add: mark_closed_stream_def Let_def on_stm_eq close_stream_fd_def session_streams_freed_def put_stm_def upd_stm_def)

lemma mark_closed_cases:
  assumes "s_state (stm ss i) \<noteq> STREAM_CLOSED"
  obtains a where "keys a = keys ss" "down a = down ss"
    "\<And>j. s_state (stm a j) = (if j = i then STREAM_CLOSED else s_state (stm ss j))" "ended a (stream_mark_closed i ss)"
proof -
  have k: "i \<in> keys ss"
    using assms by (rule open_live)
  define a where "a = mark_closed_stream i ss"
  have a: "keys a = keys ss" "down a = down ss" "s_state (stm a j) = (if j = i then STREAM_CLOSED else s_state (stm ss j))" for j
    by (simp_all add: a_def mark_closed_stream_state)
  define b where "b = upd_stm i (\<lambda>s. s\<lparr>s_tombstone := ev_timer_start
               (ev_timer_set (s_tombstone s) MUX_TOMBSTONE_PERIOD_S 0)\<rparr>)
     (a\<lparr>sched := (sched a)\<lparr>num_closed := num_closed (sched a) + 1, num_tombstones := num_tombstones (sched a) + 1\<rparr>\<rparr>)"
  have b: "keys b = keys ss" "down b = down ss" "s_state (stm b j) = (if j = i then STREAM_CLOSED else s_state (stm ss j))" for j
    using a k by (simp_all add: b_def stm_upd_stm)
  define d where "d = mux_sched_wake (a\<lparr>sched := (sched a)\<lparr>num_closed := num_closed (sched a) + 1\<rparr>\<rparr>) i"
  have d: "keys d = keys ss" "down d = down ss" "s_state (stm d j) = (if j = i then STREAM_CLOSED else s_state (stm ss j))" for j
    using a by (simp_all add: d_def)
  have e: "stream_mark_closed i ss = (if s_state (stm ss i) \<noteq> STREAM_INIT then mux_sched_check_no_active_streams b else d)"
    by (simp add: stream_mark_closed_eq Let_def a_def b_def d_def)
  show thesis
    by (cases "s_state (stm ss i) = STREAM_INIT")
      (use e that [OF b] check_no_active_ended [of b] that [OF d] in \<open>simp_all add: ended_def\<close>)
qed

lemma mark_closed_good:
  assumes "s_state (stm ss i) \<noteq> STREAM_CLOSED"
  shows "good {i} By_close ss (stream_mark_closed i ss)"
  unfolding good_def
proof (intro impI conjI)
  assume inv: "sched_inv ss"
  show "sched_inv (stream_mark_closed i ss)"
    using inv open_live [OF assms] assms by (rule mark_closed_inv)
  obtain a where a: "keys a = keys ss" "down a = down ss"
    "\<And>j. s_state (stm a j) = (if j = i then STREAM_CLOSED else s_state (stm ss j))" "ended a (stream_mark_closed i ss)"
    using mark_closed_cases [OF assms] by blast
  note l = endedD [OF a(4)] down_empty [of "stream_mark_closed i ss"]
  show "keys (stream_mark_closed i ss) \<subseteq> keys ss"
    using a(1) l by auto
  show "down (stream_mark_closed i ss)" if "down ss"
    using down_empty [OF that] open_live [OF assms] by blast
  show "down (stream_mark_closed i ss) \<or> (\<forall>j. s_state (stm (stream_mark_closed i ss) j)
      \<in> outcomes (j \<in> {i}) By_close (s_state (stm ss j)))"
    using a(3) l(1) by (auto simp: outcomes_def)
qed

section \<open>The operations of a stream\<close>

lemma same_links_watchers [simp]:
  "same_links s (update_watcher s)" "same_links s (stream_feed_user rd wr s)"
  "same_links s (update_send_timeout b s)" "same_links s (stream_try_shrink_recv_window ss s)"
  by (simp_all add: same_links_def update_watcher_def stream_feed_user_def update_send_timeout_def
      stream_try_shrink_recv_window_def Let_def split: option.split)

lemma same_links_notify [simp]:
  "same_links s (stream_notify_writable s)" "same_links s (mux_stream_notify_recv s)"
  using same_links_trans [OF same_links_watchers(1,2)]
  by (simp_all add: stream_notify_writable_def mux_stream_notify_recv_def Let_def)

lemma tame_drop_recvbuf: "tame ss (stream_drop_recvbuf i ss)"
  unfolding stream_drop_recvbuf_def Let_def
  by (rule tame_trans [OF tame_links tame_upd]) (simp_all add: same_links_def)

lemma tame_consume: "tame ss (stream_consume i n ss)"
  unfolding stream_consume_def Let_def
  by (rule tame_trans [OF tame_upd tame_links]) (simp_all add: same_links_def)

lemma tame_send_ctrl_upd:
  assumes "\<And>ok s. same_links s (f ok s)"
  shows "tame ss (let (ok, ss) = mux_session_send_ctrl i flags x ss in upd_stm i (f ok) ss)"
proof -
  have "tame ss (snd (mux_session_send_ctrl i flags x ss))"
    by (rule tame_links) simp
  then show ?thesis
    unfolding case_prod_beta Let_def by (rule tame_trans) (rule tame_upd, rule assms)
qed

lemma tame_reset_unread: "tame ss (stream_reset_unread i ss)"
proof -
  have "tame ss (mux_session_discard_stream_frames i (stream_drop_recvbuf i ss))"
    using tame_trans [OF tame_drop_recvbuf tame_links] by simp
  then show ?thesis
    unfolding stream_reset_unread_def Let_def
    using tame_trans [OF _ tame_send_ctrl_upd [of "\<lambda>ok s. s\<lparr>s_rst_sent := ok, s_aborted := True\<rparr>"]]
    by (simp add: same_links_def)
qed

lemma do_close_good: "good {i} By_close ss (mux_stream_do_close i ss)"
proof (cases "s_state (stm ss i) = STREAM_CLOSED")
  case False
  define a where "a = (if bytebuf_readable (s_recvbuf (stm ss i)) > 0
                    then let ss = stream_reset_unread i ss
                         in if \<not> s_is_direct (stm ss i) then stream_rst_notify_socket (ss, stm ss i) else ss
                    else ss)"
  have "tame ss a"
    using tame_trans [OF tame_reset_unread tame_links] by (simp add: a_def Let_def tame_reset_unread)
  then have t: "tame ss (upd_stm i stream_detach_user a)"
    using tame_trans [OF _ tame_upd] by simp
  then have "good {i} By_close (upd_stm i stream_detach_user a) (stream_mark_closed i (upd_stm i stream_detach_user a))"
    using False by (intro mark_closed_good) (simp add: tameD(3))
  then show ?thesis
    using False tame_good [OF t] by (simp add: mux_stream_do_close_def a_def)
qed (simp add: mux_stream_do_close_def)

lemma do_shutdown_good:
  assumes "i \<in> keys ss"
  shows "good {i} By_finish ss (mux_stream_do_shutdown i ss)"
proof -
  define a where "a = (let ss = upd_stm i (\<lambda>s. s\<lparr>s_rx_eof := True\<rparr>) ss
     in if s_is_direct (stm ss i)
        then upd_stm i (\<lambda>s. s\<lparr>s_w_io := map_option (\<lambda>w. w\<lparr>mio_pend_write := False\<rparr>) (s_w_io s)\<rparr>) ss else ss)"
  have t: "tame ss a"
    unfolding a_def Let_def using tame_upd tame_trans [OF tame_upd tame_upd] by (simp add: same_links_def)
  have k: "i \<in> keys a"
    using tameD(2) [OF t] assms by simp
  have "good {i} By_finish a (mux_sched_wake a i)" "s_state (stm a i) = STREAM_CLOSING \<Longrightarrow> good {i} By_finish a (stream_mark_closed i a)"
    using good_tame [OF tame_wake [OF k]] good_close [OF mark_closed_good [of a i]] by simp_all
  then show ?thesis
    using tame_good [OF t] by (simp add: mux_stream_do_shutdown_def a_def [symmetric, unfolded Let_def] Let_def)
qed

lemma relinquish_good:
  assumes "i \<in> keys ss"
  shows "good {i} By_close ss (stream_relinquish i ss)"
proof -
  define a where "a = (if s_is_direct (stm ss i)
    then upd_stm i (\<lambda>s. s\<lparr>s_user_closed := True, s_w_io := None\<rparr>) ss else ss)"
  have t: "tame ss a"
    by (simp add: a_def tame_upd same_links_def)
  then show ?thesis
    using tame_good [OF t do_close_good] tame_good [OF t good_finish [OF do_shutdown_good]] tameD(2) [OF t] assms
    by (simp add: stream_relinquish_def a_def [symmetric])
qed

lemma do_release_tame:
  assumes "i \<in> keys ss"
  shows "tame ss (mux_stream_do_release i ss)"
proof -
  define a where "a = upd_stm i (\<lambda>s. s\<lparr>s_user_closed := s_user_closed s \<or> s_is_direct s, s_pending_attach := False\<rparr>) ss"
  have t: "tame ss a"
    unfolding a_def by (rule tame_upd) (simp add: same_links_def)
  have "tame ss (mux_sched_wake a i)"
    by (rule tame_trans [OF t tame_wake]) (simp add: a_def assms)
  then show ?thesis
    using t by (simp add: mux_stream_do_release_def a_def Let_def)
qed

lemma rst_notify_direct_good:
  assumes "i \<in> keys ss"
  shows "good {i} By_close ss (stream_rst_notify_direct i ss)"
proof (cases "s_w_io (stm ss i)")
  case (Some w)
  define a where "a = put_out (Out_invoke_read i)
    (upd_stm i (\<lambda>s. s\<lparr>s_w_io := Some (w\<lparr>mio_pend_read := False, mio_pend_write := False\<rparr>)\<rparr>) ss)"
  have t: "tame ss a"
    unfolding a_def by (rule tame_trans [OF tame_upd tame_links]) (simp_all add: same_links_def)
  have k: "i \<in> keys a"
    using tameD(2) [OF t] assms by simp
  have "tame a (upd_stm i (\<lambda>s. s\<lparr>s_pending_attach := False\<rparr>) a)"
    by (rule tame_upd) (simp add: same_links_def)
  then have "good {i} By_close a (stream_relinquish i (upd_stm i (\<lambda>s. s\<lparr>s_pending_attach := False\<rparr>) a))"
    using tame_good relinquish_good k by simp
  then show ?thesis
    using Some tame_good [OF t] good_tame [OF do_release_tame [OF k]]
    by (simp add: stream_rst_notify_direct_def a_def [symmetric] Let_def)
qed (simp add: stream_rst_notify_direct_def)

lemma abort_notify_close_good:
  assumes "s_state (stm ss i) \<noteq> STREAM_CLOSED"
  shows "good {i} By_close ss (stream_abort_notify_close i ss)"
proof (cases "s_is_direct (stm ss i)")
  case True
  define a where "a = stream_rst_notify_direct i ss"
  have g: "good {i} By_close ss a"
    unfolding a_def using assms by (intro rst_notify_direct_good open_live)
  have t: "tame a (upd_stm i stream_detach_user a)"
    by (rule tame_upd) simp
  have "good {i} By_close a (stream_mark_closed i (upd_stm i stream_detach_user a))" if "s_state (stm a i) \<noteq> STREAM_CLOSED"
    using that by (intro tame_good [OF t] mark_closed_good) (simp add: tameD(3) [OF t])
  then show ?thesis
    using True g good_trans [OF g] by (simp add: stream_abort_notify_close_def a_def [symmetric] Let_def)
next
  case False
  have t: "tame ss (stream_rst_notify_socket (ss, stm ss i))"
    by (rule tame_links) simp
  then show ?thesis
    using False assms by (auto simp: stream_abort_notify_close_def tameD(3) [OF t] intro!: tame_good [OF t] mark_closed_good)
qed

lemma abort_good: "good {i} By_close ss (mux_stream_abort i code ss)"
proof (cases "s_state (stm ss i) = STREAM_CLOSED")
  case False
  define a where "a = mux_session_discard_stream_frames i (upd_stm i (\<lambda>s. s\<lparr>s_aborted := True\<rparr>) (counter_add num_stream_errors 1 ss))"
  define b where "b = (if \<not> s_rst_sent (stm a i)
    then let (ok, ss) = mux_session_send_ctrl i MUX_FLAG_RST (unat (status_code code)) a
         in upd_stm i (\<lambda>s. s\<lparr>s_rst_sent := ok\<rparr>) ss else a)"
  have "tame ss a"
    unfolding a_def
    by (rule tame_trans [OF tame_trans [OF tame_links tame_upd] tame_links]) (simp_all add: same_links_def)
  then have t: "tame ss b"
    using tame_trans [OF _ tame_send_ctrl_upd [of "\<lambda>ok s. s\<lparr>s_rst_sent := ok\<rparr>"]]
    by (simp add: b_def same_links_def)
  have "good {i} By_close b (stream_abort_notify_close i b)"
    using False by (intro abort_notify_close_good) (simp add: tameD(3) [OF t])
  moreover have "mux_stream_abort i code ss = stream_abort_notify_close i b"
    unfolding mux_stream_abort_def Let_def a_def b_def using False by (simp only: if_False)
  ultimately show ?thesis
    using tame_good [OF t] by simp
qed (simp add: mux_stream_abort_def)

lemma abort_unopened_good:
  assumes "s_state (stm ss i) \<noteq> STREAM_CLOSED"
  shows "good {i} By_close ss (mux_stream_abort_unopened i ss)"
proof -
  have t: "tame ss (upd_stm i (\<lambda>s. s\<lparr>s_aborted := True\<rparr>) (counter_add num_stream_errors 1 ss))"
    by (rule tame_trans [OF tame_links tame_upd]) (simp_all add: same_links_def)
  show ?thesis
    unfolding mux_stream_abort_unopened_def
    using assms by (intro tame_good [OF t] abort_notify_close_good) (simp only: tameD(3) [OF t] not_False_eq_True)
qed

lemma recv_rst_good:
  assumes "i \<in> keys ss"
  shows "good {i} By_close ss (mux_stream_recv_rst i ss)"
proof -
  define a where "a = upd_stm i (\<lambda>s. s\<lparr>s_rst_received := True\<rparr>) ss"
  have t: "tame ss a"
    unfolding a_def by (rule tame_upd) (simp add: same_links_def)
  define b where "b = (if \<not> s_is_direct (stm a i) then stream_rst_notify_socket (a, stm a i) else stream_rst_notify_direct i a)"
  have "good {i} By_close a b"
    unfolding b_def using rst_notify_direct_good [of i a] good_tame [OF tame_links] tameD(2) [OF t] assms by simp
  then have g: "good {i} By_close ss b"
    by (rule tame_good [OF t])
  define c where "c = stream_drop_recvbuf i (mux_session_discard_stream_frames i (upd_stm i stream_detach_user b))"
  have tc: "tame b c"
    unfolding c_def by (rule tame_trans [OF tame_trans [OF tame_upd tame_links] tame_drop_recvbuf]) simp_all
  have "good {i} By_close ss (stream_mark_closed i c)" if "s_state (stm b i) \<noteq> STREAM_CLOSED"
    by (rule good_trans [OF g tame_good [OF tc mark_closed_good]]) (simp add: tameD(3) [OF tc] that)
  then show ?thesis
    unfolding mux_stream_recv_rst_def Let_def a_def [symmetric] b_def [symmetric] c_def [symmetric] using g by simp
qed

lemma finish_drained_good: "good {i} By_finish ss (snd (stream_finish_drained_write i ss))"
proof -
  define a where "a = (if \<not> s_tx_shutdown (stm ss i) then on_stm i stream_shutdown_local_write ss else ss)"
  have l: "links (fst (stream_shutdown_local_write p)) = links (fst p)" "same_links (snd p) (snd (stream_shutdown_local_write p))" for p
    by (simp_all add: stream_shutdown_local_write_def case_prod_beta same_links_def)
  have "tame ss (on_stm i stream_shutdown_local_write ss)"
    unfolding on_stm_eq using stm_links [of "fst (stream_shutdown_local_write (ss, stm ss i))" ss] l
      down_links [of "fst (stream_shutdown_local_write (ss, stm ss i))" ss]
    by (auto simp: tame_def stm_put_stm same_links_def on_stm_same [unfolded on_stm_eq])
  then have t: "tame ss a"
    by (simp add: a_def)
  have "good {i} By_finish ss (stream_mark_closed i a)" if "s_state (stm a i) = STREAM_CLOSING"
    by (rule tame_good [OF t good_close [OF mark_closed_good]]) (simp_all add: that)
  then show ?thesis
    unfolding stream_finish_drained_write_def a_def [symmetric] Let_def using good_tame [OF t] by simp
qed

lemma check_ack_tame: "tame ss (mux_stream_check_ack i ss)"
proof (cases "s_state (stm ss i) = STREAM_CLOSED")
  case False
  then have k: "i \<in> keys ss"
    by (rule open_live)
  define a where "a = upd_stm i (stream_try_shrink_recv_window ss) ss"
  define b where "b = upd_stm i (\<lambda>s. s\<lparr>s_ack_pending := True\<rparr>) a"
  have a: "tame ss a"
    unfolding a_def by (rule tame_upd) simp
  have b: "tame ss b"
    unfolding b_def by (rule tame_trans [OF a tame_upd]) (simp add: same_links_def)
  have "tame ss (mux_sched_wake b i)" "tame ss (mux_sched_delay i n a)" for n
    using k tame_trans [OF b tame_wake] tame_trans [OF a tame_delay] by (simp_all add: tameD(2) [OF a] tameD(2) [OF b])
  then show ?thesis
    unfolding mux_stream_check_ack_def Let_def a_def [symmetric] b_def [symmetric] using a b by simp
qed (simp add: mux_stream_check_ack_def)

lemma socket_send_links [simp]: "links (snd (socket_send wrap buf ss)) = links ss"
  by (simp add: socket_send_def Let_def split: send_answer.split)

lemma local_write_loop_links [simp]: "links (snd (local_write_loop sfd data n ss)) = links ss"
proof (induction sfd data n ss rule: local_write_loop.induct)
  case (1 sfd data n ss)
  obtain ans s' where s': "socket_send (Out_local sfd) (drop n data) ss = (ans, s')"
    by (cases "socket_send (Out_local sfd) (drop n data) ss")
  have l: "links s' = links ss"
    using socket_send_links [of "Out_local sfd" "drop n data" ss] by (simp add: s')
  show ?case
    using 1 [OF _ s' [symmetric]] l s' by (subst local_write_loop.simps) (auto split: send_answer.split)
qed

lemma local_write_good: "good {i} By_close ss (snd (stream_local_write i data ss))"
proof -
  obtain r s' where s': "local_write_loop (io_fd (s_io (stm ss i))) data 0 ss = (r, s')"
    by (cases "local_write_loop (io_fd (s_io (stm ss i))) data 0 ss")
  have "tame ss s'"
    using local_write_loop_links [of "io_fd (s_io (stm ss i))" data 0 ss] by (intro tame_links) (simp add: s')
  then show ?thesis
    using good_tame tame_good [OF _ abort_good] by (auto simp: stream_local_write_def s' split: option.split)
qed

lemma local_write_loop_le:
  "local_write_loop sfd data m ss = (Some n, ss') \<Longrightarrow> m \<le> length data \<Longrightarrow> n \<le> length data"
proof (induction sfd data m ss rule: local_write_loop.induct)
  case (1 sfd data m ss)
  obtain ans s' where s': "socket_send (Out_local sfd) (drop m data) ss = (ans, s')"
    by (cases "socket_send (Out_local sfd) (drop m data) ss")
  have k: "ans = Send_ok k \<Longrightarrow> k \<le> length data - m" for k
    using s' by (auto simp: socket_send_def Let_def split: send_answer.splits)
  show ?case
  proof (cases "m < length data \<and> (\<exists>k. ans = Send_ok k \<and> k \<noteq> 0)")
    case True
    then obtain k where a: "ans = Send_ok k" "k \<noteq> 0"
      by blast
    have "local_write_loop sfd data (m + k) s' = (Some n, ss')"
      using True a 1(2) by (simp add: local_write_loop.simps [of sfd data m] s')
    then show ?thesis
      using 1(1) [OF _ s' [symmetric] a] True k [OF a(1)] by auto
  next
    case False
    then show ?thesis
      using 1(2,3) by (auto simp: local_write_loop.simps [of sfd data m] s' split: send_answer.splits if_splits)
  qed
qed

text \<open>A write that takes something leaves the table alone.\<close>

lemma local_write_some:
  assumes "stream_local_write i data ss = (n, ss')" "n \<noteq> 0"
  shows "links ss' = links ss" "n \<le> length data"
proof -
  obtain r s' where s': "local_write_loop (io_fd (s_io (stm ss i))) data 0 ss = (r, s')"
    by (cases "local_write_loop (io_fd (s_io (stm ss i))) data 0 ss")
  have r: "r = Some n" "s' = ss'"
    using assms by (auto simp: stream_local_write_def s' split: option.splits)
  show "links ss' = links ss"
    using local_write_loop_links [of "io_fd (s_io (stm ss i))" data 0 ss] by (simp add: s' r)
  show "n \<le> length data"
    using local_write_loop_le [OF s' [unfolded r]] by simp
qed

lemma flush_drained_good: "good {i} By_close ss (flush_local_drained i ss)"
proof -
  have t: "tame ss (upd_stm i (update_send_timeout False) ss)"
    by (rule tame_upd) simp
  then show ?thesis
    using good_tame [OF t] tame_good [OF t good_finish [OF finish_drained_good]] by (simp add: flush_local_drained_def Let_def)
qed

lemma flush_local_loop_good: "good {i} By_close ss (flush_local_loop fuel i b ss)"
proof (induction fuel arbitrary: b ss)
  case 0
  show ?case
    using local_write_good good_tame_after [OF _ tame_upd] flush_drained_good
      good_tame_after [OF _ tame_trans [OF tame_consume check_ack_tame]]
    by (subst flush_local_loop.simps) (simp add: Let_def case_prod_beta)
next
  case (Suc fuel)
  show ?case
    using local_write_good good_tame_after [OF _ tame_upd] flush_drained_good
      good_trans [OF good_tame_after [OF _ tame_trans [OF tame_consume check_ack_tame]] Suc]
    by (subst flush_local_loop.simps) (simp add: Let_def case_prod_beta)
qed

lemma flush_local_good: "good {i} By_close ss (stream_flush_local i ss)"
  by (simp add: stream_flush_local_def flush_local_loop_good)

lemma notify_readable_good: "good {i} By_close ss (stream_notify_readable i ss)"
proof -
  have "same_links s (stream_feed_user True False (update_watcher s))" for s
    using same_links_trans same_links_watchers by blast
  then show ?thesis
    using flush_local_good good_tame [OF tame_upd] good_tame_after [OF flush_local_good tame_upd]
    by (simp add: stream_notify_readable_def Let_def)
qed

lemma recv_buffer_good: "good {i} By_close ss (recv_buffer i payload ss)"
proof -
  obtain ok rb hp where r: "mux_bytebuf_reserve (heap ss) (s_recvbuf (stm ss i)) (length payload) True = (ok, rb, hp)"
    by (cases "mux_bytebuf_reserve (heap ss) (s_recvbuf (stm ss i)) (length payload) True")
  define n where "n = length payload"
  define a where "a = upd_stm i (\<lambda>s. s\<lparr>s_recvbuf := rb\<rparr>) (ss\<lparr>heap := hp\<rparr>)"
  define b where "b = upd_stm i (\<lambda>s. s\<lparr>s_recvbuf := bytebuf_append (s_recvbuf s) payload\<rparr>) a"
  define c where "c = counter_add cnt_recv_buffered_bytes n (b\<lparr>recv_buffered_bytes := recv_buffered_bytes b + n\<rparr>)"
  define d where "d = upd_stm i (\<lambda>s. s\<lparr>s_bytes_received := s_bytes_received s + of_nat n,
                     s_buffered_bytes := s_buffered_bytes s + of_nat n\<rparr>) c"
  have a: "tame ss a"
    unfolding a_def by (rule tame_trans [OF tame_links tame_upd]) (simp_all add: same_links_def)
  have "tame a b" "tame c d"
    unfolding b_def d_def by (rule tame_upd, simp add: same_links_def)+
  moreover have "tame b c"
    by (rule tame_links) (simp add: c_def)
  ultimately have "tame ss d"
    using a tame_trans by blast
  then show ?thesis
    unfolding recv_buffer_def r Let_def prod.case
    unfolding n_def [symmetric] a_def [symmetric] b_def [symmetric] c_def [symmetric] d_def [symmetric]
    using tame_good [OF a abort_good] tame_good [OF _ notify_readable_good] by simp
qed

lemma recv_copy_good: "good {i} By_close ss (mux_stream_recv_copy i payload ss)"
proof -
  have "good {i} By_close ss (stream_mark_closed i (stream_reset_unread i ss))" if "s_state (stm ss i) \<noteq> STREAM_CLOSED"
    using that by (intro tame_good [OF tame_reset_unread mark_closed_good]) (simp add: tameD(3) [OF tame_reset_unread])
  moreover have "good {i} By_close ss (recv_buffer i q (mux_stream_check_ack i (upd_stm i (\<lambda>s. s\<lparr>s_bytes_received := f s\<rparr>)
      (snd (stream_local_write i p ss)))))" for p q f
    by (rule good_trans [OF local_write_good tame_good [OF tame_trans [OF tame_upd check_ack_tame] recv_buffer_good]])
      (simp add: same_links_def)
  ultimately show ?thesis
    using abort_good recv_buffer_good local_write_good good_trans [OF local_write_good recv_buffer_good]
    by (simp add: mux_stream_recv_copy_def Let_def case_prod_beta)
qed

lemma recv_window_good:
  assumes "i \<in> keys ss"
  shows "good {i} By_close ss (mux_stream_recv_window i n ss)"
proof -
  define a where "a = upd_stm i (\<lambda>s. s\<lparr>s_send_window := s_send_window s + of_nat (n * MUX_WINDOW_UNIT)\<rparr>) ss"
  define b where "b = upd_stm i stream_notify_writable a"
  have a: "tame ss a"
    unfolding a_def by (rule tame_upd) (simp add: same_links_def)
  have b: "tame ss b"
    unfolding b_def by (rule tame_trans [OF a tame_upd]) simp
  have "tame ss (mux_sched_wake b i)"
    by (rule tame_trans [OF b tame_wake]) (simp add: tameD(2) [OF b] assms)
  then show ?thesis
    unfolding mux_stream_recv_window_def Let_def a_def [symmetric] b_def [symmetric]
    using good_tame a b abort_good by simp
qed

text \<open>A state change between open states; a stream in its first state must not be waiting in
  the lifecycle queue.\<close>

lemma set_state_good:
  assumes "s_state (stm ss i) \<noteq> STREAM_CLOSED" "st \<noteq> STREAM_CLOSED" "st = moved cs (s_state (stm ss i))"
    "s_state (stm ss i) = STREAM_INIT \<Longrightarrow> s_sched_queue (stm ss i) \<noteq> SCHED_QUEUE_LP"
  shows "good {i} cs ss (on_stm i (stream_set_state st) ss)"
  unfolding good_def
proof (intro impI conjI)
  assume inv: "sched_inv ss"
  have k: "i \<in> keys ss"
    using assms(1) by (rule open_live)
  define s where "s = snd (stream_set_state st (ss, stm ss i))"
  define a where "a = fst (stream_set_state st (ss, stm ss i))"
  have l: "links a = links ss"
    by (simp add: a_def)
  have a: "sched_inv a" "i \<in> keys a" "stm a j = stm ss j" for j
    using inv sched_inv_links [OF l] k stm_links [OF l] by simp_all
  have s: "s_state s = st" "s_id s = s_id (stm ss i)" "s_orphaned s = s_orphaned (stm ss i)"
    "s_sched_queue s = s_sched_queue (stm ss i)" "s_delay_pending s = s_delay_pending (stm ss i)"
    "s_tombstone s = s_tombstone (stm ss i)"
    by (simp_all add: s_def)
  note d = sched_invD [OF a(1)] and d5 = sched_invD(5-7) [OF a(1), of i]
  have lk: "linked (sched a) i s"
    using d5(1) assms(1,2,4) by (auto simp: linked_def s a)
  show "sched_inv (on_stm i (stream_set_state st) ss)"
    unfolding on_stm_eq s_def [symmetric] a_def [symmetric]
    by (rule sched_inv_upd [OF a(1,2) tab_put_stm])
      (use d(2-4) d5(2,3) a lk assms(1,2) s in \<open>simp_all add: linked_def\<close>)
  show "keys (on_stm i (stream_set_state st) ss) \<subseteq> keys ss"
    by (simp add: on_stm_eq)
  show "down ss \<Longrightarrow> down (on_stm i (stream_set_state st) ss)"
    using down_empty k by blast
  show "down (on_stm i (stream_set_state st) ss)
      \<or> (\<forall>j. s_state (stm (on_stm i (stream_set_state st) ss) j) \<in> outcomes (j \<in> {i}) cs (s_state (stm ss j)))"
    using assms(3) by (simp add: on_stm_eq stm_put_stm outcomes_def)
qed

lemma set_state_self [simp]: "i \<in> keys ss \<Longrightarrow> s_state (stm (on_stm i (stream_set_state st) ss) i) = st"
  by (simp add: on_stm_eq stm_put_stm)

lemma set_state_keys [simp]: "keys (on_stm i (stream_set_state st) ss) = keys ss"
  by (simp add: on_stm_eq)

lemma mark_fin_sent_good: "good {i} By_fin_out ss (mux_stream_mark_fin_sent i ss)"
proof -
  have "good {i} By_fin_out ss (on_stm i (stream_set_state STREAM_FIN_WAIT) ss)" if "s_state (stm ss i) = STREAM_ESTABLISHED"
    using that by (intro set_state_good) simp_all
  moreover have g: "good {i} By_fin_out ss (on_stm i (stream_set_state STREAM_CLOSING) ss)" if "s_state (stm ss i) = STREAM_CLOSE_WAIT"
    using that by (intro set_state_good) simp_all
  moreover have "i \<in> keys ss" if "s_state (stm ss i) = STREAM_CLOSE_WAIT"
    using that by (intro open_live) simp
  ultimately show ?thesis
    using good_trans [OF g good_close [OF do_close_good]] good_trans [OF g good_finish [OF finish_drained_good]]
    by (simp add: mux_stream_mark_fin_sent_def Let_def split: stream_state.split)
qed

lemma fin_transition_good: "good {i} By_fin_in ss (fin_transition i ss)"
proof -
  have "good {i} By_fin_in ss (on_stm i (stream_set_state STREAM_CLOSE_WAIT) ss)" if "s_state (stm ss i) = STREAM_ESTABLISHED"
    using that by (intro set_state_good) simp_all
  moreover have g: "good {i} By_fin_in ss (on_stm i (stream_set_state STREAM_CLOSING) ss)" if "s_state (stm ss i) = STREAM_FIN_WAIT"
    using that by (intro set_state_good) simp_all
  ultimately show ?thesis
    by (simp add: fin_transition_def split: stream_state.split)
qed

lemma recv_fin_good: "good {i} By_fin_in ss (mux_stream_recv_fin i ss)"
proof -
  note g = fin_transition_good [of i ss]
  note * = good_trans [OF g good_close [OF do_close_good]] good_trans [OF g good_finish [OF finish_drained_good]]
    good_tame_after [OF g tame_upd]
  have "good {i} By_fin_in ss (upd_stm i (stream_feed_user True False) (snd (stream_finish_drained_write i (fin_transition i ss))))"
    by (rule good_tame_after [OF *(2) tame_upd]) simp_all
  then show ?thesis
    using * by (simp add: mux_stream_recv_fin_def Let_def case_prod_beta)
qed

lemma send_syn_ack_good:
  assumes "s_state (stm ss i) = STREAM_SYN_RECEIVED"
  shows "good {i} By_accept ss (snd (send_syn_ack i ss))" "fst (send_syn_ack i ss) \<Longrightarrow> keys (snd (send_syn_ack i ss)) = keys ss"
proof -
  define inc where "inc = mux_stream_grant_inc ss (stm ss i)"
  obtain ok a where a: "mux_session_send_ctrl i (MUX_FLAG_SYN OR MUX_FLAG_ACK) inc ss = (ok, a)"
    by (cases "mux_session_send_ctrl i (MUX_FLAG_SYN OR MUX_FLAG_ACK) inc ss")
  have la: "links a = links ss"
    using send_ctrl_links [of i "MUX_FLAG_SYN OR MUX_FLAG_ACK" inc ss] by (simp add: a)
  then have ta: "tame ss a"
    by (rule tame_links)
  define b where "b = upd_stm i (\<lambda>s. s\<lparr>s_grant_sent := s_grant_sent s + of_nat (inc * MUX_WINDOW_UNIT),
                         s_ack_pending := False\<rparr>) a"
  have tb: "tame ss b"
    unfolding b_def by (rule tame_trans [OF ta tame_upd]) (simp add: same_links_def)
  have "good {i} By_accept b (on_stm i (stream_set_state STREAM_ESTABLISHED) b)"
    using assms by (intro set_state_good) (simp_all add: tameD(3) [OF tb])
  then have "good {i} By_accept ss (on_stm i (stream_set_state STREAM_ESTABLISHED) b)"
    by (rule tame_good [OF tb])
  then show "good {i} By_accept ss (snd (send_syn_ack i ss))"
    unfolding send_syn_ack_def inc_def [symmetric] a Let_def prod.case b_def [symmetric]
    using tame_good [OF ta good_close [OF abort_good]] assms by (simp add: tameD(3) [OF ta])
  show "keys (snd (send_syn_ack i ss)) = keys ss" if "fst (send_syn_ack i ss)"
    using that tameD(2) [OF tb]
    unfolding send_syn_ack_def inc_def [symmetric] a Let_def prod.case b_def [symmetric] by (simp split: if_splits)
qed

lemma hand_over_rejected_tame:
  assumes "i \<in> keys ss"
  shows "tame ss (stream_hand_over_rejected i ss)"
proof -
  have t: "tame ss (upd_stm i (\<lambda>s. s\<lparr>s_pending_attach := False\<rparr>) ss)"
    by (rule tame_upd) (simp add: same_links_def)
  show ?thesis
    using t tame_trans [OF t tame_wake] assms by (simp add: stream_hand_over_rejected_def Let_def)
qed

lemma do_io_start_good:
  assumes "i \<in> keys ss"
  shows "good {i} By_accept ss (snd (mux_stream_do_io_start (Some i) w ss))"
proof -
  define a where "a = upd_stm i (\<lambda>s. s\<lparr>s_pending_attach := False, s_is_direct := True, s_w_io := Some w\<rparr>) ss"
  have t: "tame ss a"
    unfolding a_def by (rule tame_upd) (simp add: same_links_def)
  define r where "r = (if s_state (stm a i) = STREAM_SYN_RECEIVED then send_syn_ack i a else (True, a))"
  have "good {i} By_accept a (snd r)"
    using send_syn_ack_good(1) [of a i] by (simp add: r_def)
  then have g: "good {i} By_accept ss (snd r)"
    by (rule tame_good [OF t])
  define b where "b = (if stream_direct_read_ready (stm (snd r) i) then upd_stm i (stream_feed_user True False) (snd r) else snd r)"
  have "tame (snd r) b" "tame b (upd_stm i (stream_feed_user False True) b)"
    by (simp_all add: b_def tame_upd)
  then have "good {i} By_accept ss b" "good {i} By_accept ss (upd_stm i (stream_feed_user False True) b)"
    using good_tame_after [OF g] tame_trans by blast+
  then show ?thesis
    unfolding mux_stream_do_io_start_def Let_def option.case a_def [symmetric] case_prod_beta r_def [symmetric]
      b_def [symmetric]
    using g good_tame [OF hand_over_rejected_tame [OF assms]] by simp
qed

text \<open>The two ways of attaching a socket, up to the start of its watcher.\<close>

definition attach_fd_open :: "u16 \<Rightarrow> int \<Rightarrow> mux_session \<Rightarrow> bool \<times> mux_session" where
  "attach_fd_open i fd ss =
    (let ss = upd_stm i (\<lambda>s. s\<lparr>s_pending_attach := False\<rparr>) ss;
         ss = (if os_user_timeout (os ss)
               then upd_stm i (\<lambda>s. s\<lparr>s_timeout := (s_timeout s)\<lparr>t_repeat := 0\<rparr>\<rparr>) ss else ss)
     in if s_state (stm ss i) = STREAM_SYN_RECEIVED
        then let ss = upd_stm i (\<lambda>s. s\<lparr>s_io := ev_io_set (s_io s) fd False True\<rparr>) ss;
                 (ok, ss) = send_syn_ack i ss
             in if \<not> ok then (False, ss)
                else (True, upd_stm i (\<lambda>s. s\<lparr>s_connected := False,
                       s_timeout := (if t_repeat (s_timeout s) > 0 then ev_timer_again (s_timeout s)
                                     else s_timeout s)\<rparr>) ss)
        else (True, upd_stm i (\<lambda>s. s\<lparr>s_connected := True, s_io := ev_io_set (s_io s) fd False False\<rparr>) ss))"

lemma do_attach_fd_eq:
  "mux_stream_do_attach_fd i fd ss =
    (if \<not> stream_attachable (stm ss i) then stream_hand_over_rejected i (put_out (Out_close_fd fd) ss)
     else let (ok, ss) = attach_fd_open i fd ss
          in if \<not> ok then ss
             else let ss = upd_stm i (\<lambda>s. s\<lparr>s_io := ev_io_start (s_io s)\<rparr>) ss; s = stm ss i;
                      (done, ss) =
                        (if (s_state s = STREAM_CLOSE_WAIT \<or> s_state s = STREAM_CLOSING)
                            \<and> bytebuf_readable (s_recvbuf s) = 0
                         then stream_finish_drained_write i ss else (False, ss))
                  in if done then ss else upd_stm i update_watcher ss)"
  by (simp only: mux_stream_do_attach_fd_def attach_fd_open_def Let_def)

lemma attach_fd_open_good: "good {i} By_accept ss (snd (attach_fd_open i fd ss))"
proof -
  define a where "a = upd_stm i (\<lambda>s. s\<lparr>s_pending_attach := False\<rparr>) ss"
  define b where "b = (if os_user_timeout (os a)
    then upd_stm i (\<lambda>s. s\<lparr>s_timeout := (s_timeout s)\<lparr>t_repeat := 0\<rparr>\<rparr>) a else a)"
  define c where "c = upd_stm i (\<lambda>s. s\<lparr>s_io := ev_io_set (s_io s) fd False True\<rparr>) b"
  have "tame ss a" "tame a b" "tame b c"
    unfolding a_def b_def c_def by (auto intro!: tame_upd simp: same_links_def)
  then have b: "tame ss b" and c: "tame ss c" and bc: "tame b c"
    using tame_trans by blast+
  have "good {i} By_accept ss (snd (send_syn_ack i c))" if "s_state (stm b i) = STREAM_SYN_RECEIVED"
    using that by (intro tame_good [OF c] send_syn_ack_good) (simp add: tameD(3) [OF bc])
  moreover from good_tame_after [OF this tame_upd]
  have "good {i} By_accept ss (upd_stm i (\<lambda>s. s\<lparr>s_connected := False, s_timeout := g s\<rparr>) (snd (send_syn_ack i c)))"
    if "s_state (stm b i) = STREAM_SYN_RECEIVED" for g
    using that by (simp add: same_links_def)
  moreover have "good {i} By_accept ss (upd_stm i (\<lambda>s. s\<lparr>s_connected := True, s_io := g s\<rparr>) b)" for g
    by (rule good_tame, rule tame_trans [OF b tame_upd]) (simp add: same_links_def)
  ultimately show ?thesis
    unfolding attach_fd_open_def Let_def a_def [symmetric] b_def [symmetric] c_def [symmetric] case_prod_beta
    by simp
qed

lemma do_attach_fd_good:
  assumes "i \<in> keys ss"
  shows "good {i} By_accept ss (mux_stream_do_attach_fd i fd ss)"
proof -
  obtain ok a where a: "attach_fd_open i fd ss = (ok, a)"
    by (cases "attach_fd_open i fd ss")
  have ga: "good {i} By_accept ss a"
    using attach_fd_open_good [of i ss fd] by (simp add: a)
  define b where "b = upd_stm i (\<lambda>s. s\<lparr>s_io := ev_io_start (s_io s)\<rparr>) a"
  have gb: "good {i} By_accept ss b"
    unfolding b_def by (rule good_tame_after [OF ga tame_upd]) (simp add: same_links_def)
  note gc = good_trans [OF gb good_finish [OF finish_drained_good], simplified]
  have "good {i} By_accept ss (upd_stm i update_watcher b)" "good {i} By_accept ss (upd_stm i update_watcher (snd (stream_finish_drained_write i b)))"
    by (rule good_tame_after [OF gb tame_upd] good_tame_after [OF gc tame_upd], simp)+
  moreover have "tame ss (stream_hand_over_rejected i (put_out (Out_close_fd fd) ss))"
    using assms by (intro tame_trans [OF tame_links hand_over_rejected_tame]) simp_all
  ultimately show ?thesis
    unfolding do_attach_fd_eq a Let_def prod.case
    unfolding b_def [symmetric] case_prod_beta using ga gc good_tame by simp
qed

lemma mark_syn_sent_good:
  assumes "s_state (stm ss i) = STREAM_INIT" "s_sched_queue (stm ss i) \<noteq> SCHED_QUEUE_LP"
  shows "good {i} By_syn_out ss (mux_stream_mark_syn_sent i ss)"
proof -
  have g: "good {i} By_syn_out ss (on_stm i (stream_set_state STREAM_SYN_SENT) ss)"
    using assms by (intro set_state_good) simp_all
  have "same_links s (update_watcher (s\<lparr>s_syn_sent_ns := t\<rparr>))" "same_links s (s\<lparr>s_syn_sent_ns := t\<rparr>)" for s t
    using same_links_watchers(1) [of "s\<lparr>s_syn_sent_ns := t\<rparr>"] by (simp_all add: same_links_def)
  then show ?thesis
    unfolding mux_stream_mark_syn_sent_def Let_def by (intro good_tame_after [OF g tame_upd]) simp
qed

lemma start_good:
  assumes "s_state (stm ss i) = STREAM_SYN_SENT"
  shows "good {i} By_syn_ack ss (mux_stream_start i ss)"
proof -
  define a where "a = on_stm i (stream_set_state STREAM_ESTABLISHED) ss"
  define b where "b = (if s_rx_eof (stm a i) \<and> s_send_queue (stm a i) = [] then mux_sched_wake a i else a)"
  have g: "good {i} By_syn_ack ss a"
    unfolding a_def using assms by (intro set_state_good) simp_all
  have "tame a b"
    using open_live [of ss i] assms by (simp add: b_def a_def tame_wake)
  then show ?thesis
    unfolding mux_stream_start_def Let_def a_def [symmetric] b_def [symmetric]
    by (intro good_tame_after [OF good_tame_after [OF g] tame_upd]) simp_all
qed

lemma queue_send_tame: "tame ss (mux_stream_queue_send i f ss)"
  unfolding mux_stream_queue_send_def Let_def
  by (rule tame_trans [OF tame_upd tame_links]) (simp_all add: same_links_def)

lemma dequeue_send_tame: "tame ss (snd (mux_stream_dequeue_send i ss))"
proof (cases "s_send_queue (stm ss i)")
  case Nil
  then show ?thesis
    by (simp add: mux_stream_dequeue_send_def tame_upd same_links_def Let_def)
next
  case (Cons frame rest)
  define a where "a = upd_stm i (\<lambda>s. s\<lparr>s_nagle_flush := False\<rparr>) ss"
  have t: "tame ss a"
    unfolding a_def by (rule tame_upd) (simp add: same_links_def)
  have k: "i \<in> keys ss" if "stream_can_send_data (stm ss i)"
    using that by (intro open_live) (auto simp: stream_can_send_data_def)
  have "tame ss (mux_sched_delay i n a)" if "stream_can_send_data (stm ss i)" for n
    using k [OF that] by (intro tame_trans [OF t tame_delay]) (simp add: a_def)
  moreover have "tame ss (counter_sub c 1 ((upd_stm i (\<lambda>s. s\<lparr>s_send_queue := rest, s_queued_send_bytes := g s\<rparr>) a)
      \<lparr>send_buffered_frames := m\<rparr>))" for c g m
    by (rule tame_trans [OF tame_trans [OF t tame_upd] tame_links]) (simp_all add: same_links_def)
  ultimately show ?thesis
    unfolding mux_stream_dequeue_send_def Let_def a_def [symmetric] Cons list.case by simp
qed

end
