(* ===== verification/Stream_Flow.thy ===== *)
theory Stream_Flow
  imports Stream_Inv
begin

text \<open>
  Flow control and delivery on the receive side of a stream: a grant never promises more than
  the receive window has room for, the accounting of the window survives every received
  frame, and the payload reaches the local socket or the receive buffer complete and in order.
\<close>

section \<open>Grants\<close>

text \<open>What the peer may still send, and what is buffered, fit the receive window.\<close>

definition stream_outstanding :: "mux_stream \<Rightarrow> nat" where
  "stream_outstanding s = unat (s_grant_sent s - s_bytes_received s)"

definition rx_ok :: "mux_stream \<Rightarrow> bool" where
  "rx_ok s \<longleftrightarrow> unat (s_buffered_bytes s) + stream_outstanding s \<le> unat (s_recv_window s)"

lemma pressure_scale_le_1: "session_pressure_scale ss \<le> 1"
  by (auto simp: session_pressure_scale_def Let_def MUX_PRESSURE_MIN_SCALE_def intro!: d_minus_le_1)

lemma grantable_bound: "stream_grantable_bytes s < 2 ^ 32"
proof -
  have "stream_avail_window s < 2 ^ 32"
    using unsigned_less [of "s_recv_window s - s_buffered_bytes s", where ?'a = nat] by (simp add: stream_avail_window_def)
  then show ?thesis
    by (simp add: stream_grantable_bytes_def Let_def less_imp_diff_less)
qed

lemma grant_inc_le: "mux_stream_grant_inc ss s * MUX_WINDOW_UNIT \<le> stream_grantable_bytes s"
proof (cases "stream_grantable_bytes s < MUX_WINDOW_UNIT")
  case False
  let ?g = "stream_grantable_bytes s"
  have "d_trunc (d_mult (d_of_nat ?g) (session_pressure_scale ss)) \<le> ?g"
    using grantable_bound [of s] by (intro d_trunc_scale_le pressure_scale_le_1) simp
  then have "max (d_trunc (d_mult (d_of_nat ?g) (session_pressure_scale ss))) MUX_WINDOW_UNIT \<le> ?g"
    using False by simp
  then have "max (d_trunc (d_mult (d_of_nat ?g) (session_pressure_scale ss))) MUX_WINDOW_UNIT div MUX_WINDOW_UNIT
      * MUX_WINDOW_UNIT \<le> ?g"
    by (meson div_times_less_eq_dividend le_trans)
  moreover have "mux_stream_grant_inc ss s
      \<le> max (d_trunc (d_mult (d_of_nat ?g) (session_pressure_scale ss))) MUX_WINDOW_UNIT div MUX_WINDOW_UNIT"
    using False by (simp add: mux_stream_grant_inc_def Let_def)
  ultimately show ?thesis
    using mult_le_mono1 le_trans by blast
qed (simp add: mux_stream_grant_inc_def)

lemma avail_window_eq:
  "stream_avail_window s = unat (s_recv_window s) - unat (s_buffered_bytes s)"
  by (auto simp: stream_avail_window_def word_less_nat_alt unat_sub word_le_nat_alt)

lemma grantable_eq:
  "rx_ok s \<Longrightarrow> stream_grantable_bytes s + unat (s_buffered_bytes s) + stream_outstanding s = unat (s_recv_window s)"
  by (auto simp: rx_ok_def stream_grantable_bytes_def avail_window_eq stream_outstanding_def Let_def)

lemma unat_plus_small: "unat (w :: u32) + n < 2 ^ 32 \<Longrightarrow> unat (w + of_nat n) = unat w + n"
  by (simp add: unat_word_ariths unat_of_nat)

lemma outstanding_grant:
  assumes "stream_outstanding s + n < 2 ^ 32"
  shows "stream_outstanding (s\<lparr>s_grant_sent := s_grant_sent s + of_nat n\<rparr>) = stream_outstanding s + n"
proof -
  have *: "s_grant_sent s + of_nat n - s_bytes_received s = s_grant_sent s - s_bytes_received s + of_nat n"
    by simp
  show ?thesis
    using unat_plus_small [of "s_grant_sent s - s_bytes_received s" n] assms
    by (simp add: stream_outstanding_def *)
qed

text \<open>C21. Whatever the memory pressure, a grant stays inside the receive window: the credit the
  peer then holds is the old credit plus the increment, without wrap-around, and still fits the
  window beside the buffered bytes.  As soon as one unit of the window is free at least one
  unit is granted, so no stream starves, and the increment fits the 16-bit field it is sent
  in.\<close>

theorem mux_stream_grant_inc_safe:
  fixes ss :: mux_session
  assumes "rx_ok s"
  defines "inc \<equiv> mux_stream_grant_inc ss s"
  defines "s' \<equiv> s\<lparr>s_grant_sent := s_grant_sent s + of_nat (inc * MUX_WINDOW_UNIT)\<rparr>"
  shows "rx_ok s' \<and> stream_outstanding s' = stream_outstanding s + inc * MUX_WINDOW_UNIT \<and> inc < 2 ^ 16
    \<and> (unat (s_buffered_bytes s) + stream_outstanding s + MUX_WINDOW_UNIT \<le> unat (s_recv_window s) \<longrightarrow> 1 \<le> inc)"
proof -
  have w: "unat (s_recv_window s) < 2 ^ 32"
    using unsigned_less [of "s_recv_window s", where ?'a = nat] by simp
  have le: "inc * MUX_WINDOW_UNIT \<le> stream_grantable_bytes s"
    by (simp add: inc_def grant_inc_le)
  note g = grantable_eq [OF assms(1)]
  have o: "stream_outstanding s' = stream_outstanding s + inc * MUX_WINDOW_UNIT"
    unfolding s'_def using le g w by (intro outstanding_grant) simp
  moreover have "1 \<le> inc" if "MUX_WINDOW_UNIT \<le> stream_grantable_bytes s"
  proof -
    have "1 \<le> max m MUX_WINDOW_UNIT div MUX_WINDOW_UNIT" for m
      using div_le_mono [of MUX_WINDOW_UNIT "max m MUX_WINDOW_UNIT" MUX_WINDOW_UNIT] by (simp add: MUX_WINDOW_UNIT_def)
    then show ?thesis
      using that by (simp add: inc_def mux_stream_grant_inc_def Let_def)
  qed
  moreover have "inc < 2 ^ 16"
    by (simp add: inc_def mux_stream_grant_inc_def Let_def min_less_iff_disj)
  ultimately show ?thesis
    using le g by (simp add: rx_ok_def s'_def)
qed

section \<open>The rounds of a flush\<close>

lemma check_ack_fields [simp]:
  "s_recvbuf (stm (mux_stream_check_ack i ss) j) = s_recvbuf (stm ss j)"
  "s_io (stm (mux_stream_check_ack i ss) j) = s_io (stm ss j)"
  "s_bytes_received (stm (mux_stream_check_ack i ss) j) = s_bytes_received (stm ss j)"
  "s_buffered_bytes (stm (mux_stream_check_ack i ss) j) = s_buffered_bytes (stm ss j)"
  "s_grant_sent (stm (mux_stream_check_ack i ss) j) = s_grant_sent (stm ss j)"
  "s_state (stm (mux_stream_check_ack i ss) j) = s_state (stm ss j)"
  by (simp_all add: mux_stream_check_ack_def Let_def stm_upd_stm stream_try_shrink_recv_window_def)

lemma check_ack_keys [simp]: "keys (mux_stream_check_ack i ss) = keys ss"
  by (rule tameD(2) [OF check_ack_tame])

lemma consume_stm [simp]:
  "stm (stream_consume i n ss) j = (if j = i \<and> i \<in> keys ss
    then (stm ss i)\<lparr>s_recvbuf := bytebuf_consume (s_recvbuf (stm ss i)) n,
           s_buffered_bytes := s_buffered_bytes (stm ss i) - of_nat n\<rparr> else stm ss j)"
  by (simp add: stream_consume_def stm_upd_stm Let_def)

lemma dead_recvbuf [simp]: "i \<notin> keys ss \<Longrightarrow> bytebuf_readable (s_recvbuf (stm ss i)) = 0"
  by (simp add: stm_missing dead_stream_def zero_stream_def zero_bytebuf_def bytebuf_readable_def)

lemma readable_consume: "bytebuf_readable (bytebuf_consume rb n) = bytebuf_readable rb - n"
  by (simp add: bytebuf_readable_def bytebuf_consume_def Let_def)

lemma flush_round:
  assumes "0 < bytebuf_readable (s_recvbuf (stm ss i))"
    "stream_local_write i (bytebuf_read_ptr (s_recvbuf (stm ss i))) ss = (n, s1)" "n \<noteq> 0"
  defines "s2 \<equiv> mux_stream_check_ack i (stream_consume i n s1)"
  shows "bytebuf_readable (s_recvbuf (stm s2 i)) = bytebuf_readable (s_recvbuf (stm ss i)) - n"
    "s_recvbuf (stm s2 i) = bytebuf_consume (s_recvbuf (stm ss i)) n" "i \<in> keys s2"
proof -
  have k: "i \<in> keys ss"
    using assms(1) by (rule contrapos_pp) simp
  have e: "stm s1 i = stm ss i" "keys s1 = keys ss"
    using stm_links [OF local_write_some(1) [OF assms(2,3)]] by simp_all
  show "s_recvbuf (stm s2 i) = bytebuf_consume (s_recvbuf (stm ss i)) n"
    using k e by (simp add: s2_def)
  then show "bytebuf_readable (s_recvbuf (stm s2 i)) = bytebuf_readable (s_recvbuf (stm ss i)) - n"
    by (simp add: readable_consume)
  show "i \<in> keys s2"
    using k e tameD(2) [OF tame_consume, of i n s1] by (simp add: s2_def)
qed

lemma flush_fuel:
  "bytebuf_readable (s_recvbuf (stm ss i)) \<le> k \<Longrightarrow> bytebuf_readable (s_recvbuf (stm ss i)) \<le> m \<Longrightarrow>
    flush_local_loop k i b ss = flush_local_loop m i b ss"
proof (induction k arbitrary: m b ss)
  case 0
  then show ?case
    by (simp add: flush_local_loop.simps [of _ i b ss])
next
  case (Suc k)
  show ?case
  proof (cases "0 < bytebuf_readable (s_recvbuf (stm ss i))")
    case True
    then obtain m' where m: "m = Suc m'"
      using Suc.prems(2) by (cases m) auto
    obtain n s1 where w: "stream_local_write i (bytebuf_read_ptr (s_recvbuf (stm ss i))) ss = (n, s1)"
      by (cases "stream_local_write i (bytebuf_read_ptr (s_recvbuf (stm ss i))) ss")
    show ?thesis
      using Suc.IH [of "mux_stream_check_ack i (stream_consume i n s1)" m' True] flush_round(1) [OF True w]
        Suc.prems True m w
      by (simp add: flush_local_loop.simps [of _ i b ss] Let_def)
  qed (simp add: flush_local_loop.simps [of _ i b ss])
qed

text \<open>C22. The flush of a receive buffer to the local socket returns: every round of its loop
  takes at least one byte out of the buffer, so the buffered bytes bound the number of rounds,
  and the bounded loop is the loop of the code for every larger bound as well.\<close>

theorem stream_flush_local_terminates:
  "bytebuf_readable (s_recvbuf (stm ss i)) \<le> fuel \<Longrightarrow>
    flush_local_loop fuel i b ss = flush_local_loop (bytebuf_readable (s_recvbuf (stm ss i))) i b ss
    \<and> flush_local_loop fuel i b ss =
      (let rb = s_recvbuf (stm ss i) in
       if \<not> bytebuf_readable rb > 0 then flush_local_drained i ss
       else let (nwrite, ss) = stream_local_write i (bytebuf_read_ptr rb) ss in
       if nwrite = 0
       then (if \<not> session_streams_freed ss \<and> s_state (stm ss i) \<noteq> STREAM_CLOSED
             then upd_stm i (update_send_timeout b) ss else ss)
       else let ss = mux_stream_check_ack i (stream_consume i nwrite ss)
            in flush_local_loop (bytebuf_readable (s_recvbuf (stm ss i))) i True ss)"
proof -
  assume le: "bytebuf_readable (s_recvbuf (stm ss i)) \<le> fuel"
  have e: "flush_local_loop fuel i b ss = flush_local_loop (Suc fuel) i b ss"
    using le by (intro flush_fuel) simp_all
  have "flush_local_loop fuel i b ss = flush_local_loop (bytebuf_readable (s_recvbuf (stm ss i))) i b ss"
    using le by (intro flush_fuel) simp_all
  moreover have "flush_local_loop fuel i True s2 = flush_local_loop (bytebuf_readable (s_recvbuf (stm s2 i))) i True s2"
    if "0 < bytebuf_readable (s_recvbuf (stm ss i))"
      "stream_local_write i (bytebuf_read_ptr (s_recvbuf (stm ss i))) ss = (n, s1)" "n \<noteq> 0"
      "s2 = mux_stream_check_ack i (stream_consume i n s1)" for n s1 s2
    using flush_round(1) [OF that(1-3)] le that(4) by (intro flush_fuel) simp_all
  ultimately show ?thesis
    unfolding e by (auto simp: flush_local_loop.simps [of "Suc fuel" i b ss] Let_def split: prod.split)
qed

section \<open>Delivery\<close>

text \<open>The bytes handed to a local socket so far.\<close>

definition local_bytes :: "int \<Rightarrow> mux_session \<Rightarrow> u8 list" where
  "local_bytes fd ss = concat (map (\<lambda>x. case x of Out_local f bs \<Rightarrow> if f = fd then bs else [] | _ \<Rightarrow> []) (rev (out ss)))"

lemma local_bytes_out: "out a = out b \<Longrightarrow> local_bytes fd a = local_bytes fd b"
  by (simp add: local_bytes_def)

lemma local_bytes_put_out [simp]:
  "local_bytes fd (put_out x ss) = local_bytes fd ss @ (case x of Out_local f bs \<Rightarrow> if f = fd then bs else [] | _ \<Rightarrow> [])"
  by (simp add: local_bytes_def put_out_def)

lemma take_min_length: "take (min k (length xs)) xs = take k xs"
  by (simp add: min_def)

lemma local_write_loop_bytes:
  "local_write_loop sfd data m ss = (Some n, ss') \<Longrightarrow> m \<le> length data \<Longrightarrow>
    m \<le> n \<and> n \<le> length data \<and> local_bytes sfd ss' = local_bytes sfd ss @ take (n - m) (drop m data)"
proof (induction sfd data m ss rule: local_write_loop.induct)
  case (1 sfd data m ss)
  obtain ans s1 where s1: "socket_send (Out_local sfd) (drop m data) ss = (ans, s1)"
    by (cases "socket_send (Out_local sfd) (drop m data) ss")
  have b: "local_bytes sfd s1 = local_bytes sfd ss @ (case ans of Send_ok k \<Rightarrow> take k (drop m data) | _ \<Rightarrow> [])"
    and k: "ans = Send_ok k \<Longrightarrow> k \<le> length data - m" for k
    using s1 take_min_length [of _ "drop m data"]
    by (auto simp: socket_send_def Let_def local_bytes_def put_out_def split: send_answer.splits if_splits)
  show ?case
  proof (cases "m < length data \<and> (\<exists>k. ans = Send_ok k \<and> k \<noteq> 0)")
    case True
    then obtain k where a: "ans = Send_ok k" "k \<noteq> 0"
      by blast
    have "local_write_loop sfd data (m + k) s1 = (Some n, ss')"
      using True a 1(2) by (simp add: local_write_loop.simps [of sfd data m] s1)
    then have IH: "m + k \<le> n \<and> n \<le> length data
        \<and> local_bytes sfd ss' = local_bytes sfd s1 @ take (n - (m + k)) (drop (m + k) data)"
      using 1(1) [OF _ s1 [symmetric] a] True k [OF a(1)] by auto
    have "take (n - m) (drop m data) = take k (drop m data) @ take (n - (m + k)) (drop (m + k) data)"
      using IH take_add [of k "n - (m + k)" "drop m data"] by (simp add: add.commute)
    then show ?thesis
      using IH b a by simp
  next
    case False
    then show ?thesis
      using 1(2,3) b by (auto simp: local_write_loop.simps [of sfd data m] s1 split: send_answer.splits if_splits)
  qed
qed

lemma mark_closed_state [simp]: "s_state (stm (stream_mark_closed i ss) i) = STREAM_CLOSED"
proof -
  have "s_state (stm (mux_sched_check_no_active_streams b) i) = STREAM_CLOSED" if "s_state (stm b i) = STREAM_CLOSED" for b
    using check_no_active_ended [of b, unfolded ended_def] that
      stm_links(1) [of "mux_sched_check_no_active_streams b" b] links_gone
    by (auto simp: dead_stream_def)
  then show ?thesis
    by (simp add: stream_mark_closed_eq Let_def stm_upd_stm mark_closed_stream_state)
qed

lemma freed_stm: "session_streams_freed ss \<Longrightarrow> stm ss i = dead_stream"
  by (simp add: session_streams_freed_def stm_def tab_def)

lemma abort_notify_close_closed [simp]: "s_state (stm (stream_abort_notify_close i ss) i) = STREAM_CLOSED"
  using freed_stm [of "stream_rst_notify_direct i ss" i]
  by (auto simp: stream_abort_notify_close_def Let_def dead_stream_def)

lemma abort_closed [simp]: "s_state (stm (mux_stream_abort i code ss) i) = STREAM_CLOSED"
  by (simp add: mux_stream_abort_def Let_def)

lemma local_write_loop_heap [simp]: "heap (snd (local_write_loop sfd data m ss)) = heap ss"
proof (induction sfd data m ss rule: local_write_loop.induct)
  case (1 sfd data m ss)
  obtain ans s1 where s1: "socket_send (Out_local sfd) (drop m data) ss = (ans, s1)"
    by (cases "socket_send (Out_local sfd) (drop m data) ss")
  have "heap s1 = heap ss"
    using arg_cong [OF s1, of "heap \<circ> snd"] by (simp add: socket_send_def Let_def split: send_answer.splits if_splits)
  then show ?case
    using 1 [OF _ s1 [symmetric]] s1 by (subst local_write_loop.simps) (auto split: send_answer.split)
qed

text \<open>A write that does not end the stream.\<close>

lemma local_write_bytes:
  assumes "stream_local_write i data ss = (n, ss')" "n \<noteq> 0 \<or> s_state (stm ss' i) \<noteq> STREAM_CLOSED"
  shows "n \<le> length data" "links ss' = links ss" "heap ss' = heap ss"
    "local_bytes (io_fd (s_io (stm ss i))) ss' = local_bytes (io_fd (s_io (stm ss i))) ss @ take n data"
proof -
  obtain r s1 where s1: "local_write_loop (io_fd (s_io (stm ss i))) data 0 ss = (r, s1)"
    by (cases "local_write_loop (io_fd (s_io (stm ss i))) data 0 ss")
  have r: "r = Some n" "s1 = ss'"
    using assms by (auto simp: stream_local_write_def s1 split: option.splits)
  note b = local_write_loop_bytes [OF s1 [unfolded r]]
  show "n \<le> length data"
    "local_bytes (io_fd (s_io (stm ss i))) ss' = local_bytes (io_fd (s_io (stm ss i))) ss @ take n data"
    using b by simp_all
  show "links ss' = links ss" "heap ss' = heap ss"
    using local_write_loop_links [of "io_fd (s_io (stm ss i))" data 0 ss]
      local_write_loop_heap [of "io_fd (s_io (stm ss i))" data 0 ss] by (simp_all add: s1 r)
qed

text \<open>The receive side of a stream is consistent: the buffer is well formed, the byte gauge
  agrees with it, and the window has room for what the peer may still send.\<close>

definition rx_inv :: "mux_stream \<Rightarrow> bool" where
  "rx_inv s \<longleftrightarrow> bytebuf_inv (s_recvbuf s) \<and> unat (s_buffered_bytes s) = bytebuf_readable (s_recvbuf s) \<and> rx_ok s"

text \<open>What a stream has delivered to its socket followed by what it still buffers.\<close>

definition delivered_bytes :: "int \<Rightarrow> u16 \<Rightarrow> mux_session \<Rightarrow> u8 list" where
  "delivered_bytes fd i ss = local_bytes fd ss @ bytebuf_read_ptr (s_recvbuf (stm ss i))"

lemma out_queue_ops [simp]:
  "out (mux_sched_wake ss i) = out ss" "out (mux_sched_delay i t ss) = out ss"
  "out (upd_stm i f ss) = out ss" "out (mux_stream_check_ack i ss) = out ss" "out (stream_consume i n ss) = out ss"
proof -
  show w: "out (mux_sched_wake ss i) = out ss" for ss
    by (simp add: mux_sched_wake_def sched_enqueue_def sched_lp_enqueue_def mux_sched_schedule_def set_tx_pending_def
        upd_stm_def Let_def)
  show d: "out (mux_sched_delay i t ss) = out ss" for t ss
    by (simp add: mux_sched_delay_def mux_sched_coalesce_arm_def upd_stm_def Let_def)
  show "out (upd_stm i f ss) = out ss" "out (stream_consume i n ss) = out ss"
    by (simp_all add: upd_stm_def stream_consume_def Let_def)
  show "out (mux_stream_check_ack i ss) = out ss"
    using w d by (simp add: mux_stream_check_ack_def upd_stm_def Let_def)
qed

lemma heap_queue_ops [simp]:
  "heap (mux_sched_wake ss i) = heap ss" "heap (mux_sched_delay i n ss) = heap ss"
  "heap (upd_stm i f ss) = heap ss" "heap (mux_stream_check_ack i ss) = heap ss"
proof -
  show w: "heap (mux_sched_wake ss i) = heap ss" for ss
    by (simp add: mux_sched_wake_def sched_enqueue_def sched_lp_enqueue_def mux_sched_schedule_def set_tx_pending_def
        upd_stm_def Let_def)
  show d: "heap (mux_sched_delay i n ss) = heap ss" for n ss
    by (simp add: mux_sched_delay_def mux_sched_coalesce_arm_def upd_stm_def Let_def)
  show "heap (upd_stm i f ss) = heap ss"
    by (simp add: upd_stm_def)
  show "heap (mux_stream_check_ack i ss) = heap ss"
    using w d by (simp add: mux_stream_check_ack_def upd_stm_def Let_def)
qed

lemma try_shrink_rx:
  assumes "rx_inv s"
  shows "rx_inv (stream_try_shrink_recv_window ss s)"
proof -
  have "unat (s_recv_window s) < 2 ^ 32"
    using unsigned_less [of "s_recv_window s", where ?'a = nat] by simp
  then have small: "unat (of_nat n :: u32) = n" if "n < unat (s_recv_window s)" for n
    using that by (simp add: unat_of_nat)
  define t where "t = unat (stream_window ss) * MUX_WINDOW_UNIT"
  have "rx_inv (s\<lparr>s_recv_window := of_nat t\<rparr>)"
    if "t < unat (s_recv_window s)" "unat (s_buffered_bytes s) + stream_outstanding s \<le> t"
    using assms that small [OF that(1)] by (simp add: rx_inv_def rx_ok_def stream_outstanding_def)
  then show ?thesis
    unfolding stream_try_shrink_recv_window_def Let_def t_def [symmetric]
    using assms by (simp add: stream_outstanding_def not_le not_less)
qed

lemma check_ack_rx:
  assumes "rx_inv (stm ss j)"
  shows "rx_inv (stm (mux_stream_check_ack i ss) j)"
proof -
  have "rx_inv (stm (mux_stream_check_ack i ss) j) = rx_inv (stm (if s_state (stm ss i) = STREAM_CLOSED then ss
      else upd_stm i (stream_try_shrink_recv_window ss) ss) j)"
    by (simp add: mux_stream_check_ack_def Let_def stm_upd_stm rx_inv_def rx_ok_def stream_outstanding_def)
  then show ?thesis
    using assms try_shrink_rx by (auto simp: stm_upd_stm)
qed

lemma consume_rx:
  assumes "rx_inv s" "n \<le> bytebuf_readable (s_recvbuf s)"
  shows "rx_inv (s\<lparr>s_recvbuf := bytebuf_consume (s_recvbuf s) n, s_buffered_bytes := s_buffered_bytes s - of_nat n\<rparr>)"
proof -
  have n: "n \<le> unat (s_buffered_bytes s)"
    using assms by (simp add: rx_inv_def)
  then have "unat (of_nat n :: u32) = n"
    using unsigned_less [of "s_buffered_bytes s", where ?'a = nat] by (simp add: unat_of_nat)
  then have "unat (s_buffered_bytes s - of_nat n) = unat (s_buffered_bytes s) - n"
    using n by (simp add: unat_sub word_le_nat_alt)
  then show ?thesis
    using assms n bytebuf_consume_refines(1) [of "s_recvbuf s" n]
    by (auto simp: rx_inv_def rx_ok_def stream_outstanding_def readable_consume)
qed

text \<open>The rest of a stream that an update of its watcher or timer leaves alone.\<close>

lemma watcher_fields [simp]:
  "s_recvbuf (update_send_timeout b s) = s_recvbuf s" "s_buffered_bytes (update_send_timeout b s) = s_buffered_bytes s"
  "s_bytes_received (update_send_timeout b s) = s_bytes_received s" "s_recv_window (update_send_timeout b s) = s_recv_window s"
  "s_grant_sent (update_send_timeout b s) = s_grant_sent s" "s_io (update_send_timeout b s) = s_io s"
  "s_recvbuf (update_watcher s) = s_recvbuf s" "s_buffered_bytes (update_watcher s) = s_buffered_bytes s"
  "s_bytes_received (update_watcher s) = s_bytes_received s" "s_recv_window (update_watcher s) = s_recv_window s"
  "s_grant_sent (update_watcher s) = s_grant_sent s" "s_is_direct (update_watcher s) = s_is_direct s"
  "s_recvbuf (stream_feed_user rd wr s) = s_recvbuf s" "s_buffered_bytes (stream_feed_user rd wr s) = s_buffered_bytes s"
  "s_bytes_received (stream_feed_user rd wr s) = s_bytes_received s"
  "s_recv_window (stream_feed_user rd wr s) = s_recv_window s" "s_grant_sent (stream_feed_user rd wr s) = s_grant_sent s"
  by (simp_all add: update_send_timeout_def update_watcher_def stream_feed_user_def Let_def split: option.split)

definition rxv :: "mux_stream \<Rightarrow> bytebuf \<times> u32 \<times> u32 \<times> u32 \<times> u32" where
  "rxv s = (s_recvbuf s, s_buffered_bytes s, s_bytes_received s, s_recv_window s, s_grant_sent s)"

lemma rxvD:
  assumes "rxv s = rxv s'"
  shows "s_recvbuf s = s_recvbuf s'" "s_bytes_received s = s_bytes_received s'" "rx_inv s = rx_inv s'"
  using assms by (auto simp: rxv_def rx_inv_def rx_ok_def stream_outstanding_def)

lemma finish_drained_rx:
  assumes "r = snd (stream_finish_drained_write i ss)" "s_state (stm r i) \<noteq> STREAM_CLOSED"
  shows "rxv (stm r i) = rxv (stm ss i)" "local_bytes fd r = local_bytes fd ss" "keys r = keys ss"
proof -
  define a where "a = (if \<not> s_tx_shutdown (stm ss i) then on_stm i stream_shutdown_local_write ss else ss)"
  have r: "r = (if stream_can_shutdown_write_now (stm ss i) then a else ss)"
    using assms unfolding a_def [symmetric] stream_finish_drained_write_def Let_def by (auto split: if_splits)
  show "rxv (stm r i) = rxv (stm ss i)" "local_bytes fd r = local_bytes fd ss" "keys r = keys ss"
    by (auto simp: r a_def on_stm_eq stm_put_stm stream_shutdown_local_write_def rxv_def local_bytes_def put_out_def)
qed

lemma flush_drained_rx:
  assumes "r = flush_local_drained i ss" "s_state (stm r i) \<noteq> STREAM_CLOSED"
  shows "rxv (stm r i) = rxv (stm ss i)" "local_bytes fd r = local_bytes fd ss" "keys r = keys ss"
proof -
  define a where "a = upd_stm i (update_send_timeout False) ss"
  have a: "rxv (stm a i) = rxv (stm ss i)" "local_bytes fd a = local_bytes fd ss" "keys a = keys ss" for fd
    by (auto simp: a_def stm_upd_stm rxv_def local_bytes_def)
  have "r = a \<or> r = snd (stream_finish_drained_write i a)"
    using assms(1) unfolding flush_local_drained_def Let_def a_def [symmetric] by (auto split: if_splits)
  then show "rxv (stm r i) = rxv (stm ss i)" "local_bytes fd r = local_bytes fd ss" "keys r = keys ss"
    using a finish_drained_rx [of r i a] assms(2) by auto
qed

lemma flush_local_loop_delivers:
  assumes "rx_inv (stm ss i)" "bytebuf_readable (s_recvbuf (stm ss i)) \<le> fuel" "r = flush_local_loop fuel i b ss"
    "s_state (stm r i) \<noteq> STREAM_CLOSED" "fd = io_fd (s_io (stm ss i))"
  shows "delivered_bytes fd i r = delivered_bytes fd i ss \<and> rx_inv (stm r i)
    \<and> s_bytes_received (stm r i) = s_bytes_received (stm ss i)"
  using assms
proof (induction fuel arbitrary: ss b)
  case 0
  have r: "r = flush_local_drained i ss"
    using 0 by (simp add: flush_local_loop.simps [of _ i b ss])
  show ?case
    using flush_drained_rx(2) [OF r 0(4)] rxvD [OF flush_drained_rx(1) [OF r 0(4)]] 0(1)
    by (simp add: delivered_bytes_def)
next
  case (Suc fuel)
  let ?rb = "s_recvbuf (stm ss i)"
  show ?case
  proof (cases "0 < bytebuf_readable ?rb")
    case False
    then have r: "r = flush_local_drained i ss"
      using Suc.prems(3) by (simp add: flush_local_loop.simps [of _ i b ss])
    show ?thesis
      using flush_drained_rx(2) [OF r Suc.prems(4)] rxvD [OF flush_drained_rx(1) [OF r Suc.prems(4)]] Suc.prems(1)
      by (simp add: delivered_bytes_def)
  next
    case True
    obtain n s1 where w: "stream_local_write i (bytebuf_read_ptr ?rb) ss = (n, s1)"
      by (cases "stream_local_write i (bytebuf_read_ptr ?rb) ss")
    have inv: "bytebuf_inv ?rb"
      using Suc.prems(1) by (simp add: rx_inv_def)
    show ?thesis
    proof (cases "n = 0")
      case z: True
      have r: "r = (if \<not> session_streams_freed s1 \<and> s_state (stm s1 i) \<noteq> STREAM_CLOSED
          then upd_stm i (update_send_timeout b) s1 else s1)"
        using Suc.prems(3) True w z by (simp add: flush_local_loop.simps [of _ i b ss] Let_def)
      then have c: "s_state (stm s1 i) \<noteq> STREAM_CLOSED"
        using Suc.prems(4) by (auto simp: stm_upd_stm split: if_splits)
      note b = local_write_bytes [OF w disjI2 [OF c]]
      have e: "stm s1 i = stm ss i" "keys s1 = keys ss"
        using stm_links [OF b(2)] by simp_all
      show ?thesis
        using r b(4) z e Suc.prems(1,5)
        by (auto simp: delivered_bytes_def local_bytes_def stm_upd_stm rx_inv_def rx_ok_def stream_outstanding_def)
    next
      case nz: False
      define s2 where "s2 = mux_stream_check_ack i (stream_consume i n s1)"
      note b = local_write_bytes [OF w disjI1 [OF nz]]
      note f = flush_round [OF True w nz, folded s2_def]
      have e: "stm s1 i = stm ss i" "keys s1 = keys ss"
        using stm_links [OF b(2)] by simp_all
      have n: "n \<le> bytebuf_readable ?rb"
        using b(1) by (simp add: length_bytebuf_read_ptr [OF inv])
      have k: "i \<in> keys ss"
        using True by (rule contrapos_pp) simp
      have r: "r = flush_local_loop fuel i True s2"
        using Suc.prems(3) True w nz by (simp add: flush_local_loop.simps [of _ i b ss] Let_def s2_def)
      have s2: "rx_inv (stm s2 i)" "s_bytes_received (stm s2 i) = s_bytes_received (stm ss i)"
        "s_io (stm s2 i) = s_io (stm ss i)"
        using consume_rx [OF Suc.prems(1) n] k e unfolding s2_def by (auto intro!: check_ack_rx)
      have "local_bytes fd s2 = local_bytes fd s1"
        by (rule local_bytes_out) (simp add: s2_def)
      then have d: "delivered_bytes fd i s2 = delivered_bytes fd i ss"
        using b(4) bytebuf_consume_refines(2) [OF inv n] Suc.prems(5) by (simp add: delivered_bytes_def f(2))
      show ?thesis
        using Suc.IH [OF s2(1) _ r Suc.prems(4)] f(1) nz Suc.prems(2,5) s2 d by simp
    qed
  qed
qed

lemma notify_readable_delivers:
  assumes "rx_inv (stm ss i)" "r = stream_notify_readable i ss" "s_state (stm r i) \<noteq> STREAM_CLOSED"
    "fd = io_fd (s_io (stm ss i))"
  shows "delivered_bytes fd i r = delivered_bytes fd i ss \<and> rx_inv (stm r i)
    \<and> s_bytes_received (stm r i) = s_bytes_received (stm ss i)"
proof -
  have upd: "rxv (stm (upd_stm i (stream_feed_user True False) a) i) = rxv (stm a i)"
    "rxv (stm (upd_stm i (\<lambda>s. stream_feed_user True False (update_watcher s)) a) i) = rxv (stm a i)" for a
    by (auto simp: stm_upd_stm rxv_def)
  have lb: "local_bytes fd (upd_stm i f a) = local_bytes fd a" for f a
    by (rule local_bytes_out) simp
  define a where "a = (if s_connected (stm ss i) \<and> \<not> io_write (s_io (stm ss i)) then stream_flush_local i ss else ss)"
  show ?thesis
  proof (cases "s_is_direct (stm ss i)")
    case True
    then have "r = upd_stm i (stream_feed_user True False) ss"
      using assms(2) by (simp add: stream_notify_readable_def Let_def)
    then show ?thesis
      using assms(1) rxvD [OF upd(1)] by (simp add: delivered_bytes_def lb)
  next
    case False
    have r: "r = a \<or> r = upd_stm i (\<lambda>s. stream_feed_user True False (update_watcher s)) a"
      using assms(2) False unfolding stream_notify_readable_def Let_def a_def [symmetric]
      by (simp add: a_def split: if_splits)
    then have c: "s_state (stm a i) \<noteq> STREAM_CLOSED"
      using assms(3) same_links_watchers by (auto simp: stm_upd_stm same_links_def split: if_splits)
    have "delivered_bytes fd i a = delivered_bytes fd i ss \<and> rx_inv (stm a i)
        \<and> s_bytes_received (stm a i) = s_bytes_received (stm ss i)"
      using flush_local_loop_delivers [OF assms(1) order_refl _ _ assms(4)] c assms(1)
      by (auto simp: a_def stream_flush_local_def split: if_splits)
    moreover have "delivered_bytes fd i r = delivered_bytes fd i a \<and> rx_inv (stm r i) = rx_inv (stm a i)
        \<and> s_bytes_received (stm r i) = s_bytes_received (stm a i)"
      using r rxvD [OF upd(2)] by (auto simp: delivered_bytes_def lb)
    ultimately show ?thesis
      by simp
  qed
qed

lemma receive_rx:
  assumes "rx_inv s" "n \<le> stream_outstanding s"
  shows "stream_outstanding (s\<lparr>s_bytes_received := s_bytes_received s + of_nat n\<rparr>) = stream_outstanding s - n"
    "unat (s_buffered_bytes s + of_nat n) = unat (s_buffered_bytes s) + n"
proof -
  have w: "unat (s_recv_window s) < 2 ^ 32"
    using unsigned_less [of "s_recv_window s", where ?'a = nat] by simp
  have le: "unat (s_buffered_bytes s) + n \<le> unat (s_recv_window s)"
    using assms by (simp add: rx_inv_def rx_ok_def)
  show "unat (s_buffered_bytes s + of_nat n) = unat (s_buffered_bytes s) + n"
    using le w by (intro unat_plus_small) simp
  have n: "unat (of_nat n :: u32) = n"
    using le w by (simp add: unat_of_nat)
  have *: "s_grant_sent s - (s_bytes_received s + of_nat n) = s_grant_sent s - s_bytes_received s - of_nat n"
    by simp
  show "stream_outstanding (s\<lparr>s_bytes_received := s_bytes_received s + of_nat n\<rparr>) = stream_outstanding s - n"
    using assms(2) n by (simp add: stream_outstanding_def * unat_sub word_le_nat_alt)
qed

lemma append_rx:
  assumes "rx_inv s" "length bs \<le> stream_outstanding s"
    "mux_bytebuf_reserve e (s_recvbuf s) (length bs) True = (True, rb, e')"
  defines "s' \<equiv> s\<lparr>s_recvbuf := bytebuf_append rb bs, s_bytes_received := s_bytes_received s + of_nat (length bs),
    s_buffered_bytes := s_buffered_bytes s + of_nat (length bs)\<rparr>"
  shows "rx_inv s'" "bytebuf_read_ptr (s_recvbuf s') = bytebuf_read_ptr (s_recvbuf s) @ bs"
proof -
  have inv: "bytebuf_inv (s_recvbuf s)"
    using assms(1) by (simp add: rx_inv_def)
  note rs = mux_bytebuf_reserve_refines [OF inv assms(3)]
  have ap: "bytebuf_inv (bytebuf_append rb bs)" "bytebuf_read_ptr (bytebuf_append rb bs) = bytebuf_read_ptr rb @ bs"
    using rs bytebuf_append_refines [of rb bs] by simp_all
  show "bytebuf_read_ptr (s_recvbuf s') = bytebuf_read_ptr (s_recvbuf s) @ bs"
    using ap rs by (simp add: s'_def)
  have "bytebuf_readable (bytebuf_append rb bs) = bytebuf_readable (s_recvbuf s) + length bs"
    using length_bytebuf_read_ptr [OF ap(1)] ap(2) rs length_bytebuf_read_ptr [OF inv] by simp
  moreover have "stream_outstanding s' = stream_outstanding (s\<lparr>s_bytes_received := s_bytes_received s + of_nat (length bs)\<rparr>)"
    by (simp add: s'_def stream_outstanding_def)
  ultimately show "rx_inv s'"
    using ap(1) receive_rx [OF assms(1,2)] assms(1,2) by (simp add: rx_inv_def rx_ok_def s'_def)
qed

lemma recv_buffer_delivers:
  assumes "rx_inv (stm ss i)" "length payload \<le> stream_outstanding (stm ss i)" "i \<in> keys ss"
    "r = recv_buffer i payload ss" "s_state (stm r i) \<noteq> STREAM_CLOSED" "fd = io_fd (s_io (stm ss i))"
  shows "delivered_bytes fd i r = delivered_bytes fd i ss @ payload \<and> rx_inv (stm r i)
    \<and> s_bytes_received (stm r i) = s_bytes_received (stm ss i) + of_nat (length payload)"
proof (cases "payload = []")
  case True
  then show ?thesis
    using assms(1,4) by (simp add: recv_buffer_def)
next
  case False
  obtain ok rb hp where rs: "mux_bytebuf_reserve (heap ss) (s_recvbuf (stm ss i)) (length payload) True = (ok, rb, hp)"
    by (cases "mux_bytebuf_reserve (heap ss) (s_recvbuf (stm ss i)) (length payload) True")
  have ok: ok
  proof (rule ccontr)
    assume "\<not> ok"
    then have "r = mux_stream_abort i MUX_STATUS_INTERNAL_ERROR (upd_stm i (\<lambda>s. s\<lparr>s_recvbuf := rb\<rparr>) (ss\<lparr>heap := hp\<rparr>))"
      using assms(4) False rs by (simp add: recv_buffer_def Let_def)
    then show False
      using assms(5) by simp
  qed
  define n where "n = length payload"
  define a where "a = upd_stm i (\<lambda>s. s\<lparr>s_recvbuf := rb\<rparr>) (ss\<lparr>heap := hp\<rparr>)"
  define b where "b = upd_stm i (\<lambda>s. s\<lparr>s_recvbuf := bytebuf_append (s_recvbuf s) payload\<rparr>) a"
  define c where "c = counter_add cnt_recv_buffered_bytes n (b\<lparr>recv_buffered_bytes := recv_buffered_bytes b + n\<rparr>)"
  define d where "d = upd_stm i (\<lambda>s. s\<lparr>s_bytes_received := s_bytes_received s + of_nat n,
                     s_buffered_bytes := s_buffered_bytes s + of_nat n\<rparr>) c"
  have r: "r = stream_notify_readable i d"
    using assms(4) False ok rs by (simp add: recv_buffer_def Let_def n_def a_def b_def c_def d_def)
  have s: "stm d i = (stm ss i)\<lparr>s_recvbuf := bytebuf_append rb payload,
      s_bytes_received := s_bytes_received (stm ss i) + of_nat (length payload),
      s_buffered_bytes := s_buffered_bytes (stm ss i) + of_nat (length payload)\<rparr>"
    using assms(3) by (simp add: d_def c_def b_def a_def n_def)
  have "mux_bytebuf_reserve (heap ss) (s_recvbuf (stm ss i)) (length payload) True = (True, rb, hp)"
    using rs ok by simp
  note ap = append_rx [OF assms(1,2) this]
  have "local_bytes fd d = local_bytes fd ss"
    by (rule local_bytes_out) (simp add: d_def c_def b_def a_def)
  then have dd: "delivered_bytes fd i d = delivered_bytes fd i ss @ payload"
    using ap(2) by (simp add: delivered_bytes_def s)
  show ?thesis
    using notify_readable_delivers [OF _ r assms(5), of fd] ap(1) dd assms(6) by (simp add: s)
qed

text \<open>An open stream after the call accepted the payload; it was buffered, or written to the socket in
  part with the rest buffered.\<close>

lemma recv_copy_credit:
  assumes "s_state (stm (mux_stream_recv_copy i payload ss) i) \<noteq> STREAM_CLOSED"
  shows "s_state (stm ss i) \<noteq> STREAM_CLOSED" "length payload \<le> stream_outstanding (stm ss i)"
proof -
  show st: "s_state (stm ss i) \<noteq> STREAM_CLOSED"
    using assms by (auto simp: mux_stream_recv_copy_def Let_def)
  show "length payload \<le> stream_outstanding (stm ss i)"
  proof (rule ccontr)
    assume "\<not> length payload \<le> stream_outstanding (stm ss i)"
    then have "mux_stream_recv_copy i payload ss = mux_stream_abort i MUX_STATUS_FLOW_CONTROL_ERROR ss"
      using st by (simp add: mux_stream_recv_copy_def Let_def stream_outstanding_def)
    then show False
      using assms by simp
  qed
qed

lemma recv_copy_cases:
  assumes "rx_inv (stm ss i)" "r = mux_stream_recv_copy i payload ss" "s_state (stm r i) \<noteq> STREAM_CLOSED"
  obtains (buffer) "r = recv_buffer i payload ss"
    | (written) n s1 where "stream_local_write i payload ss = (n, s1)" "bytebuf_readable (s_recvbuf (stm ss i)) = 0"
        "s_state (stm s1 i) \<noteq> STREAM_CLOSED" "r = recv_buffer i (drop n payload) (mux_stream_check_ack i
          (upd_stm i (\<lambda>s. s\<lparr>s_bytes_received := s_bytes_received s + of_nat n\<rparr>) s1))"
    | (blocked) s1 where "stream_local_write i payload ss = (0, s1)" "s_state (stm s1 i) \<noteq> STREAM_CLOSED"
        "r = recv_buffer i payload s1"
proof -
  let ?s = "stm ss i"
  note c = recv_copy_credit [OF assms(3) [unfolded assms(2)]]
  have fit: "unat (s_buffered_bytes ?s) + length payload \<le> unat (s_recv_window ?s)"
    using assms(1) c(2) by (simp add: rx_inv_def rx_ok_def)
  obtain n s1 where w: "stream_local_write i payload ss = (n, s1)"
    by (cases "stream_local_write i payload ss")
  have no: "(s_state ?s = STREAM_CLOSED) = False" "(length payload > unat (s_grant_sent ?s - s_bytes_received ?s)) = False"
    "(unat (s_buffered_bytes ?s) + length payload > unat (s_recv_window ?s)) = False"
    using c fit by (simp_all add: stream_outstanding_def not_less)
  have r: "r = (if s_is_direct ?s \<and> s_user_closed ?s \<and> length payload > 0
        then stream_mark_closed i (stream_reset_unread i ss)
      else if length payload > 0 \<and> bytebuf_readable (s_recvbuf ?s) = 0 \<and> \<not> s_is_direct ?s \<and> s_connected ?s
          \<and> (s_state ?s = STREAM_ESTABLISHED \<or> s_state ?s = STREAM_FIN_WAIT)
      then (if session_streams_freed s1 \<or> s_state (stm s1 i) = STREAM_CLOSED then s1
        else if n > 0 then recv_buffer i (drop n payload) (mux_stream_check_ack i
          (upd_stm i (\<lambda>s. s\<lparr>s_bytes_received := s_bytes_received s + of_nat n\<rparr>) s1))
        else recv_buffer i payload s1)
      else recv_buffer i payload ss)"
    unfolding assms(2) mux_stream_recv_copy_def Let_def w prod.case no if_False ..
  have "s_state (stm s1 i) = STREAM_CLOSED" if "session_streams_freed s1"
    using freed_stm [OF that] by (simp add: dead_stream_def)
  then show thesis
    using r assms(3) buffer written [OF w] blocked [of s1] w by (simp split: if_splits)
qed

lemma recv_copy_written:
  assumes "rx_inv (stm ss i)" "i \<in> keys ss" "length payload \<le> stream_outstanding (stm ss i)"
    "stream_local_write i payload ss = (n, s1)" "bytebuf_readable (s_recvbuf (stm ss i)) = 0"
    "s_state (stm s1 i) \<noteq> STREAM_CLOSED" "fd = io_fd (s_io (stm ss i))"
  defines "s2 \<equiv> upd_stm i (\<lambda>s. s\<lparr>s_bytes_received := s_bytes_received s + of_nat n\<rparr>) s1"
  defines "a \<equiv> mux_stream_check_ack i s2"
  shows "rx_inv (stm a i)" "length (drop n payload) \<le> stream_outstanding (stm a i)" "i \<in> keys a"
    "delivered_bytes fd i a = delivered_bytes fd i ss @ take n payload" "s_io (stm a i) = s_io (stm ss i)"
    "s_bytes_received (stm a i) = s_bytes_received (stm ss i) + of_nat n" "n \<le> length payload"
proof -
  let ?s = "stm ss i"
  note b = local_write_bytes [OF assms(4) disjI2 [OF assms(6)]]
  show n: "n \<le> length payload"
    by (rule b(1))
  have e: "stm s1 i = ?s" "keys s1 = keys ss"
    using stm_links [OF b(2)] by simp_all
  have s2: "stm s2 i = ?s\<lparr>s_bytes_received := s_bytes_received ?s + of_nat n\<rparr>"
    using assms(2) e by (simp add: s2_def)
  have o: "stream_outstanding (stm s2 i) = stream_outstanding ?s - n"
    using receive_rx(1) [OF assms(1), of n] n assms(3) by (simp add: s2)
  have "rx_inv (stm s2 i)"
    using assms(1) unfolding rx_inv_def rx_ok_def o by (auto simp: s2)
  then show "rx_inv (stm a i)"
    unfolding a_def by (rule check_ack_rx)
  show "i \<in> keys a" "length (drop n payload) \<le> stream_outstanding (stm a i)"
    using o assms(2,3) e(2) by (simp_all add: a_def stream_outstanding_def s2_def)
  show ea: "s_io (stm a i) = s_io ?s" "s_bytes_received (stm a i) = s_bytes_received ?s + of_nat n"
    by (simp_all add: a_def s2)
  have rb: "s_recvbuf (stm a i) = s_recvbuf ?s"
    by (simp add: a_def s2)
  have "local_bytes fd a = local_bytes fd s1"
    by (rule local_bytes_out) (simp add: a_def s2_def)
  then show "delivered_bytes fd i a = delivered_bytes fd i ss @ take n payload"
    using b(4) assms(5,7) by (simp add: delivered_bytes_def rb bytebuf_read_ptr_def bytebuf_readable_def)
qed

text \<open>C20. A received payload is neither lost, duplicated nor reordered: unless the stream ends,
  what was delivered to the local socket followed by what is buffered grows by exactly the
  payload, whether it was written straight through, buffered, or split between the two; the
  receive side stays consistent, and the received count advances by the payload.\<close>

theorem mux_stream_recv_copy_delivers:
  assumes "rx_inv (stm ss i)" "r = mux_stream_recv_copy i payload ss" "s_state (stm r i) \<noteq> STREAM_CLOSED"
    "fd = io_fd (s_io (stm ss i))"
  shows "delivered_bytes fd i r = delivered_bytes fd i ss @ payload \<and> rx_inv (stm r i)
    \<and> s_bytes_received (stm r i) = s_bytes_received (stm ss i) + of_nat (length payload)"
proof -
  let ?s = "stm ss i"
  note c = recv_copy_credit [OF assms(3) [unfolded assms(2)]]
  have k: "i \<in> keys ss"
    using c(1) by (rule open_live)
  show ?thesis
    using assms(1-3)
  proof (cases rule: recv_copy_cases)
    case buffer
    then show ?thesis
      using recv_buffer_delivers [OF assms(1) c(2) k _ assms(3,4)] by blast
  next
    case (written n s1)
    define a where "a = mux_stream_check_ack i (upd_stm i (\<lambda>s. s\<lparr>s_bytes_received := s_bytes_received s + of_nat n\<rparr>) s1)"
    note a = recv_copy_written [OF assms(1) k c(2) written(1-3) assms(4), folded a_def]
    have l: "of_nat n + of_nat (length payload - n) = (of_nat (length payload) :: u32)"
      using a(7) by (simp flip: of_nat_add)
    from recv_buffer_delivers [OF a(1-3) written(4) [folded a_def] assms(3)] a(4) l show ?thesis
      using assms(4) by (simp add: a(5,6) add.assoc)
  next
    case (blocked s1)
    note b = local_write_bytes [OF blocked(1) disjI2 [OF blocked(2)]]
    have e: "stm s1 i = ?s" "keys s1 = keys ss"
      using stm_links [OF b(2)] by simp_all
    have "rx_inv (stm s1 i)" "length payload \<le> stream_outstanding (stm s1 i)" "i \<in> keys s1"
      using assms(1) c(2) k by (simp_all add: e)
    from recv_buffer_delivers [OF this blocked(3) assms(3)] show ?thesis
      using b(4) assms(4) by (simp add: e delivered_bytes_def)
  qed
qed

section \<open>Examples\<close>

text \<open>An established stream on a local socket that takes three bytes at a time, with a window of
  four units of which the peer holds one.\<close>

definition sample_rx :: mux_stream where
  "sample_rx = zero_stream\<lparr>s_id := 1, s_state := STREAM_ESTABLISHED, s_connected := True,
    s_io := zero_io\<lparr>io_fd := 9\<rparr>, s_recv_window := 65536, s_grant_sent := 16384,
    s_recvbuf := \<lparr>rb_off = 0, rb_len = 0, rb_cap = 4, rb_data = [0, 0, 0, 0]\<rparr>\<rparr>"

definition sample_rx_session :: mux_session where
  "sample_rx_session = sample_session\<lparr>ss_state := SESSION_ESTABLISHED, max_payload := 16384, stream_window := 4,
    os := sample_os\<lparr>os_send := (\<lambda>_. Send_ok 3)\<rparr>,
    sched := zero_sched\<lparr>streams := Some [(1, sample_rx)]\<rparr>\<rparr>"

lemma sample_rx_facts:
  "os_send (os sample_rx_session) n = Send_ok 3" "streams (sched sample_rx_session) = Some [(1, sample_rx)]"
  "stm sample_rx_session 1 = sample_rx" "keys sample_rx_session = {1}" "rx_inv sample_rx"
  by (simp_all add: sample_rx_session_def stm_def keys_def tab_def rx_inv_def rx_ok_def stream_outstanding_def
      sample_rx_def zero_stream_def bytebuf_inv_def bytebuf_readable_def SIZE_MAX_def SIZEOF_BYTEBUF_def)

theorem mux_stream_grant_inc_safe_witness:
  "mux_stream_grant_inc sample_rx_session sample_rx * MUX_WINDOW_UNIT + 16384 \<le> 65536
    \<and> 1 \<le> mux_stream_grant_inc sample_rx_session sample_rx"
proof -
  have "rx_ok sample_rx" "unat (s_buffered_bytes sample_rx) = 0" "unat (s_recv_window sample_rx) = 65536"
    "stream_outstanding sample_rx = 16384"
    using sample_rx_facts(5) by (simp_all add: rx_inv_def sample_rx_def zero_stream_def stream_outstanding_def)
  then show ?thesis
    using mux_stream_grant_inc_safe [of sample_rx sample_rx_session]
    by (simp add: rx_ok_def MUX_WINDOW_UNIT_def)
qed

definition sample_backlog :: mux_session where
  "sample_backlog = upd_stm 1 (\<lambda>s. s\<lparr>s_recvbuf := \<lparr>rb_off = 0, rb_len = 4, rb_cap = 4, rb_data = [1, 2, 3, 4]\<rparr>\<rparr>)
     sample_rx_session"

theorem stream_flush_local_terminates_witness:
  "bytebuf_readable (s_recvbuf (stm sample_backlog 1)) = 4
    \<and> flush_local_loop 9 1 False sample_backlog = flush_local_loop 4 1 False sample_backlog"
proof -
  have "bytebuf_readable (s_recvbuf (stm sample_backlog 1)) = 4"
    by (simp add: sample_backlog_def stm_upd_stm sample_rx_facts bytebuf_readable_def)
  then show ?thesis
    using stream_flush_local_terminates [of sample_backlog 1 9 False] by simp
qed

theorem mux_stream_recv_copy_delivers_witness:
  "let r = mux_stream_recv_copy 1 [1, 2, 3, 4, 5] sample_rx_session
   in delivered_bytes 9 1 r = [1, 2, 3, 4, 5] \<and> rx_inv (stm r 1)"
proof -
  define r where "r = mux_stream_recv_copy 1 [1, 2, 3, 4, 5] sample_rx_session"
  have "s_state (stm r 1) \<noteq> STREAM_CLOSED"
    unfolding r_def
    by (simp add: mux_stream_recv_copy_def sample_rx_facts Let_def stream_local_write_def local_write_loop.simps
        socket_send_def session_streams_freed_def recv_buffer_def stm_upd_stm)
      (simp add: sample_rx_def zero_stream_def bytebuf_readable_def)
  moreover have "out sample_rx_session = []"
    by (simp add: sample_rx_session_def sample_session_def zero_session_def)
  then have "io_fd (s_io sample_rx) = 9" "delivered_bytes 9 1 sample_rx_session = []"
    by (simp_all add: delivered_bytes_def sample_rx_facts local_bytes_def)
      (simp_all add: sample_rx_def bytebuf_read_ptr_def)
  ultimately show ?thesis
    using mux_stream_recv_copy_delivers [of sample_rx_session 1 r "[1, 2, 3, 4, 5]" 9] r_def
    by (simp add: sample_rx_facts)
qed

end
