(* ===== verification/Sched.thy ===== *)
theory Sched
  imports Stream_Flow
begin

text \<open>
  The scheduler (\<^verbatim>\<open>mux/sched.c\<close>): deficit round robin over the streams with data,
  the lifecycle queue that sends \<open>SYN\<close>s and frees closed streams, the pending control
  flags, and the coalescing timer; with \<^verbatim>\<open>mux_session_send_push\<close>
  (\<^verbatim>\<open>mux/send.c\<close>), which turns a dequeued payload into a wire frame.
\<close>

section \<open>Sending one data frame\<close>

definition mux_session_send_push :: "u16 \<Rightarrow> mux_frame \<Rightarrow> mux_session \<Rightarrow> mux_session" where
  "mux_session_send_push i frame ss =
    (let s = stm ss i;
         payload_len = f_len frame - MUX_FRAME_HEADER_SIZE;
         send_syn = (s_state s = STREAM_INIT);
         raw_inc = mux_stream_grant_inc ss s;
         flags = (if send_syn then MUX_FLAG_PUSH OR MUX_FLAG_SYN
                  else if (s_state s = STREAM_ESTABLISHED \<or> s_state s = STREAM_CLOSE_WAIT) \<and> raw_inc > 0
                  then MUX_FLAG_PUSH OR MUX_FLAG_ACK else MUX_FLAG_PUSH);
         want_fin = (\<not> send_syn \<and> stream_fin_pending s);
         flags = (if want_fin then flags OR MUX_FLAG_FIN else flags);
         hdr = \<lparr>h_version = MUX_PROTOCOL_VERSION, h_flags = flags, h_length = of_nat payload_len,
                h_stream_id = s_id s, h_extra = of_nat raw_inc\<rparr>;
         frame = frame\<lparr>f_data := mux_write_header (f_data frame) hdr, f_cursor := 0\<rparr>;
         ss = mux_wire_sendbuf_push frame ss;
         ss = (if payload_len > 0
               then counter_add byt_push_sent payload_len
                      (upd_stm i (\<lambda>s. s\<lparr>s_bytes_sent := s_bytes_sent s + of_nat payload_len,
                         s_unacked_bytes := s_unacked_bytes s + of_nat payload_len\<rparr>) ss)
               else ss);
         ss = upd_stm i (\<lambda>s. s\<lparr>s_grant_sent := s_grant_sent s + of_nat (raw_inc * MUX_WINDOW_UNIT),
                s_ack_pending := (if has_flag flags MUX_FLAG_ACK then False else s_ack_pending s)\<rparr>) ss;
         ss = (if s_delay_pending (stm ss i) then on_stm i mux_sched_delay_remove ss else ss)
     in if want_fin then mux_stream_mark_fin_sent i ss else ss)"

section \<open>The lifecycle queue\<close>

definition sched_send_syn :: "u16 \<Rightarrow> mux_session \<Rightarrow> mux_session" where
  "sched_send_syn i ss =
    (case mux_stream_dequeue_send i ss of
       (Some frame, ss) \<Rightarrow>
         mux_stream_mark_syn_sent i (counter_add num_stream_fastopen 1 (mux_session_send_push i frame ss))
     | (None, ss) \<Rightarrow>
         (let inc = mux_stream_grant_inc ss (stm ss i);
              (ok, ss) = mux_session_send_ctrl i MUX_FLAG_SYN inc ss
          in if \<not> ok then ss
             else mux_stream_mark_syn_sent i
                    (upd_stm i (\<lambda>s. s\<lparr>s_grant_sent := s_grant_sent s + of_nat (inc * MUX_WINDOW_UNIT)\<rparr>) ss)))"

text \<open>Unlink the head of the lifecycle queue.\<close>

definition lp_pop :: "u16 \<Rightarrow> mux_session \<Rightarrow> mux_session" where
  "lp_pop i ss = upd_stm i (\<lambda>s. s\<lparr>s_sched_queue := SCHED_QUEUE_NONE\<rparr>)
    (ss\<lparr>sched := (sched ss)\<lparr>lp_fifo := tl (lp_fifo (sched ss))\<rparr>\<rparr>)"

text \<open>A partly written frame heads the send queue.\<close>

definition head_in_flight :: "mux_session \<Rightarrow> bool" where
  "head_in_flight ss = (case sendbuf (wire ss) of [] \<Rightarrow> False | f # _ \<Rightarrow> f_pos f > 0)"

text \<open>The loop of \<^verbatim>\<open>mux_sched_drain_lp\<close>.  Every round takes one stream off the queue, and a
  stream comes back at most once: closed, after its \<open>SYN\<close> could not be sent.\<close>

fun drain_lp_loop :: "nat \<Rightarrow> mux_session \<Rightarrow> mux_session" where
  "drain_lp_loop fuel ss =
    (case (fuel, lp_fifo (sched ss)) of
       (0, _) \<Rightarrow> ss
     | (_, []) \<Rightarrow> ss
     | (Suc fuel, i # _) \<Rightarrow>
         (if s_state (stm ss i) = STREAM_INIT \<and> head_in_flight ss then ss
          else let ss = lp_pop i ss; s = stm ss i in
          if s_state s = STREAM_CLOSED
          then drain_lp_loop fuel
                 (if mux_stream_app_held s then ss else mux_stream_free (sched_remove_stream i ss, s))
          else if s_state s = STREAM_INIT
          then let ss = sched_send_syn i ss;
                   ss = (if s_state (stm ss i) = STREAM_INIT then mux_stream_abort_unopened i ss else ss)
               in if sendbuf (wire ss) \<noteq> [] \<and> \<not> sendbuf_staging (wire ss) then ss
                  else drain_lp_loop fuel ss
          else drain_lp_loop fuel ss))"

declare drain_lp_loop.simps [simp del]

definition mux_sched_drain_lp :: "mux_session \<Rightarrow> mux_session" where
  "mux_sched_drain_lp ss =
    (if ss_state ss \<noteq> SESSION_ESTABLISHED then ss
     else let ss = drain_lp_loop (2 * length (lp_fifo (sched ss))) ss
          in if sched_fifo (sched ss) \<noteq> [] then set_tx_pending ss else ss)"

section \<open>Pending control flags\<close>

definition sched_send_ctrl_flags :: "u16 \<Rightarrow> mux_session \<Rightarrow> mux_session" where
  "sched_send_ctrl_flags i ss =
    (let s = stm ss i;
         has_ack_pending = (s_state s \<noteq> STREAM_INIT \<and> s_state s \<noteq> STREAM_SYN_SENT
           \<and> s_state s \<noteq> STREAM_SYN_RECEIVED \<and> s_ack_pending s);
         has_fin_pending = stream_fin_pending s in
     if \<not> has_ack_pending \<and> \<not> has_fin_pending then ss
     else let inc = (if has_ack_pending then mux_stream_grant_inc ss s else 0);
              flags = (if has_ack_pending \<and> inc > 0 then MUX_FLAG_ACK else 0);
              flags = (if has_fin_pending then flags OR MUX_FLAG_FIN else flags) in
     if flags = 0 then upd_stm i (\<lambda>s. s\<lparr>s_ack_pending := False\<rparr>) ss
     else let (ok, ss) = mux_session_send_ctrl i flags inc ss in
     if \<not> ok then mux_sched_delay i 1 ss
     else let ss = (if has_flag flags MUX_FLAG_ACK
                    then let ss = upd_stm i (\<lambda>s. s\<lparr>s_grant_sent := s_grant_sent s + of_nat (inc * MUX_WINDOW_UNIT),
                               s_ack_pending := False\<rparr>) ss
                         in if s_send_queue (stm ss i) = [] \<and> s_delay_pending (stm ss i)
                            then on_stm i mux_sched_delay_remove ss else ss
                    else ss)
          in if has_flag flags MUX_FLAG_FIN then mux_stream_mark_fin_sent i ss else ss)"

section \<open>Deficit round robin\<close>

definition set_drr_active :: "u16 option \<Rightarrow> mux_session \<Rightarrow> mux_session" where
  "set_drr_active a ss = ss\<lparr>sched := (sched ss)\<lparr>drr_active := a\<rparr>\<rparr>"

definition sched_drr_continue :: "u16 \<Rightarrow> mux_session \<Rightarrow> mux_session" where
  "sched_drr_continue i ss =
    (case s_send_queue (stm ss i) of
       [] \<Rightarrow> upd_stm i (\<lambda>s. s\<lparr>s_deficit := 0\<rparr>) (set_drr_active None ss)
     | head # _ \<Rightarrow>
         (if sched_fifo (sched ss) = [] then set_drr_active (Some i) ss
          else let next_payload = f_len head - MUX_FRAME_HEADER_SIZE in
          if next_payload > 0 \<and> s_deficit (stm ss i) \<ge> of_nat next_payload then set_drr_active (Some i) ss
          else mux_sched_wake (set_drr_active None ss) i))"

text \<open>Nothing on the way to a frame adds to the ready queue or takes the round budget: the
  loop below ends because every round dequeues a stream or gives the budget up.\<close>

definition shrinks :: "mux_session \<Rightarrow> mux_session \<Rightarrow> bool" where
  "shrinks ss ss' \<longleftrightarrow> length (sched_fifo (sched ss')) \<le> length (sched_fifo (sched ss))
    \<and> (drr_active (sched ss) = None \<longrightarrow> drr_active (sched ss') = None)"

lemma shrinks_refl [simp]: "shrinks ss ss"
  by (simp add: shrinks_def)

lemma shrinks_trans: "shrinks a b \<Longrightarrow> shrinks b c \<Longrightarrow> shrinks a c"
  by (auto simp: shrinks_def)

lemma shrinks_links: "links ss' = links ss \<Longrightarrow> shrinks ss ss'"
  by (simp add: shrinks_def links_def sc_links_def)

lemma shrinks_upd [simp]: "shrinks ss (upd_stm i f ss)"
  by (simp add: shrinks_def upd_stm_def)

lemma shrinks_put: "shrinks ss a \<Longrightarrow> shrinks ss (put_stm i s a)"
  by (simp add: shrinks_def)

lemma shrinks_ended: "ended ss ss' \<Longrightarrow> shrinks ss ss'"
  by (auto simp: ended_def shrinks_def links_def sc_links_def)

lemma shrinks_delay: "shrinks ss (mux_sched_delay i n ss)"
  by (simp add: shrinks_def mux_sched_delay_def mux_sched_coalesce_arm_def upd_stm_def Let_def)

lemma shrinks_delay_remove: "shrinks ss (on_stm i mux_sched_delay_remove ss)"
  by (simp add: shrinks_def on_stm_eq mux_sched_delay_remove_def)

lemma shrinks_set_state: "shrinks ss (on_stm i (stream_set_state st) ss)"
  by (simp add: on_stm_eq shrinks_put shrinks_links)

lemma shrinks_stop: "shrinks ss (on_stm i stream_stop ss)"
  by (simp add: shrinks_def on_stm_eq stream_stop_def mux_sched_delay_remove_def Let_def)

lemma shrinks_mark_closed:
  assumes "s_state (stm ss i) \<noteq> STREAM_INIT"
  shows "shrinks ss (stream_mark_closed i ss)"
proof -
  define a where "a = on_stm i stream_release_buffers (on_stm i stream_stop ss)"
  have "shrinks (on_stm i stream_stop ss) a"
    by (simp add: a_def on_stm_eq [of i stream_release_buffers] shrinks_put shrinks_links)
  then have a: "shrinks ss a"
    by (rule shrinks_trans [OF shrinks_stop])
  have "shrinks a (mark_closed_stream i ss)"
    unfolding mark_closed_stream_def a_def [symmetric]
    by (simp add: Let_def on_stm_eq shrinks_def close_stream_fd_def upd_stm_def)
  then have "shrinks ss (mark_closed_stream i ss)"
    using a shrinks_trans by blast
  moreover have "shrinks (mark_closed_stream i ss) (stream_mark_closed i ss)"
    unfolding stream_mark_closed_eq Let_def using assms
    by (simp only: if_True not_False_eq_True)
      (rule shrinks_trans [OF _ shrinks_ended [OF check_no_active_ended]], simp add: shrinks_def upd_stm_def)
  ultimately show ?thesis
    by (rule shrinks_trans)
qed

lemma shrinks_do_close:
  assumes "s_state (stm ss i) \<noteq> STREAM_INIT"
  shows "shrinks ss (mux_stream_do_close i ss)"
proof -
  define a where "a = (if bytebuf_readable (s_recvbuf (stm ss i)) > 0
                    then let ss = stream_reset_unread i ss
                         in if \<not> s_is_direct (stm ss i) then stream_rst_notify_socket (ss, stm ss i) else ss
                    else ss)"
  have "shrinks ss (stream_drop_recvbuf i ss)"
    by (simp add: stream_drop_recvbuf_def Let_def shrinks_def upd_stm_def)
  then have "shrinks ss (mux_session_discard_stream_frames i (stream_drop_recvbuf i ss))"
    using shrinks_trans shrinks_links by (metis discard_links)
  then have r: "shrinks ss (stream_reset_unread i ss)"
    using shrinks_trans [OF _ shrinks_trans [OF shrinks_links [OF send_ctrl_links] shrinks_upd]]
    by (simp add: stream_reset_unread_def Let_def case_prod_beta)
  have a: "shrinks ss a" "tame ss a"
    using r shrinks_trans [OF r shrinks_links] tame_trans [OF tame_reset_unread tame_links]
    by (simp_all add: a_def Let_def tame_reset_unread)
  have t: "tame ss (upd_stm i stream_detach_user a)"
    by (rule tame_trans [OF a(2) tame_upd]) simp
  have "shrinks ss (stream_mark_closed i (upd_stm i stream_detach_user a))"
    using assms by (intro shrinks_trans [OF shrinks_trans [OF a(1) shrinks_upd] shrinks_mark_closed])
      (simp add: tameD(3) [OF t])
  then show ?thesis
    by (simp add: mux_stream_do_close_def a_def)
qed

lemma shrinks_finish_drained: "shrinks ss (snd (stream_finish_drained_write i ss))"
proof -
  define a where "a = (if \<not> s_tx_shutdown (stm ss i) then on_stm i stream_shutdown_local_write ss else ss)"
  have "shrinks ss a"
    by (simp add: a_def on_stm_eq stream_shutdown_local_write_def shrinks_put shrinks_links)
  then show ?thesis
    using shrinks_trans [OF _ shrinks_mark_closed, of ss a i]
    by (simp add: stream_finish_drained_write_def a_def [symmetric] Let_def)
qed

lemma shrinks_mark_fin_sent: "shrinks ss (mux_stream_mark_fin_sent i ss)"
proof -
  have "s_state (stm (on_stm i (stream_set_state STREAM_CLOSING) ss) i) \<noteq> STREAM_INIT"
    if "s_state (stm ss i) = STREAM_CLOSE_WAIT"
    using that open_live [of ss i] by (simp add: on_stm_eq)
  then show ?thesis
    using shrinks_set_state shrinks_trans [OF shrinks_set_state shrinks_finish_drained]
      shrinks_trans [OF shrinks_set_state shrinks_do_close]
    by (simp add: mux_stream_mark_fin_sent_def Let_def split: stream_state.split)
qed

text \<open>What follows a control frame that could be sent.\<close>

definition ctrl_flags_sent :: "u16 \<Rightarrow> u8 \<Rightarrow> nat \<Rightarrow> mux_session \<Rightarrow> mux_session" where
  "ctrl_flags_sent i flags inc ss =
    (let ss = (if has_flag flags MUX_FLAG_ACK
               then let ss = upd_stm i (\<lambda>s. s\<lparr>s_grant_sent := s_grant_sent s + of_nat (inc * MUX_WINDOW_UNIT),
                          s_ack_pending := False\<rparr>) ss
                    in if s_send_queue (stm ss i) = [] \<and> s_delay_pending (stm ss i)
                       then on_stm i mux_sched_delay_remove ss else ss
               else ss)
     in if has_flag flags MUX_FLAG_FIN then mux_stream_mark_fin_sent i ss else ss)"

lemma ctrl_flags_cases:
  obtains "sched_send_ctrl_flags i ss = ss"
    | "sched_send_ctrl_flags i ss = upd_stm i (\<lambda>s. s\<lparr>s_ack_pending := False\<rparr>) ss"
    | f x where "sched_send_ctrl_flags i ss = mux_sched_delay i 1 (snd (mux_session_send_ctrl i f x ss))"
        "s_ack_pending (stm ss i) \<or> s_state (stm ss i) \<noteq> STREAM_CLOSED"
    | f x where "sched_send_ctrl_flags i ss = ctrl_flags_sent i f x (snd (mux_session_send_ctrl i f x ss))"
        "x = 0 \<or> x = mux_stream_grant_inc ss (stm ss i)"
proof -
  define s where "s = stm ss i"
  define ack where "ack = (s_state s \<noteq> STREAM_INIT \<and> s_state s \<noteq> STREAM_SYN_SENT
           \<and> s_state s \<noteq> STREAM_SYN_RECEIVED \<and> s_ack_pending s)"
  define x where "x = (if ack then mux_stream_grant_inc ss s else 0)"
  define f where "f = (if stream_fin_pending s then (if ack \<and> x > 0 then MUX_FLAG_ACK else 0) OR MUX_FLAG_FIN
    else if ack \<and> x > 0 then MUX_FLAG_ACK else 0)"
  have e: "sched_send_ctrl_flags i ss = (if \<not> ack \<and> \<not> stream_fin_pending s then ss
      else if f = 0 then upd_stm i (\<lambda>s. s\<lparr>s_ack_pending := False\<rparr>) ss
      else if \<not> fst (mux_session_send_ctrl i f x ss) then mux_sched_delay i 1 (snd (mux_session_send_ctrl i f x ss))
      else ctrl_flags_sent i f x (snd (mux_session_send_ctrl i f x ss)))"
    unfolding sched_send_ctrl_flags_def ctrl_flags_sent_def Let_def case_prod_beta
    unfolding s_def [symmetric] ack_def [symmetric] x_def [symmetric] f_def [symmetric] ..
  have live: "s_ack_pending (stm ss i) \<or> s_state (stm ss i) \<noteq> STREAM_CLOSED" if "ack \<or> stream_fin_pending s"
    using that by (auto simp: ack_def stream_fin_pending_def s_def)
  have x: "x = 0 \<or> x = mux_stream_grant_inc ss (stm ss i)"
    by (simp add: x_def s_def)
  consider "\<not> ack \<and> \<not> stream_fin_pending s" | "ack \<or> stream_fin_pending s" "f = 0"
    | "ack \<or> stream_fin_pending s" "f \<noteq> 0" "\<not> fst (mux_session_send_ctrl i f x ss)"
    | "ack \<or> stream_fin_pending s" "f \<noteq> 0" "fst (mux_session_send_ctrl i f x ss)"
    by blast
  then show thesis
  proof cases
    case 1
    show thesis
      by (rule that(1)) (use 1  e in auto)
  next
    case 2
    show thesis
      by (rule that(2)) (use 2  e in auto)
  next
    case 3
    show thesis
      by (rule that(3) [of f x]) (use 3 live e in auto)
  next
    case 4
    show thesis
      by (rule that(4) [of f x]) (use 4 x e in auto)
  qed
qed

lemma shrinks_ctrl_flags: "shrinks ss (sched_send_ctrl_flags i ss)"
proof -
  have c: "shrinks ss (snd (mux_session_send_ctrl i f x ss))" for f x
    by (rule shrinks_links) simp
  have s: "shrinks a (ctrl_flags_sent i f x a)" for a f x
  proof -
    define b where "b = upd_stm i (\<lambda>s. s\<lparr>s_grant_sent := s_grant_sent s + of_nat (x * MUX_WINDOW_UNIT),
                          s_ack_pending := False\<rparr>) a"
    have "shrinks a b"
      by (simp add: b_def)
    then have "shrinks a (if has_flag f MUX_FLAG_ACK then (if s_send_queue (stm b i) = [] \<and> s_delay_pending (stm b i)
        then on_stm i mux_sched_delay_remove b else b) else a)"
      using shrinks_trans [OF _ shrinks_delay_remove, of a b i] by simp
    then show ?thesis
      unfolding ctrl_flags_sent_def Let_def b_def [symmetric] using shrinks_trans [OF _ shrinks_mark_fin_sent] by simp
  qed
  show ?thesis
    by (rule ctrl_flags_cases [of i ss])
      (use shrinks_upd shrinks_trans [OF c shrinks_delay] shrinks_trans [OF c s] in simp_all)
qed

text \<open>What the loop does once a stream has given it a frame.\<close>

definition next_data_staged :: "u16 \<Rightarrow> bool \<Rightarrow> mux_frame \<Rightarrow> mux_session \<Rightarrow> mux_session" where
  "next_data_staged i fresh_dequeue frame ss =
    (let payload = f_len frame - MUX_FRAME_HEADER_SIZE;
         ss = (if fresh_dequeue \<or> s_deficit (stm ss i) < of_nat payload
               then upd_stm i (\<lambda>s. s\<lparr>s_deficit := s_deficit s + max_payload ss\<rparr>) ss else ss);
         ss = mux_session_send_push i frame ss
     in if ss_state ss \<noteq> SESSION_ESTABLISHED then ss
        else let ss = upd_stm i (\<lambda>s. mux_stream_notify_recv (s\<lparr>s_deficit := s_deficit s - of_nat payload\<rparr>)) ss
             in sched_send_ctrl_flags i (sched_drr_continue i ss))"

lemma sched_dequeue_measure:
  assumes "sched_dequeue ss = (Some i, ss')"
  shows "length (sched_fifo (sched ss')) < length (sched_fifo (sched ss))" "drr_active (sched ss') = drr_active (sched ss)"
  using assms by (auto simp: sched_dequeue_def upd_stm_def split: list.splits)

lemma shrinks_dequeue_send: "mux_stream_dequeue_send i ss = (r, ss') \<Longrightarrow> shrinks ss ss'"
  using shrinks_trans [OF shrinks_upd shrinks_delay]
  by (auto simp: mux_stream_dequeue_send_def Let_def shrinks_def upd_stm_def counter_sub_def
      split: if_splits list.splits)

function mux_sched_next_data :: "mux_session \<Rightarrow> bool \<times> mux_session" where
  "mux_sched_next_data ss =
    (let fresh_dequeue = (drr_active (sched ss) = None) in
     case (case drr_active (sched ss) of None \<Rightarrow> sched_dequeue ss | Some i \<Rightarrow> (Some i, ss)) of
       (None, ss) \<Rightarrow> (False, ss)
     | (Some i, ss) \<Rightarrow>
         (if s_state (stm ss i) = STREAM_CLOSED
          then let ss = set_drr_active None ss;
                   ss = (if \<not> t_active (s_tombstone (stm ss i)) then mux_sched_schedule (sched_lp_enqueue i ss) else ss)
               in mux_sched_next_data ss
          else if s_state (stm ss i) = STREAM_INIT
          then mux_sched_next_data (mux_sched_schedule (sched_lp_enqueue i (set_drr_active None ss)))
          else if s_state (stm ss i) = STREAM_SYN_SENT
          then mux_sched_next_data (set_drr_active None ss)
          else case mux_stream_dequeue_send i ss of
                 (Some frame, ss) \<Rightarrow> (True, next_data_staged i fresh_dequeue frame ss)
               | (None, ss) \<Rightarrow> mux_sched_next_data
                   (sched_send_ctrl_flags i (upd_stm i (\<lambda>s. s\<lparr>s_deficit := 0\<rparr>) (set_drr_active None ss)))))"
  by pat_completeness auto

text \<open>A round ends without the round budget, and took a stream off the queue unless it
  started with the budget.\<close>

lemma next_data_round:
  assumes "(Some i, ss1) = (case drr_active (sched ss) of None \<Rightarrow> sched_dequeue ss | Some i \<Rightarrow> (Some i, ss))"
    "length (sched_fifo (sched ss2)) \<le> length (sched_fifo (sched ss1))" "drr_active (sched ss2) = None"
  shows "(ss2, ss) \<in> measure (\<lambda>ss. 2 * length (sched_fifo (sched ss)) + of_bool (drr_active (sched ss) \<noteq> None))"
  using assms sched_dequeue_measure(1) [of ss i ss1] by (cases "drr_active (sched ss)") auto

lemma lp_enqueue_measure [simp]:
  "sched_fifo (sched (mux_sched_schedule ss)) = sched_fifo (sched ss)"
  "drr_active (sched (mux_sched_schedule ss)) = drr_active (sched ss)"
  "sched_fifo (sched (sched_lp_enqueue i ss)) = sched_fifo (sched ss)"
  "drr_active (sched (sched_lp_enqueue i ss)) = drr_active (sched ss)"
  "sched_fifo (sched (set_drr_active a ss)) = sched_fifo (sched ss)"
  "drr_active (sched (set_drr_active a ss)) = a"
  by (simp_all add: mux_sched_schedule_def sched_lp_enqueue_def upd_stm_def set_drr_active_def Let_def)

lemma ctrl_flags_measure:
  assumes "(r, ss') = mux_stream_dequeue_send i ss"
  shows "length (sched_fifo (sched (sched_send_ctrl_flags i (upd_stm i f (set_drr_active None ss'))))) \<le> length (sched_fifo (sched ss))"
    "drr_active (sched (sched_send_ctrl_flags i (upd_stm i f (set_drr_active None ss')))) = None"
  using shrinks_dequeue_send [OF assms [symmetric]] shrinks_ctrl_flags [of "upd_stm i f (set_drr_active None ss')" i]
  by (auto simp: shrinks_def upd_stm_def)

termination mux_sched_next_data
  by (relation "measure (\<lambda>ss. 2 * length (sched_fifo (sched ss)) + of_bool (drr_active (sched ss) \<noteq> None))")
    (simp, (rule next_data_round, force, force simp: ctrl_flags_measure, force simp: ctrl_flags_measure)+)

declare mux_sched_next_data.simps [simp del]

section \<open>Flushing control flags\<close>

text \<open>The walk along the ready queue; nothing it calls links or unlinks a stream of the queue,
  except by taking the whole queue down.\<close>

fun flush_ctrl_loop :: "u16 list \<Rightarrow> mux_session \<Rightarrow> mux_session" where
  "flush_ctrl_loop [] ss = ss"
| "flush_ctrl_loop (i # q) ss =
    (if s_state (stm ss i) \<noteq> STREAM_CLOSED
     then let ss = sched_send_ctrl_flags i ss
          in if ss_state ss \<noteq> SESSION_ESTABLISHED then ss else flush_ctrl_loop q ss
     else flush_ctrl_loop q ss)"

definition mux_sched_flush_ctrl :: "mux_session \<Rightarrow> mux_session" where
  "mux_sched_flush_ctrl ss =
    (let ss = (case drr_active (sched ss) of
                 None \<Rightarrow> ss
               | Some i \<Rightarrow> if s_state (stm ss i) \<noteq> STREAM_CLOSED then sched_send_ctrl_flags i ss else ss)
     in flush_ctrl_loop (sched_fifo (sched ss)) ss)"

section \<open>The coalescing timer\<close>

definition MUX_SESSION_ACK_MAX_TICKS :: u8 where "MUX_SESSION_ACK_MAX_TICKS = 2"
definition MUX_COALESCING_INTERVAL :: rat where "MUX_COALESCING_INTERVAL = 1 / 25"

text \<open>The walk along the coalescing list; waking a stream does not change the list.\<close>

fun coalesce_loop :: "u16 list \<Rightarrow> mux_session \<Rightarrow> mux_session" where
  "coalesce_loop [] ss = ss"
| "coalesce_loop (i # q) ss =
    (if s_delay_ticks (stm ss i) > 1
     then coalesce_loop q (upd_stm i (\<lambda>s. s\<lparr>s_delay_ticks := s_delay_ticks s - 1\<rparr>) ss)
     else let has_grant = (stream_grantable_bytes (stm ss i) \<ge> MUX_WINDOW_UNIT);
              ss = on_stm i mux_sched_delay_remove ss;
              ss = upd_stm i (\<lambda>s. s\<lparr>s_nagle_flush := True, s_ack_pending := s_ack_pending s \<or> has_grant\<rparr>) ss
          in coalesce_loop q (mux_sched_wake ss i))"

definition sched_coalesce_cb :: "mux_session \<Rightarrow> mux_session" where
  "sched_coalesce_cb ss =
    (let ss = coalesce_loop (delay_list (sched ss)) ss;
         ss = (if ss_state ss = SESSION_ESTABLISHED \<and> unreported (unacked ss) > 0
               then let ss = ss\<lparr>unacked := (unacked ss)\<lparr>ack_ticks := ack_ticks (unacked ss) + 1\<rparr>\<rparr>
                    in if ack_ticks (unacked ss) \<ge> MUX_SESSION_ACK_MAX_TICKS then mux_session_emit_ack ss else ss
               else ss\<lparr>unacked := (unacked ss)\<lparr>ack_ticks := 0\<rparr>\<rparr>)
     in if delay_list (sched ss) = [] \<and> (ss_state ss \<noteq> SESSION_ESTABLISHED \<or> unreported (unacked ss) = 0)
        then ss\<lparr>sched := (sched ss)\<lparr>w_coalesce := ev_timer_stop (w_coalesce (sched ss))\<rparr>\<rparr> else ss)"

definition mux_sched_init :: "mux_session \<Rightarrow> mux_session" where
  "mux_sched_init ss =
    ss\<lparr>sched := (sched ss)\<lparr>w_coalesce := \<lparr>t_active = False, t_at = 0, t_repeat = fl MUX_COALESCING_INTERVAL\<rparr>\<rparr>\<rparr>"

end
