(* ===== verification/Sched_Inv.thy ===== *)
theory Sched_Inv
  imports Sched
begin

text \<open>
  What the scheduler keeps: every operation of \<^verbatim>\<open>mux/sched.c\<close> leaves the links of the
  queues intact and moves every stream along its state machine only.
\<close>

section \<open>Links\<close>

lemma good_if_inv: "(sched_inv ss \<Longrightarrow> good A c ss ss') \<Longrightarrow> good A c ss ss'"
  by (auto simp: good_def)

lemma tame_if_inv: "(sched_inv ss \<Longrightarrow> tame ss ss') \<Longrightarrow> keys ss' = keys ss \<Longrightarrow>
    down ss' = down ss \<Longrightarrow> (\<And>j. s_state (stm ss' j) = s_state (stm ss j)) \<Longrightarrow> tame ss ss'"
  by (auto simp: tame_def)

lemma set_drr_stm [simp]:
  "stm (set_drr_active a ss) i = stm ss i" "keys (set_drr_active a ss) = keys ss" "tab (set_drr_active a ss) = tab ss"
  "down (set_drr_active a ss) = down ss"
  by (simp_all add: set_drr_active_def tab_def stm_def keys_def session_streams_freed_def)

lemma set_drr_none_tame [simp]: "tame ss (set_drr_active None ss)"
  by (rule tame_if_inv)
    (auto simp: tame_def sched_inv_def linked_def set_drr_active_def tab_def stm_def keys_def)

lemma set_drr_some_tame:
  assumes "s_sched_queue (stm ss i) = SCHED_QUEUE_NONE" "s_state (stm ss i) \<noteq> STREAM_CLOSED"
  shows "tame ss (set_drr_active (Some i) ss)"
proof (rule tame_if_inv)
  assume inv: "sched_inv ss"
  have "linked (sched (set_drr_active (Some i) ss)) j (stm ss j)" for j
    using sched_invD(5) [OF inv, of j] assms by (cases "j = i") (simp_all add: linked_def set_drr_active_def)
  then have "sched_inv (set_drr_active (Some i) ss)"
    using inv by (simp add: sched_inv_def) (simp add: set_drr_active_def)
  then show "tame ss (set_drr_active (Some i) ss)"
    by (simp add: tame_def)
qed simp_all

lemma delay_remove_eq:
  "on_stm i mux_sched_delay_remove ss = (put_stm i ((stm ss i)\<lparr>s_delay_pending := False, s_delay_ticks := 0\<rparr>) ss)
    \<lparr>sched := (sched (put_stm i ((stm ss i)\<lparr>s_delay_pending := False, s_delay_ticks := 0\<rparr>) ss))
      \<lparr>delay_list := remove1 (s_id (stm ss i)) (delay_list (sched ss))\<rparr>\<rparr>"
  by (simp add: on_stm_eq mux_sched_delay_remove_def put_stm_def)

lemma delay_remove_keys [simp]:
  "keys (on_stm i mux_sched_delay_remove ss) = keys ss" "down (on_stm i mux_sched_delay_remove ss) = down ss"
  by (simp_all add: delay_remove_eq)

lemma delay_remove_stm [simp]:
  "stm (on_stm i mux_sched_delay_remove ss) j
    = (if j = i \<and> i \<in> keys ss then (stm ss i)\<lparr>s_delay_pending := False, s_delay_ticks := 0\<rparr> else stm ss j)"
  by (simp add: delay_remove_eq stm_put_stm)

lemma delay_remove_tame:
  assumes "s_delay_pending (stm ss i)"
  shows "tame ss (on_stm i mux_sched_delay_remove ss)"
proof (rule tame_if_inv)
  assume inv: "sched_inv ss"
  have k: "i \<in> keys ss"
    using assms by (rule_tac ccontr) (simp add: stm_missing dead_stream_def zero_stream_def)
  note d = sched_invD [OF inv] and d5 = sched_invD(5-7) [OF inv, of i]
  have "sched_inv (on_stm i mux_sched_delay_remove ss)"
    unfolding delay_remove_eq
    by (rule sched_inv_relink [OF inv k, of _ "(stm ss i)\<lparr>s_delay_pending := False, s_delay_ticks := 0\<rparr>"])
      (use d(2-4) d5 k in \<open>auto simp: tab_put_stm linked_def\<close>)
  then show "tame ss (on_stm i mux_sched_delay_remove ss)"
    by (simp add: tame_def)
qed simp_all

lemma lp_enqueue_tame:
  assumes "s_state (stm ss i) = STREAM_INIT \<or> is_closed (stm ss i)" "i \<in> keys ss"
  shows "tame ss (mux_sched_schedule (sched_lp_enqueue i ss))"
proof (rule tame_trans [OF _ tame_links])
  show "tame ss (sched_lp_enqueue i ss)"
    using sched_lp_enqueue_inv [OF _ assms(2,1)]
    by (auto simp: tame_def) (simp add: sched_lp_enqueue_eq stm_put_stm)
qed simp

lemma lp_pop_tame:
  assumes "sched_inv ss" "lp_fifo (sched ss) = i # q"
  shows "tame ss (lp_pop i ss)" "i \<in> keys ss" "stm (lp_pop i ss) i = (stm ss i)\<lparr>s_sched_queue := SCHED_QUEUE_NONE\<rparr>"
    "\<not> is_tomb (stm ss i)"
proof -
  define s where "s = (stm ss i)\<lparr>s_sched_queue := SCHED_QUEUE_NONE\<rparr>"
  show k: "i \<in> keys ss"
    using sched_inv_live [OF assms(1)] assms(2) by simp
  have e: "lp_pop i ss = put_stm i s (ss\<lparr>sched := (sched ss)\<lparr>lp_fifo := q\<rparr>\<rparr>)"
    using assms(2) by (simp add: lp_pop_def upd_stm_def s_def)
  note d = sched_invD [OF assms(1)] and d5 = sched_invD(5) [OF assms(1), of i]
  have "sched_inv (lp_pop i ss)"
    unfolding e
    by (rule sched_inv_relink [OF assms(1) k, of _ s])
      (use d(2-4) d5 assms(2) in \<open>auto simp: tab_put_stm s_def linked_def\<close>)
  then show "tame ss (lp_pop i ss)"
    by (simp add: tame_def e stm_put_stm) (simp add: s_def)
  show "stm (lp_pop i ss) i = (stm ss i)\<lparr>s_sched_queue := SCHED_QUEUE_NONE\<rparr>"
    using k by (simp add: e s_def)
  show "\<not> is_tomb (stm ss i)"
    using d5 assms(2) by (simp add: linked_def)
qed

lemma dead_stream_closed [simp]: "s_state dead_stream = STREAM_CLOSED"
  by (simp add: dead_stream_def)

lemma stream_free_table [simp]:
  "stm (mux_stream_free p) j = stm (fst p) j" "down (mux_stream_free p) = down (fst p)"
  using sched_coreD [OF sched_core_stream_free [of p]] by (simp_all add: stm_def tab_def session_streams_freed_def)

lemma remove_free_good:
  assumes "is_closed (stm ss i)" "s_sched_queue (stm ss i) = SCHED_QUEUE_NONE" "\<not> is_tomb (stm ss i)" "i \<in> keys ss"
  shows "good A c ss (mux_stream_free (sched_remove_stream i ss, stm ss i))"
  unfolding good_def
proof (intro impI conjI)
  assume inv: "sched_inv ss"
  define r where "r = mux_stream_free (sched_remove_stream i ss, stm ss i)"
  note r = remove_free_inv [OF inv assms(4,1,2,3), folded r_def]
  show "sched_inv (mux_stream_free (sched_remove_stream i ss, stm ss i))"
    unfolding r_def [symmetric] by (rule r)
  show "keys (mux_stream_free (sched_remove_stream i ss, stm ss i)) \<subseteq> keys ss"
    unfolding r_def [symmetric] using r(2) by blast
  show "down ss \<Longrightarrow> down (mux_stream_free (sched_remove_stream i ss, stm ss i))"
    using down_empty assms(4) by blast
  show "down (mux_stream_free (sched_remove_stream i ss, stm ss i))
    \<or> (\<forall>j. s_state (stm (mux_stream_free (sched_remove_stream i ss, stm ss i)) j) \<in> outcomes (j \<in> A) c (s_state (stm ss j)))"
  proof -
    define a where "a = ss\<lparr>sched := (sched ss)\<lparr>streams := map_option (filter (\<lambda>(j, s). j \<noteq> i)) (streams (sched ss)),
      num_closed := num_closed (sched ss) - 1\<rparr>\<rparr>"
    have rm: "sched_remove_stream i ss = mux_sched_check_no_active_streams a"
      using keysE [OF assms(4)] assms(1) by (simp add: sched_remove_stream_def a_def Let_def)
    have "tab a = filter (\<lambda>(j, s). j \<noteq> i) (tab ss)"
      by (simp add: a_def tab_def split: option.split)
    then have "stm a j = (if j = i then dead_stream else stm ss j)" for j
      by (simp add: stm_def map_of_filter_key)
    then have "s_state (stm a j) = s_state (stm ss j)" for j
      using assms(1) by simp
    then show ?thesis
      using endedD [OF check_no_active_ended, of a] by (auto simp: rm)
  qed
qed

section \<open>Sending a data frame\<close>

text \<open>The part of \<^verbatim>\<open>mux_session_send_push\<close> before a piggybacked \<open>FIN\<close> takes effect: the
  stream stays in its state and in its queue.\<close>

definition steady :: "u16 \<Rightarrow> mux_session \<Rightarrow> mux_session \<Rightarrow> bool" where
  "steady i ss ss' \<longleftrightarrow> tame ss ss' \<and> s_sched_queue (stm ss' i) = s_sched_queue (stm ss i)
    \<and> s_send_queue (stm ss' i) = s_send_queue (stm ss i) \<and> s_rx_eof (stm ss' i) = s_rx_eof (stm ss i)"

lemma steady_refl [simp]: "steady i ss ss"
  by (simp add: steady_def)

lemma steady_trans: "steady i a b \<Longrightarrow> steady i b c \<Longrightarrow> steady i a c"
  by (simp add: steady_def) (metis tame_trans)

lemma steady_links: "links ss' = links ss \<Longrightarrow> steady i ss ss'"
  by (simp add: steady_def tame_links stm_links(1) [of ss' ss])

lemma steady_upd:
  assumes "same_links (stm ss i) (f (stm ss i))" "s_send_queue (f (stm ss i)) = s_send_queue (stm ss i)"
    "s_rx_eof (f (stm ss i)) = s_rx_eof (stm ss i)"
  shows "steady i ss (upd_stm i f ss)"
  using assms tame_upd [of ss i f] by (simp add: steady_def stm_upd_stm same_links_def)

lemma steady_undelay:
  "steady i ss (if s_delay_pending (stm ss i) then on_stm i mux_sched_delay_remove ss else ss)"
  using delay_remove_tame [of ss i] by (simp add: steady_def)

lemma counter_links [simp]: "links (counter_add c n ss) = links ss" "links (counter_sub c n ss) = links ss"
  by (simp_all add: counter_add_def counter_sub_def)

lemma send_push_staged:
  obtains a where "steady i ss a" "mux_session_send_push i frame ss
    = (if s_state (stm ss i) \<noteq> STREAM_INIT \<and> stream_fin_pending (stm ss i) then mux_stream_mark_fin_sent i a else a)"
proof -
  define fin where "fin = (s_state (stm ss i) \<noteq> STREAM_INIT \<and> stream_fin_pending (stm ss i))"
  obtain hd n fl f g where e: "mux_session_send_push i frame ss =
    (let ss = mux_wire_sendbuf_push hd ss;
         ss = (if n > 0 then counter_add byt_push_sent n
                      (upd_stm i (\<lambda>s. s\<lparr>s_bytes_sent := s_bytes_sent s + of_nat n,
                         s_unacked_bytes := s_unacked_bytes s + of_nat n\<rparr>) ss)
               else ss);
         ss = upd_stm i (\<lambda>s. s\<lparr>s_grant_sent := s_grant_sent s + g,
                s_ack_pending := (if fl then False else s_ack_pending s)\<rparr>) ss;
         ss = (if s_delay_pending (stm ss i) then on_stm i mux_sched_delay_remove ss else ss)
     in if fin then mux_stream_mark_fin_sent i ss else ss)"
    unfolding mux_session_send_push_def Let_def fin_def by blast
  define a where "a = mux_wire_sendbuf_push hd ss"
  define b where "b = (if n > 0 then counter_add byt_push_sent n
                      (upd_stm i (\<lambda>s. s\<lparr>s_bytes_sent := s_bytes_sent s + of_nat n,
                         s_unacked_bytes := s_unacked_bytes s + of_nat n\<rparr>) a) else a)"
  define c where "c = upd_stm i (\<lambda>s. s\<lparr>s_grant_sent := s_grant_sent s + g,
                s_ack_pending := (if fl then False else s_ack_pending s)\<rparr>) b"
  define d where "d = (if s_delay_pending (stm c i) then on_stm i mux_sched_delay_remove c else c)"
  have a: "steady i ss a"
    unfolding a_def by (rule steady_links) simp
  have b: "steady i a b"
  proof -
    have "steady i a (upd_stm i (\<lambda>s. s\<lparr>s_bytes_sent := s_bytes_sent s + of_nat n,
        s_unacked_bytes := s_unacked_bytes s + of_nat n\<rparr>) a)"
      by (rule steady_upd) (simp_all add: same_links_def)
    then show ?thesis
      by (simp add: b_def steady_trans [OF _ steady_links])
  qed
  have c: "steady i b c"
    unfolding c_def by (rule steady_upd) (simp_all add: same_links_def)
  have d: "steady i c d"
    unfolding d_def by (rule steady_undelay)
  show thesis
    by (rule that [OF steady_trans [OF a steady_trans [OF b steady_trans [OF c d]]]])
      (simp only: e Let_def fin_def [symmetric] a_def [symmetric] b_def [symmetric] c_def [symmetric] d_def [symmetric])
qed

lemma send_push_good: "good {i} By_fin_out ss (mux_session_send_push i frame ss)"
proof -
  obtain a where "steady i ss a" "mux_session_send_push i frame ss
    = (if s_state (stm ss i) \<noteq> STREAM_INIT \<and> stream_fin_pending (stm ss i) then mux_stream_mark_fin_sent i a else a)"
    using send_push_staged by blast
  then show ?thesis
    using good_trans [OF good_tame mark_fin_sent_good] good_tame by (simp add: steady_def)
qed

text \<open>A piggybacked \<open>FIN\<close> leaves the send queue empty.\<close>

lemma mark_closed_queue [simp]: "s_send_queue (stm (stream_mark_closed i ss) i) = []"
proof -
  have c: "s_send_queue (stm (mux_sched_check_no_active_streams b) i) = []" if "s_send_queue (stm b i) = []" for b
    using check_no_active_ended [of b, unfolded ended_def] that
      stm_links(1) [of "mux_sched_check_no_active_streams b" b] links_gone
    by (auto simp: dead_stream_def zero_stream_def)
  have "s_send_queue (stm (mark_closed_stream i ss) i) = []"
    by (cases "i \<in> keys ss")
      (simp_all add: mark_closed_stream_def on_stm_eq stm_put_stm stm_missing dead_stream_def zero_stream_def
        close_stream_fd_def stream_release_buffers_def case_prod_beta Let_def stm_upd_stm)
  then show ?thesis
    by (simp add: stream_mark_closed_eq Let_def stm_upd_stm c)
qed

lemma mark_fin_sent_queue:
  assumes "s_send_queue (stm ss i) = []"
  shows "s_send_queue (stm (mux_stream_mark_fin_sent i ss) i) = []"
proof -
  define a where "a st = on_stm i (stream_set_state st) ss" for st
  have q: "s_send_queue (stm (a st) i) = []" for st
    using assms by (simp add: a_def on_stm_eq stm_put_stm)
  have "s_send_queue (stm (mux_stream_do_close i (a st)) i) = []" for st
    using q by (simp add: mux_stream_do_close_def Let_def)
  moreover have "s_send_queue (stm (snd (stream_finish_drained_write i (a st))) i) = []" for st
    using q by (simp add: stream_finish_drained_write_def Let_def on_stm_eq stm_put_stm stream_shutdown_local_write_def)
  ultimately show ?thesis
    using assms q unfolding mux_stream_mark_fin_sent_def a_def [symmetric] Let_def
    by (simp split: stream_state.split)
qed

section \<open>Control flags\<close>

lemma ctrl_flags_good: "good {i} By_fin_out ss (sched_send_ctrl_flags i ss)"
proof -
  have c: "tame ss (snd (mux_session_send_ctrl i f x ss))" for f x
    by (rule tame_links) simp
  have s: "good {i} By_fin_out a (ctrl_flags_sent i f x a)" for a f x
  proof -
    define b where "b = upd_stm i (\<lambda>s. s\<lparr>s_grant_sent := s_grant_sent s + of_nat (x * MUX_WINDOW_UNIT),
                          s_ack_pending := False\<rparr>) a"
    have "tame a b"
      unfolding b_def by (rule tame_upd) (simp add: same_links_def)
    then have "tame a (if has_flag f MUX_FLAG_ACK then (if s_send_queue (stm b i) = [] \<and> s_delay_pending (stm b i)
        then on_stm i mux_sched_delay_remove b else b) else a)"
      using tame_trans [OF _ delay_remove_tame, of a b i] by simp
    then show ?thesis
      unfolding ctrl_flags_sent_def Let_def b_def [symmetric] using tame_good [OF _ mark_fin_sent_good] good_tame by simp
  qed
  have k: "i \<in> keys ss" if "s_ack_pending (stm ss i) \<or> s_state (stm ss i) \<noteq> STREAM_CLOSED"
    using that by (rule_tac ccontr) (simp add: stm_missing dead_stream_def zero_stream_def)
  have u: "tame ss (upd_stm i (\<lambda>s. s\<lparr>s_ack_pending := False\<rparr>) ss)"
    by (rule tame_upd) (simp add: same_links_def)
  show ?thesis
    by (rule ctrl_flags_cases [of i ss])
      (use good_tame [OF u] good_tame [OF tame_trans [OF c tame_delay]] tame_good [OF c s] k in simp_all)
qed

section \<open>The round\<close>

lemma drr_continue_tame:
  assumes "s_send_queue (stm ss i) \<noteq> [] \<Longrightarrow> s_sched_queue (stm ss i) = SCHED_QUEUE_NONE \<and> s_state (stm ss i) \<noteq> STREAM_CLOSED"
  shows "tame ss (sched_drr_continue i ss)"
proof (cases "s_send_queue (stm ss i)")
  case Nil
  have "tame (set_drr_active None ss) (upd_stm i (\<lambda>s. s\<lparr>s_deficit := 0\<rparr>) (set_drr_active None ss))"
    by (rule tame_upd) (simp add: same_links_def)
  then show ?thesis
    using Nil by (simp add: sched_drr_continue_def tame_trans [OF set_drr_none_tame])
next
  case (Cons f q)
  then have s: "s_sched_queue (stm ss i) = SCHED_QUEUE_NONE" "s_state (stm ss i) \<noteq> STREAM_CLOSED"
    using assms by simp_all
  show ?thesis
    using set_drr_some_tame [OF s] tame_trans [OF set_drr_none_tame tame_wake] open_live [OF s(2)] Cons
    by (simp add: sched_drr_continue_def Let_def)
qed

lemma delay_sched_queue [simp]: "s_sched_queue (stm (mux_sched_delay i n ss) j) = s_sched_queue (stm ss j)"
proof -
  have "stm (mux_sched_coalesce_arm a) j = stm a j" for a
    by (rule stm_links) simp
  then show ?thesis
    by (simp add: mux_sched_delay_def stm_upd_stm Let_def)
qed

lemma dequeue_send_queue:
  "s_sched_queue (stm (snd (mux_stream_dequeue_send i ss)) j) = s_sched_queue (stm ss j)"
  by (simp add: mux_stream_dequeue_send_def Let_def stm_upd_stm counter_sub_def split: list.split)

lemma next_data_staged_good:
  assumes "s_sched_queue (stm ss i) = SCHED_QUEUE_NONE" "s_state (stm ss i) \<noteq> STREAM_CLOSED"
  shows "good {i} By_fin_out ss (next_data_staged i fresh frame ss)"
proof -
  define n where "n = f_len frame - MUX_FRAME_HEADER_SIZE"
  define a where "a = (if fresh \<or> s_deficit (stm ss i) < of_nat n
               then upd_stm i (\<lambda>s. s\<lparr>s_deficit := s_deficit s + max_payload ss\<rparr>) ss else ss)"
  define b where "b = mux_session_send_push i frame a"
  define c where "c = upd_stm i (\<lambda>s. mux_stream_notify_recv (s\<lparr>s_deficit := s_deficit s - of_nat n\<rparr>)) b"
  have a: "steady i ss a"
    by (simp add: a_def steady_upd same_links_def)
  obtain d where d: "steady i a d"
    "b = (if s_state (stm a i) \<noteq> STREAM_INIT \<and> stream_fin_pending (stm a i) then mux_stream_mark_fin_sent i d else d)"
    unfolding b_def using send_push_staged by blast
  have gb: "good {i} By_fin_out ss b"
    unfolding b_def using a by (intro tame_good [OF _ send_push_good]) (simp add: steady_def)
  have sc: "s_send_queue (mux_stream_notify_recv (s\<lparr>s_deficit := x\<rparr>)) = s_send_queue s"
    "same_links s (mux_stream_notify_recv (s\<lparr>s_deficit := x\<rparr>))" for s x
    using same_links_notify [of "s\<lparr>s_deficit := x\<rparr>"] 
    by (simp_all add: same_links_def mux_stream_notify_recv_def update_watcher_def stream_feed_user_def Let_def
        split: option.split)
  have tc: "tame b c"
    unfolding c_def by (rule tame_upd) (rule sc)
  have "s_sched_queue (stm c i) = SCHED_QUEUE_NONE \<and> s_state (stm c i) \<noteq> STREAM_CLOSED"
    if "s_send_queue (stm c i) \<noteq> []"
  proof -
    have "s_send_queue (stm b i) \<noteq> []"
      using that by (simp add: c_def stm_upd_stm sc split: if_splits)
    then have "b = d"
      using d mark_fin_sent_queue [of d i] by (auto simp: stream_fin_pending_def steady_def split: if_splits)
    then have "steady i ss b"
      using steady_trans [OF a d(1)] by simp
    then show ?thesis
      using assms tameD(3) [OF tc] sc(2) by (auto simp: steady_def tameD(3) c_def stm_upd_stm same_links_def)
  qed
  then have "tame c (sched_drr_continue i c)"
    by (rule drr_continue_tame)
  then have "good {i} By_fin_out b (sched_send_ctrl_flags i (sched_drr_continue i c))"
    by (intro good_trans [OF good_tame [OF tame_trans [OF tc]] ctrl_flags_good])
  then show ?thesis
    using gb good_trans [OF gb]
    unfolding next_data_staged_def Let_def n_def [symmetric] a_def [symmetric]
    unfolding b_def [symmetric] c_def [symmetric] by simp
qed

lemma dequeue_tame:
  assumes "sched_inv ss" "sched_dequeue ss = (Some i, a)"
  shows "tame ss a" "s_sched_queue (stm a i) = SCHED_QUEUE_NONE" "i \<in> keys a"
proof -
  have "s_state (stm a j) = s_state (stm ss j)" and d: "down a = down ss" for j
    using assms(2) by (auto simp: sched_dequeue_def stm_upd_stm split: list.splits)
  then show "tame ss a" "s_sched_queue (stm a i) = SCHED_QUEUE_NONE" "i \<in> keys a"
    using dequeue_inv [OF assms] d by (simp_all add: tame_def)
qed

lemma next_data_pick:
  assumes "sched_inv ss" "(case drr_active (sched ss) of None \<Rightarrow> sched_dequeue ss | Some i \<Rightarrow> (Some i, ss)) = (Some i, a)"
  shows "tame ss a" "s_sched_queue (stm a i) = SCHED_QUEUE_NONE" "i \<in> keys a"
proof -
  have "s_sched_queue (stm ss i) = SCHED_QUEUE_NONE \<and> i \<in> keys ss" if "drr_active (sched ss) = Some i"
    using sched_invD(5) [OF assms(1), of i] sched_inv_live [OF assms(1), of i] that by (simp add: linked_def)
  then show "tame ss a" "s_sched_queue (stm a i) = SCHED_QUEUE_NONE" "i \<in> keys a"
    using assms(2) dequeue_tame [OF assms(1), of i a] by (auto split: option.splits)
qed

lemma next_data_good: "good UNIV By_fin_out ss (snd (mux_sched_next_data ss))"
proof (induction ss rule: mux_sched_next_data.induct)
  case (1 ss)
  obtain r a where p: "(case drr_active (sched ss) of None \<Rightarrow> sched_dequeue ss | Some i \<Rightarrow> (Some i, ss)) = (r, a)"
    by (cases "case drr_active (sched ss) of None \<Rightarrow> sched_dequeue ss | Some i \<Rightarrow> (Some i, ss)")
  note IH = "1.IH" [OF refl p [symmetric]]
  show ?case
  proof (cases r)
    case None
    then have "a = ss"
      using p by (auto simp: sched_dequeue_def split: option.splits list.splits)
    then show ?thesis
      using None p by (subst mux_sched_next_data.simps) (simp add: Let_def)
  next
    case (Some i)
    show ?thesis
    proof (rule good_if_inv)
      assume inv: "sched_inv ss"
      note t = next_data_pick [OF inv p [unfolded Some]]
      define z where "z = set_drr_active None a"
      have z: "tame ss z" "stm z i = stm a i" "i \<in> keys z"
        using t by (simp_all add: z_def tame_trans [OF _ set_drr_none_tame])
      define b where "b = (if \<not> is_tomb (stm z i) then mux_sched_schedule (sched_lp_enqueue i z) else z)"
      obtain f c where d: "mux_stream_dequeue_send i a = (f, c)"
        by (cases "mux_stream_dequeue_send i a")
      define e where "e = upd_stm i (\<lambda>s. s\<lparr>s_deficit := 0\<rparr>) (set_drr_active None c)"
      have c: "tame ss c" "tame c e"
        using tame_trans [OF t(1)] dequeue_send_tame [of a i] d
        by (simp_all add: e_def tame_trans [OF set_drr_none_tame tame_upd] same_links_def)
      have eq: "snd (mux_sched_next_data ss) =
        (if s_state (stm a i) = STREAM_CLOSED then snd (mux_sched_next_data b)
         else if s_state (stm a i) = STREAM_INIT then snd (mux_sched_next_data (mux_sched_schedule (sched_lp_enqueue i z)))
         else if s_state (stm a i) = STREAM_SYN_SENT then snd (mux_sched_next_data z)
         else case f of Some frame \<Rightarrow> next_data_staged i (drr_active (sched ss) = None) frame c
                      | None \<Rightarrow> snd (mux_sched_next_data (sched_send_ctrl_flags i e)))"
        by (subst mux_sched_next_data.simps) (simp add: p Some d z_def b_def e_def Let_def split: option.split)
      have lp: "tame z (mux_sched_schedule (sched_lp_enqueue i z))"
        if "s_state (stm a i) = STREAM_INIT \<or> is_closed (stm a i)"
        using that z by (intro lp_enqueue_tame) simp_all
      have closed: "good UNIV By_fin_out ss (snd (mux_sched_next_data b))" if "is_closed (stm a i)"
        using IH(1) [OF Some that z_def b_def] that lp z(1)
        by (intro tame_good [OF tame_trans [OF z(1)]]) (simp_all add: b_def)
      have init: "good UNIV By_fin_out ss (snd (mux_sched_next_data (mux_sched_schedule (sched_lp_enqueue i z))))"
        if "s_state (stm a i) = STREAM_INIT"
        using IH(2) [OF Some _ that] that lp z(1)
        by (intro tame_good [OF tame_trans [OF z(1)]]) (simp_all add: z_def)
      have syn: "good UNIV By_fin_out ss (snd (mux_sched_next_data z))" if "s_state (stm a i) = STREAM_SYN_SENT"
        using IH(3) [OF Some _ _ that] that z(1) by (simp add: z_def tame_good)
      have "good UNIV By_fin_out ss (next_data_staged i fresh frame c)"
        if "f = Some frame" "s_state (stm a i) \<noteq> STREAM_CLOSED" for frame fresh
        using that t d dequeue_send_queue [of i a i] dequeue_send_tame [of a i]
        by (intro tame_good [OF c(1) good_all [OF next_data_staged_good]]) (simp_all add: tameD(3))
      moreover have "good UNIV By_fin_out ss (snd (mux_sched_next_data (sched_send_ctrl_flags i e)))"
        if "f = None" "s_state (stm a i) \<notin> {STREAM_CLOSED, STREAM_INIT, STREAM_SYN_SENT}"
        using IH(4) [OF Some _ _ _ d [symmetric] that(1)] that(2)
        by (intro tame_good [OF tame_trans [OF c] good_trans [OF good_all [OF ctrl_flags_good]]]) (simp add: e_def)
      ultimately show "good UNIV By_fin_out ss (snd (mux_sched_next_data ss))"
        unfolding eq using closed init syn by (simp split: option.split)
    qed
  qed
qed

section \<open>The lifecycle queue\<close>

lemma send_syn_good:
  assumes "s_state (stm ss i) = STREAM_INIT" "s_sched_queue (stm ss i) \<noteq> SCHED_QUEUE_LP"
  shows "good {i} By_syn_out ss (sched_send_syn i ss)"
proof -
  obtain f a where d: "mux_stream_dequeue_send i ss = (f, a)"
    by (cases "mux_stream_dequeue_send i ss")
  have a: "tame ss a" "s_state (stm a i) = STREAM_INIT" "s_sched_queue (stm a i) \<noteq> SCHED_QUEUE_LP"
    using dequeue_send_tame [of ss i] dequeue_send_queue [of i ss i] assms d by (simp_all add: tameD(3))
  have m: "good {i} By_syn_out ss (mux_stream_mark_syn_sent i b)" if "steady i a b" for b
  proof (rule tame_good [OF tame_trans [OF a(1)] mark_syn_sent_good])
    show "tame a b"
      using that by (simp add: steady_def)
    then show "s_state (stm b i) = STREAM_INIT"
      using a(2) tameD(3) by metis
    show "s_sched_queue (stm b i) \<noteq> SCHED_QUEUE_LP"
      using that a(3) by (simp add: steady_def)
  qed
  show ?thesis
  proof (cases f)
    case None
    define g where "g = mux_session_send_ctrl i MUX_FLAG_SYN (mux_stream_grant_inc a (stm a i)) a"
    have "steady i a (snd g)"
      unfolding g_def by (rule steady_links) simp
    then have "steady i a (upd_stm i (\<lambda>s. s\<lparr>s_grant_sent := s_grant_sent s + x\<rparr>) (snd g))" for x
      by (rule steady_trans [OF _ steady_upd]) (simp_all add: same_links_def)
    moreover have "tame a (snd g)"
      unfolding g_def by (rule tame_links) simp
    ultimately show ?thesis
      using None m good_tame [OF tame_trans [OF a(1)]]
      by (simp add: sched_send_syn_def d g_def [symmetric] Let_def case_prod_beta)
  next
    case (Some frame)
    obtain b where b: "steady i a b" "mux_session_send_push i frame a
        = (if s_state (stm a i) \<noteq> STREAM_INIT \<and> stream_fin_pending (stm a i) then mux_stream_mark_fin_sent i b else b)"
      using send_push_staged by blast
    have "steady i b (counter_add num_stream_fastopen 1 b)"
      by (rule steady_links) simp
    then show ?thesis
      using Some b a(2) m steady_trans by (simp add: sched_send_syn_def d)
  qed
qed

lemma drain_lp_loop_good: "good UNIV By_syn_out ss (drain_lp_loop fuel ss)"
proof (induction fuel arbitrary: ss)
  case (Suc fuel)
  show ?case
  proof (rule good_if_inv)
    assume inv: "sched_inv ss"
    show "good UNIV By_syn_out ss (drain_lp_loop (Suc fuel) ss)"
    proof (cases "lp_fifo (sched ss)")
      case (Cons i q)
      define a where "a = lp_pop i ss"
      note t = lp_pop_tame [OF inv Cons, folded a_def]
      have k: "i \<in> keys a" "s_sched_queue (stm a i) = SCHED_QUEUE_NONE" "\<not> is_tomb (stm a i)"
        using t tameD(2) [OF t(1)] by simp_all
      define b where "b = (if mux_stream_app_held (stm a i) then a else mux_stream_free (sched_remove_stream i a, stm a i))"
      have b: "good UNIV By_syn_out ss b" if "is_closed (stm a i)"
        using tame_good [OF t(1) remove_free_good [OF that k(2,3,1)]] t(1) by (simp add: b_def good_tame)
      define c where "c = sched_send_syn i a"
      define d where "d = (if s_state (stm c i) = STREAM_INIT then mux_stream_abort_unopened i c else c)"
      have d: "good UNIV By_syn_out ss d" if "s_state (stm a i) = STREAM_INIT"
      proof -
        have "good UNIV By_syn_out ss c"
          using that k by (simp add: c_def tame_good [OF t(1) good_all [OF send_syn_good]])
        then show ?thesis
          using good_trans [OF _ good_all [OF good_close [OF abort_unopened_good]], of By_syn_out ss c i] by (simp add: d_def)
      qed
      have "drain_lp_loop (Suc fuel) ss = (if s_state (stm ss i) = STREAM_INIT \<and> head_in_flight ss then ss
          else if s_state (stm a i) = STREAM_CLOSED then drain_lp_loop fuel b
          else if s_state (stm a i) = STREAM_INIT
          then (if sendbuf (wire d) \<noteq> [] \<and> \<not> sendbuf_staging (wire d) then d else drain_lp_loop fuel d)
          else drain_lp_loop fuel a)"
        unfolding drain_lp_loop.simps [of "Suc fuel" ss] Cons prod.case nat.case list.case Let_def a_def [symmetric]
        unfolding b_def [symmetric] c_def [symmetric] unfolding d_def [symmetric] ..
      then show ?thesis
        using good_trans [OF b Suc.IH] d good_trans [OF d Suc.IH] tame_good [OF t(1) Suc.IH] by simp
    qed (simp add: drain_lp_loop.simps)
  qed
qed (simp add: drain_lp_loop.simps)

lemma drain_lp_good: "good UNIV By_syn_out ss (mux_sched_drain_lp ss)"
  using drain_lp_loop_good good_tame_after [OF drain_lp_loop_good tame_links]
  by (simp add: mux_sched_drain_lp_def Let_def)

section \<open>Control flags of all ready streams, and the coalescing timer\<close>

lemma flush_ctrl_loop_good: "good UNIV By_fin_out ss (flush_ctrl_loop q ss)"
proof (induction q arbitrary: ss)
  case (Cons i q)
  show ?case
    using good_all [OF ctrl_flags_good] good_trans [OF good_all [OF ctrl_flags_good] Cons.IH] Cons.IH by (simp add: Let_def)
qed simp

lemma flush_ctrl_good: "good UNIV By_fin_out ss (mux_sched_flush_ctrl ss)"
  using flush_ctrl_loop_good good_trans [OF good_all [OF ctrl_flags_good] flush_ctrl_loop_good]
  by (simp add: mux_sched_flush_ctrl_def Let_def split: option.split)

lemma wake_pending [simp]: "s_delay_pending (stm (mux_sched_wake ss i) j) = s_delay_pending (stm ss j)"
  by (simp add: mux_sched_wake_def Let_def sched_enqueue_eq sched_lp_enqueue_eq stm_put_stm)

lemma coalesce_loop_tame:
  "\<forall>i\<in>set q. s_delay_pending (stm ss i) \<Longrightarrow> distinct q \<Longrightarrow> tame ss (coalesce_loop q ss)"
proof (induction q arbitrary: ss)
  case (Cons i q)
  have p: "s_delay_pending (stm ss i)" "\<forall>j\<in>set q. s_delay_pending (stm ss j)" "distinct q" "i \<notin> set q"
    using Cons.prems by simp_all
  have k: "i \<in> keys ss"
    using p(1) by (rule_tac ccontr) (simp add: stm_missing dead_stream_def zero_stream_def)
  define a where "a = upd_stm i (\<lambda>s. s\<lparr>s_delay_ticks := s_delay_ticks s - 1\<rparr>) ss"
  define b where "b = upd_stm i (\<lambda>s. s\<lparr>s_nagle_flush := True, s_ack_pending := s_ack_pending s
    \<or> stream_grantable_bytes (stm ss i) \<ge> MUX_WINDOW_UNIT\<rparr>) (on_stm i mux_sched_delay_remove ss)"
  have a: "tame ss a"
    unfolding a_def by (rule tame_upd) (simp add: same_links_def)
  have "tame (on_stm i mux_sched_delay_remove ss) b"
    unfolding b_def by (rule tame_upd) (simp add: same_links_def)
  then have b: "tame ss (mux_sched_wake b i)"
    using k by (intro tame_trans [OF tame_trans [OF delay_remove_tame [OF p(1)]] tame_wake]) (simp_all add: b_def)
  have "tame a (coalesce_loop q a)" "tame (mux_sched_wake b i) (coalesce_loop q (mux_sched_wake b i))"
    by (rule Cons.IH; use p in \<open>auto simp: a_def b_def stm_upd_stm\<close>)+
  then show ?case
    using tame_trans [OF a] tame_trans [OF b] by (simp add: Let_def a_def b_def)
qed simp

lemma emit_ack_links [simp]: "links (mux_session_emit_ack ss) = links ss"
  by (simp add: mux_session_emit_ack_def mux_unacked_ack_emitted_def Let_def case_prod_beta)

lemma coalesce_cb_tame:
  assumes "sched_inv ss"
  shows "tame ss (sched_coalesce_cb ss)"
proof -
  define a where "a = coalesce_loop (delay_list (sched ss)) ss"
  have "s_delay_pending (stm ss i)" if "i \<in> set (delay_list (sched ss))" for i
    using sched_invD(5) [OF assms, of i] that by (simp add: linked_def)
  then have "tame ss a"
    unfolding a_def using sched_invD(4) [OF assms] by (intro coalesce_loop_tame) simp_all
  moreover have "links (sched_coalesce_cb ss) = links a"
    unfolding sched_coalesce_cb_def a_def [symmetric] Let_def by simp
  ultimately show ?thesis
    using tame_trans tame_links by blast
qed

end
