(* ===== verification/Sched_Drain.thy ===== *)
theory Sched_Drain
  imports Sched_Inv
begin

text \<open>
  The lifecycle queue is drained in finitely many rounds (\<^verbatim>\<open>mux_sched_drain_lp\<close> of
  \<^verbatim>\<open>mux/sched.c\<close>): a round takes a stream off the queue, and only a stream whose \<open>SYN\<close> could
  not be sent comes back, closed.
\<close>

section \<open>What the operations of a stream add to the lifecycle queue\<close>

abbreviation lpq :: "mux_session \<Rightarrow> u16 list" where
  "lpq ss \<equiv> lp_fifo (sched ss)"

definition lp_sub :: "u16 set \<Rightarrow> mux_session \<Rightarrow> mux_session \<Rightarrow> bool" where
  "lp_sub A ss ss' \<longleftrightarrow> set (lpq ss') \<subseteq> A \<union> set (lpq ss)"

lemma lp_sub_trans: "lp_sub A a b \<Longrightarrow> lp_sub A b c \<Longrightarrow> lp_sub A a c"
  by (auto simp: lp_sub_def)

lemma lp_sub_same: "lpq b = lpq a \<Longrightarrow> lp_sub A a b"
  by (simp add: lp_sub_def)

lemma lp_sub_ended: "ended a b \<Longrightarrow> lp_sub A a b"
  by (auto simp: lp_sub_def ended_def links_def sc_links_def)

lemma lpq_links: "links ss' = links ss \<Longrightarrow> lpq ss' = lpq ss"
  by (simp add: links_def sc_links_def)

lemma lpq_send [simp]:
  "lpq (mux_wire_sendbuf_push f ss) = lpq ss" "lpq (snd (mux_session_send_ctrl i flags x ss)) = lpq ss"
  "lpq (mux_session_discard_stream_frames i ss) = lpq ss" "lpq (mux_sched_schedule ss) = lpq ss"
  "lpq (mux_session_notify ss) = lpq ss" "lpq (set_tx_pending ss) = lpq ss"
  "lpq (stream_rst_notify_socket p) = lpq (fst p)"
  by (rule lpq_links, simp)+

lemma lpq_stream [simp]:
  "lpq (upd_stm i f ss) = lpq ss" "lpq (counter_add c n ss) = lpq ss" "lpq (counter_sub c n ss) = lpq ss"
  "lpq (put_out x ss) = lpq ss"
  "lpq (on_stm i (stream_set_state st) ss) = lpq ss" "lpq (on_stm i stream_stop ss) = lpq ss"
  "lpq (on_stm i stream_release_buffers ss) = lpq ss" "lpq (on_stm i mux_sched_delay_remove ss) = lpq ss"
  "lpq (on_stm i stream_shutdown_local_write ss) = lpq ss"
  "lpq (close_stream_fd i ss) = lpq ss" "lpq (mux_sched_delay i ticks ss) = lpq ss"
  "lpq (stream_drop_recvbuf i ss) = lpq ss"
  by (simp_all add: on_stm_eq upd_stm_def counter_add_def counter_sub_def put_out_def stream_set_state_def stream_stop_def
      stream_release_buffers_def mux_sched_delay_remove_def stream_shutdown_local_write_def close_stream_fd_def
      mux_sched_delay_def mux_sched_coalesce_arm_def stream_drop_recvbuf_def pool_put_def Let_def case_prod_beta)

text \<open>A stream joins the queue only by being woken.\<close>

lemma lp_sub_wake: "lp_sub {i} ss (mux_sched_wake ss i)"
  by (auto simp: lp_sub_def mux_sched_wake_def sched_enqueue_def sched_lp_enqueue_def Let_def)

lemma lp_sub_mark_closed: "lp_sub {i} ss (stream_mark_closed i ss)"
proof -
  have m: "lpq (mark_closed_stream i ss) = lpq ss"
    by (simp add: mark_closed_stream_def Let_def)
  show ?thesis
    unfolding stream_mark_closed_eq Let_def
    by (auto intro!: lp_sub_trans [OF lp_sub_same lp_sub_ended [OF check_no_active_ended]] lp_sub_trans [OF lp_sub_same lp_sub_wake]
        simp: m)
qed

lemma lp_sub_do_close: "lp_sub {i} ss (mux_stream_do_close i ss)"
proof -
  have "lpq (stream_reset_unread i ss) = lpq ss"
    by (simp add: stream_reset_unread_def Let_def case_prod_beta)
  then show ?thesis
    by (auto simp: mux_stream_do_close_def Let_def lp_sub_same intro!: lp_sub_trans [OF lp_sub_same lp_sub_mark_closed])
qed

lemma lp_sub_do_shutdown: "lp_sub {i} ss (mux_stream_do_shutdown i ss)"
  by (auto simp: mux_stream_do_shutdown_def Let_def
      intro!: lp_sub_trans [OF lp_sub_same lp_sub_mark_closed] lp_sub_trans [OF lp_sub_same lp_sub_wake])

lemma lp_sub_relinquish: "lp_sub {i} ss (stream_relinquish i ss)"
  by (auto simp: stream_relinquish_def Let_def lp_sub_do_shutdown lp_sub_do_close
      intro!: lp_sub_trans [OF lp_sub_same lp_sub_do_shutdown] lp_sub_trans [OF lp_sub_same lp_sub_do_close])

lemma lp_sub_rst_notify_direct: "lp_sub {i} ss (stream_rst_notify_direct i ss)"
proof -
  have "lp_sub {i} ss (mux_stream_do_release i a)" if "lpq a = lpq ss" for a
    using that by (auto simp: mux_stream_do_release_def Let_def lp_sub_same intro!: lp_sub_trans [OF lp_sub_same lp_sub_wake])
  then show ?thesis
    by (auto simp: stream_rst_notify_direct_def Let_def lp_sub_same split: option.split
        intro!: lp_sub_trans [OF lp_sub_same lp_sub_relinquish])
qed

lemma lp_sub_abort_unopened: "lp_sub {i} ss (mux_stream_abort_unopened i ss)"
proof -
  define a where "a = upd_stm i (\<lambda>s. s\<lparr>s_aborted := True\<rparr>) (counter_add num_stream_errors 1 ss)"
  have "lp_sub {i} a (stream_abort_notify_close i a)"
    using lp_sub_rst_notify_direct [of i a] lp_sub_trans [OF lp_sub_rst_notify_direct lp_sub_trans [OF lp_sub_same lp_sub_mark_closed]]
    by (auto simp: stream_abort_notify_close_def Let_def intro!: lp_sub_trans [OF lp_sub_same lp_sub_mark_closed])
  then show ?thesis
    by (simp add: mux_stream_abort_unopened_def lp_sub_def a_def)
qed

lemma lpq_send_syn:
  assumes "s_state (stm ss i) = STREAM_INIT"
  shows "lpq (sched_send_syn i ss) = lpq ss"
proof -
  obtain f a where d: "mux_stream_dequeue_send i ss = (f, a)"
    by (cases "mux_stream_dequeue_send i ss")
  have q: "lpq a = lpq ss"
    using arg_cong [OF d, of snd] by (auto simp: mux_stream_dequeue_send_def Let_def split: list.splits if_splits)
  have "s_state (stm a i) = STREAM_INIT"
    using dequeue_send_tame [of ss i] assms d by (simp add: tameD(3))
  then have "lpq (mux_session_send_push i frame a) = lpq ss" for frame
    using q by (simp add: mux_session_send_push_def Let_def)
  moreover have "lpq (mux_stream_mark_syn_sent i b) = lpq b" for b
    by (simp add: mux_stream_mark_syn_sent_def Let_def)
  ultimately show ?thesis
    using q by (simp add: sched_send_syn_def d Let_def case_prod_beta split: option.split)
qed

lemma lpq_remove_free: "lp_sub {} ss (mux_stream_free (sched_remove_stream i ss, s))"
proof -
  have "lpq (mux_stream_free (a, s)) = lpq a" for a
    by (simp add: mux_stream_free_def stream_stop_def mux_sched_delay_remove_def stream_set_state_def
        stream_release_buffers_def Let_def case_prod_beta)
  moreover have "lp_sub {} ss (sched_remove_stream i ss)"
    by (auto simp: sched_remove_stream_def Let_def lp_sub_same split: option.split
        intro!: lp_sub_trans [OF lp_sub_same lp_sub_ended [OF check_no_active_ended]])
  ultimately show ?thesis
    by (simp add: lp_sub_def)
qed

section \<open>A round\<close>

text \<open>The session after the round that serves \<open>i\<close>.\<close>

definition drain_next :: "u16 \<Rightarrow> mux_session \<Rightarrow> mux_session" where
  "drain_next i ss =
    (let a = lp_pop i ss in
     if s_state (stm a i) = STREAM_CLOSED
     then (if mux_stream_app_held (stm a i) then a else mux_stream_free (sched_remove_stream i a, stm a i))
     else if s_state (stm a i) = STREAM_INIT
     then let a = sched_send_syn i a in if s_state (stm a i) = STREAM_INIT then mux_stream_abort_unopened i a else a
     else a)"

lemma drain_round:
  assumes "lpq ss = i # q"
  shows "drain_lp_loop (Suc fuel) ss =
    (if s_state (stm ss i) = STREAM_INIT \<and> head_in_flight ss then ss
     else if s_state (stm (lp_pop i ss) i) = STREAM_INIT \<and> sendbuf (wire (drain_next i ss)) \<noteq> []
       \<and> \<not> sendbuf_staging (wire (drain_next i ss)) then drain_next i ss
     else drain_lp_loop fuel (drain_next i ss))"
  unfolding drain_lp_loop.simps [of "Suc fuel" ss] drain_next_def assms prod.case nat.case list.case Let_def by simp

text \<open>The rounds the queue has left: two for a stream that is not open yet, one for a closed one.\<close>

definition rounds :: "stream_state \<Rightarrow> nat" where
  "rounds st = (if st = STREAM_INIT then 2 else 1)"

definition lp_rounds :: "mux_session \<Rightarrow> nat" where
  "lp_rounds ss = (\<Sum>i\<in>set (lpq ss). rounds (s_state (stm ss i)))"

lemma outcomes_rounds: "st' \<in> outcomes b c st \<Longrightarrow> rounds st' \<le> rounds st"
  by (cases c; cases st) (auto simp: rounds_def outcomes_def split: if_splits)

lemma lp_rounds_bound: "sched_inv ss \<Longrightarrow> lp_rounds ss \<le> 2 * length (lpq ss)"
proof -
  assume "sched_inv ss"
  then have "card (set (lpq ss)) = length (lpq ss)"
    by (simp add: sched_inv_def distinct_card)
  moreover have "lp_rounds ss \<le> of_nat (card (set (lpq ss))) * 2"
    unfolding lp_rounds_def by (rule sum_bounded_above) (simp add: rounds_def)
  ultimately show ?thesis
    by simp
qed

lemma lp_rounds_less:
  assumes "good B c ss ss'" "sched_inv ss" "lpq ss = i # q" "lp_sub A (lp_pop i ss) ss'" "A \<subseteq> {i}"
    "A \<noteq> {} \<Longrightarrow> s_state (stm ss i) = STREAM_INIT \<and> s_state (stm ss' i) \<noteq> STREAM_INIT"
  shows "lp_rounds ss' < lp_rounds ss"
proof -
  have i: "i \<notin> set q"
    using assms(2,3) by (simp add: sched_inv_def)
  have le: "rounds (s_state (stm ss' j)) \<le> rounds (s_state (stm ss j))" for j
  proof (cases "down ss'")
    case True
    then show ?thesis
      using down_empty [of ss' j] by (simp add: rounds_def)
  next
    case False
    then show ?thesis
      using assms(1,2) by (auto simp: good_def intro: outcomes_rounds)
  qed
  have sub: "set (lpq ss') \<subseteq> A \<union> set q"
    using assms(3,4) by (simp add: lp_sub_def lp_pop_def)
  have fA: "finite A" "A \<inter> set q = {}"
    using assms(5) i by (auto intro: finite_subset)
  have "lp_rounds ss' \<le> (\<Sum>j\<in>A \<union> set q. rounds (s_state (stm ss' j)))"
    unfolding lp_rounds_def using sub fA by (intro sum_mono2) simp_all
  also have "\<dots> = (\<Sum>j\<in>A. rounds (s_state (stm ss' j))) + (\<Sum>j\<in>set q. rounds (s_state (stm ss' j)))"
    using fA by (intro sum.union_disjoint) simp_all
  also have "\<dots> < rounds (s_state (stm ss i)) + (\<Sum>j\<in>set q. rounds (s_state (stm ss j)))"
  proof (rule add_less_le_mono)
    show "(\<Sum>j\<in>A. rounds (s_state (stm ss' j))) < rounds (s_state (stm ss i))"
      using assms(5,6) by (cases "A = {}") (auto simp: rounds_def subset_singleton_iff)
    show "(\<Sum>j\<in>set q. rounds (s_state (stm ss' j))) \<le> (\<Sum>j\<in>set q. rounds (s_state (stm ss j)))"
      by (rule sum_mono) (rule le)
  qed
  also have "\<dots> = lp_rounds ss"
    using i by (simp add: lp_rounds_def assms(3))
  finally show ?thesis .
qed

lemma drain_next_facts:
  assumes inv: "sched_inv ss" and q: "lpq ss = i # q"
  shows "good {i} By_syn_out ss (drain_next i ss)" "lp_rounds (drain_next i ss) < lp_rounds ss"
proof -
  define a where "a = lp_pop i ss"
  note t = lp_pop_tame [OF inv q, folded a_def]
  have k: "i \<in> keys a" "s_sched_queue (stm a i) = SCHED_QUEUE_NONE" "\<not> is_tomb (stm a i)"
    and st: "s_state (stm a i) = s_state (stm ss i)"
    using t tameD(2,3) [OF t(1)] by simp_all
  consider (closed) "is_closed (stm a i)" | (init) "s_state (stm a i) = STREAM_INIT"
    | (other) "drain_next i ss = a"
    by (cases "is_closed (stm a i)"; cases "s_state (stm a i) = STREAM_INIT") (simp_all add: drain_next_def a_def Let_def)
  then have "good {i} By_syn_out ss (drain_next i ss) \<and> lp_rounds (drain_next i ss) < lp_rounds ss"
  proof cases
    case closed
    then have e: "drain_next i ss = (if mux_stream_app_held (stm a i) then a else mux_stream_free (sched_remove_stream i a, stm a i))"
      by (simp add: drain_next_def a_def Let_def)
    have g: "good {i} By_syn_out ss (drain_next i ss)"
      using tame_good [OF t(1) remove_free_good [OF closed k(2,3,1)]] good_tame [OF t(1)] by (simp add: e)
    have "lp_sub {} a (drain_next i ss)"
      using lpq_remove_free lp_sub_same by (simp add: e)
    then show ?thesis
      using g lp_rounds_less [OF g inv q] by (simp add: a_def)
  next
    case init
    define c where "c = sched_send_syn i a"
    have e: "drain_next i ss = (if s_state (stm c i) = STREAM_INIT then mux_stream_abort_unopened i c else c)"
      using init by (simp add: drain_next_def a_def c_def Let_def)
    have c: "good {i} By_syn_out ss c" "lp_sub {i} a c"
      using init k lpq_send_syn [OF init] by (simp_all add: c_def tame_good [OF t(1) send_syn_good] lp_sub_same)
    have g: "good {i} By_syn_out ss (drain_next i ss)"
      using c(1) good_trans [OF c(1) good_close [OF abort_unopened_good]] by (simp add: e)
    have "s_state (stm (drain_next i ss) i) \<noteq> STREAM_INIT"
      by (simp add: e mux_stream_abort_unopened_def)
    moreover have "lp_sub {i} a (drain_next i ss)"
      using c(2) lp_sub_trans [OF c(2) lp_sub_abort_unopened] by (simp add: e)
    ultimately show ?thesis
      using g lp_rounds_less [OF g inv q] init st by (simp add: a_def)
  next
    case other
    have g: "good {i} By_syn_out ss (drain_next i ss)"
      using good_tame [OF t(1)] by (simp add: other)
    then show ?thesis
      using lp_rounds_less [OF g inv q, of "{}"] lp_sub_same [of "drain_next i ss" a] by (simp add: other a_def)
  qed
  then show "good {i} By_syn_out ss (drain_next i ss)" "lp_rounds (drain_next i ss) < lp_rounds ss"
    by simp_all
qed

section \<open>The loop\<close>

lemma drain_enough:
  assumes "sched_inv ss" "lp_rounds ss \<le> fuel"
  shows "drain_lp_loop (fuel + k) ss = drain_lp_loop fuel ss
    \<and> (lpq (drain_lp_loop fuel ss) = [] \<or> sendbuf (wire (drain_lp_loop fuel ss)) \<noteq> [])"
  using assms
proof (induction fuel arbitrary: ss)
  case 0
  then have "lpq ss = []"
    by (simp add: lp_rounds_def rounds_def sum_eq_0_iff split: if_splits)
  then show ?case
    by (cases k) (simp_all add: drain_lp_loop.simps)
next
  case (Suc fuel)
  show ?case
  proof (cases "lpq ss")
    case Nil
    then show ?thesis
      by (simp add: drain_lp_loop.simps)
  next
    case (Cons i q)
    note n = drain_next_facts [OF Suc.prems(1) Cons]
    have "sched_inv (drain_next i ss)" "lp_rounds (drain_next i ss) \<le> fuel"
      using n Suc.prems by (simp_all add: good_def)
    note IH = Suc.IH [OF this]
    then show ?thesis
      unfolding add_Suc drain_round [OF Cons] by (auto simp: head_in_flight_def split: list.splits)
  qed
qed

text \<open>C27. Draining the lifecycle queue returns: twice as many rounds as streams are queued suffice, and
  further rounds would change nothing.  It stops only when the queue is empty or a frame is
  waiting for the wire.\<close>

theorem mux_sched_drain_lp_terminates:
  assumes "sched_inv ss" "2 * length (lp_fifo (sched ss)) \<le> fuel"
  shows "drain_lp_loop fuel ss = drain_lp_loop (2 * length (lp_fifo (sched ss))) ss
    \<and> (ss_state ss = SESSION_ESTABLISHED \<longrightarrow>
        lp_fifo (sched (mux_sched_drain_lp ss)) = [] \<or> sendbuf (wire (mux_sched_drain_lp ss)) \<noteq> [])"
proof -
  let ?n = "2 * length (lpq ss)"
  note d = drain_enough [OF assms(1) lp_rounds_bound [OF assms(1)], of "fuel - ?n"]
  have "lpq (set_tx_pending r) = lpq r" "sendbuf (wire (set_tx_pending r)) = sendbuf (wire r)" for r
    by (simp_all add: set_tx_pending_def)
  then show ?thesis
    using d assms(2) by (simp add: mux_sched_drain_lp_def Let_def)
qed

text \<open>Two streams to open and a wire that takes their \<open>SYN\<close>s.\<close>

definition sample_opening :: mux_session where
  "sample_opening = sample_session\<lparr>ss_state := SESSION_ESTABLISHED, max_payload := 16384,
    sched := zero_sched\<lparr>streams := Some [(1, zero_stream\<lparr>s_id := 1, s_sched_queue := SCHED_QUEUE_LP\<rparr>),
      (3, zero_stream\<lparr>s_id := 3, s_sched_queue := SCHED_QUEUE_LP\<rparr>)], lp_fifo := [1, 3]\<rparr>\<rparr>"

lemma sample_opening_inv: "sched_inv sample_opening" "lpq sample_opening = [1, 3]" "ss_state sample_opening = SESSION_ESTABLISHED"
  by (auto simp: sample_opening_def sched_inv_def tab_def keys_def stm_def linked_def zero_sched_def zero_stream_def zero_timer_def
      dead_stream_def sample_session_def zero_session_def)

theorem mux_sched_drain_lp_terminates_witness:
  "drain_lp_loop 100 sample_opening = drain_lp_loop 4 sample_opening
    \<and> (lp_fifo (sched (mux_sched_drain_lp sample_opening)) = [] \<or> 0 < length (sendbuf (wire (mux_sched_drain_lp sample_opening))))"
  using mux_sched_drain_lp_terminates [OF sample_opening_inv(1), of 100] sample_opening_inv(2,3) by simp

end
