(* ===== verification/Suspend.thy ===== *)
theory Suspend
  imports Sched_Inv
begin

text \<open>
  The loss of a transport (\<^verbatim>\<open>mux/session.c\<close>): a session that has negotiated a
  session ID keeps its streams, files what it had queued for the wire in the retransmit
  log and waits for the peer to come back; any other session is reset.
\<close>

section \<open>Filing the send queues\<close>

text \<open>The list is detached before the loop, so a reset in its course finds it empty.\<close>

fun capture_loop :: "mux_frame list \<Rightarrow> mux_session \<Rightarrow> mux_session" where
  "capture_loop [] ss = ss"
| "capture_loop (frame # captured) ss =
    capture_loop captured
      (if ss_state ss = SESSION_CLOSED \<or> retransmit_copy (unacked ss) = Some (f_addr frame)
       then pool_put frame ss else mux_unacked_track_sent ss frame)"

definition session_capture_sendbuf :: "mux_session \<Rightarrow> mux_session" where
  "session_capture_sendbuf ss =
    capture_loop (sendbuf (wire ss)) (ss\<lparr>wire := (wire ss)\<lparr>sendbuf := []\<rparr>\<rparr>)"

definition session_capture_oobbuf :: "mux_session \<Rightarrow> mux_session" where
  "session_capture_oobbuf ss =
    capture_loop (oobbuf (wire ss)) (ss\<lparr>wire := (wire ss)\<lparr>oobbuf := []\<rparr>\<rparr>)"

definition session_capture_and_discard :: "mux_session \<Rightarrow> bool \<times> mux_session" where
  "session_capture_and_discard ss =
    (let ss = mux_wire_discard_buffers (session_capture_oobbuf (session_capture_sendbuf ss))
     in (ss_state ss \<noteq> SESSION_CLOSED, ss))"

section \<open>Suspending\<close>

text \<open>Replay starts at the head of the log, if anything is logged.\<close>

definition rearm_replay :: "unacked_ctx \<Rightarrow> unacked_ctx" where
  "rearm_replay u = unacked_set_replay_off u (if mux_frame_ring_size (u_ring u) > 0 then Some 0 else None)"

text \<open>The transport goes: what is left of \<^verbatim>\<open>mux_session_suspend\<close> once the frames are filed and
  the session is still there.\<close>

definition suspend_transport :: "bool \<Rightarrow> mux_session \<Rightarrow> mux_session" where
  "suspend_transport attempt ss =
    (let ss = ss\<lparr>unacked := rearm_replay (unacked ss)\<rparr>;
         ss = session_stop_timers (ss\<lparr>w_socket := ev_io_stop (w_socket ss)\<rparr>);
         ss = close_socket ss;
         ss = ss\<lparr>wire := (wire ss)\<lparr>recvbuf := bytebuf_reset (recvbuf (wire ss)), rx_open := True, tx_pending := False\<rparr>\<rparr>;
         ss = (if conf_resume_timeout (conf ss) > 0
               then let deadline = fl (suspended_at ss + of_int (conf_resume_timeout (conf ss)));
                        wait = d_minus deadline (os_ev_now (os ss))
                    in ss\<lparr>w_connect_timeout := ev_timer_start (ev_timer_set (w_connect_timeout ss) (max wait 0) 0)\<rparr>
               else ss)
     in session_emit ss (if attempt then session_connect_failed_data ss else MUX_EVENT_SUSPENDED))"

definition mux_session_suspend :: "mux_session \<Rightarrow> mux_session" where
  "mux_session_suspend ss =
    (let attempt = (ss_state ss = SESSION_CONNECT \<or> ss_state ss = SESSION_HANDSHAKE);
         ss = (if attempt then ss else ss\<lparr>suspended_at := os_ev_now (os ss)\<rparr>);
         ss = session_capture_sendbuf (mux_session_set_state ss SESSION_SUSPENDED);
         ss = ss\<lparr>wire := (wire ss)\<lparr>sendbuf_staging := False\<rparr>, unacked := (unacked ss)\<lparr>retransmit_copy := None\<rparr>\<rparr>;
         ss = mux_session_drop_dgrams (session_capture_oobbuf ss)
     in if ss_state ss = SESSION_CLOSED then ss else suspend_transport attempt ss)"

definition mux_session_suspend_or_reset :: "mux_session \<Rightarrow> mux_session" where
  "mux_session_suspend_or_reset ss =
    (if has_session_id (handshake ss) \<and> (ss_state ss = SESSION_ESTABLISHED
        \<or> \<not> accepted ss \<and> (ss_state ss = SESSION_CONNECT \<or> ss_state ss = SESSION_HANDSHAKE))
     then mux_session_suspend ss else mux_session_reset ss)"

section \<open>What filing keeps\<close>

text \<open>The frames of a send-queue entry that go to the log: none of a hello or of the replay copy,
  whose frames are in the log already, and else those of the streams.\<close>

definition filed :: "nat option \<Rightarrow> mux_frame \<Rightarrow> wire_frame list" where
  "filed copy f = (if copy = Some (f_addr f) \<or> h_version (mux_read_header (f_data f)) = 0 then []
    else filter stream_frame (entry_frames f))"

definition fileable :: "mux_frame \<Rightarrow> bool" where
  "fileable f \<longleftrightarrow> f_len f < 2 ^ 32 \<and> (h_version (mux_read_header (f_data f)) = 0 \<or> entry_frames f \<noteq> [])"

definition keeps_session :: "mux_session \<Rightarrow> mux_session \<Rightarrow> bool" where
  "keeps_session ss r \<longleftrightarrow> ss_state r = ss_state ss \<and> heap_ok (heap r) = heap_ok (heap ss) \<and> tab r = tab ss \<and> gauges_ok r = gauges_ok ss
    \<and> wire r = wire ss \<and> w_socket r = w_socket ss \<and> retransmit_copy (unacked r) = retransmit_copy (unacked ss)
    \<and> last_ack_recv (unacked r) = last_ack_recv (unacked ss)"

text \<open>Frame objects \<open>A\<close> carrying the stream frames \<open>fs\<close> are filed: no object is lost, and unless the
  session ended for want of memory the log has grown by exactly those frames.\<close>

definition filing :: "wire_frame list \<Rightarrow> nat multiset \<Rightarrow> mux_session \<Rightarrow> mux_session \<Rightarrow> bool" where
  "filing fs A ss r \<longleftrightarrow> freed r + held r = freed ss + held ss + A
    \<and> (if ss_state r = SESSION_CLOSED then \<exists>n. \<not> heap_ok (heap ss) n
       else keeps_session ss r \<and> unacked_inv (unacked r) \<and> ulog (unacked r) = ulog (unacked ss) @ fs)"

definition filer :: "mux_session \<Rightarrow> bool" where
  "filer ss \<longleftrightarrow> ss_state ss \<noteq> SESSION_CLOSED \<and> unacked_inv (unacked ss) \<and> gauges_ok ss"

lemma filing_trans:
  assumes "filing fs A a b" "filing gs B b c" "ss_state b \<noteq> SESSION_CLOSED"
  shows "filing (fs @ gs) (A + B) a c"
  using assms by (auto simp: filing_def keeps_session_def add.assoc add.commute split: if_splits)

lemma filer_filing: "filer a \<Longrightarrow> filing fs A a b \<Longrightarrow> ss_state b \<noteq> SESSION_CLOSED \<Longrightarrow> filer b"
  by (simp add: filer_def filing_def keeps_session_def)

lemma pool_put_account [simp]:
  "freed (pool_put f ss) = freed ss + {#f_addr f#}" "held (pool_put f ss) = held ss"
  "unacked (pool_put f ss) = unacked ss" "ss_state (pool_put f ss) = ss_state ss" "tab (pool_put f ss) = tab ss"
  "gauges_ok (pool_put f ss) = gauges_ok ss" "heap (pool_put f ss) = heap ss" "wire (pool_put f ss) = wire ss"
  "w_socket (pool_put f ss) = w_socket ss"
  by (simp_all add: pool_put_def mux_frame_put_def freed_def held_def tab_def gauges_ok_def)

lemma filing_put: "filer ss \<Longrightarrow> filing [] {#f_addr f#} ss (pool_put f ss)"
  by (simp add: filing_def keeps_session_def filer_def)

lemma ring_push_heap:
  assumes "mux_frame_ring_push e r x = (ok, r', e')"
  shows "heap_ok e' = heap_ok e" "\<not> ok \<Longrightarrow> \<exists>n. \<not> heap_ok e n"
  using assms
  by (auto simp: mux_frame_ring_push_def ring_push_slot_def mux_frame_ring_new_def mux_frame_ring_grow_def heap_request_def Let_def
      split: option.splits if_splits)

text \<open>An append to the log, or the reset when there is no memory for it.\<close>

lemma filing_push:
  assumes ss: "filer ss" and fs: "\<forall>hp\<in>set fs. frame_ok hp" "list_all stream_frame fs" "fs \<noteq> []"
    "f_data f = encode_frames fs" "f_len f < 2 ^ 32"
  shows "filing fs {#f_addr f#} ss (unacked_push ss f (length fs))"
proof -
  obtain ok rp hp where p: "mux_frame_ring_push (heap ss) (u_ring (unacked ss)) (f\<lparr>f_cursor := length fs\<rparr>) = (ok, rp, hp)"
    by (metis prod_cases3)
  have inv: "unacked_inv (unacked ss)" "gauges_ok ss" "ss_state ss \<noteq> SESSION_CLOSED"
    using ss by (simp_all add: filer_def)
  note h = ring_push_heap [OF p]
  have ri: "ring_inv rp" "\<not> ok \<Longrightarrow> ring_items rp = uitems (unacked ss)"
    using ring_push_refines [OF _ p] inv(1) by (simp_all add: unacked_inv_def log_ok_def)
  show ?thesis
  proof (cases ok)
    case True
    define r where "r = unacked_push ss f (length fs)"
    have ok: "fst (unacked_ring_push ss f (length fs))"
      using p True by (simp add: unacked_ring_push_def Let_def)
    note sp = unacked_push_spec [OF inv(1) fs ok, folded r_def]
    have r: "tab r = tab ss" "heap r = hp" "w_socket r = w_socket ss" "gauges_ok r = gauges_ok ss"
      by (simp_all add: r_def unacked_push_def unacked_ring_push_def p True tab_def gauges_ok_def)
    have "keeps_session ss r"
      unfolding keeps_session_def using sp r h(1) by simp
    moreover have "freed r + held r = freed ss + held ss + {#f_addr f#}"
      by (simp add: freed_def held_def sp r(1) addrs_def)
    ultimately show ?thesis
      using sp inv(3) by (simp add: filing_def flip: r_def)
  next
    case False
    define a where "a = pool_put f (snd (unacked_ring_push ss f (length fs)))"
    have e: "unacked_push ss f (length fs) = mux_session_reset a"
      using p False by (simp add: unacked_push_def unacked_ring_push_def a_def)
    have a: "u_ring (unacked a) = rp" "ss_state a = ss_state ss" "gauges_ok a" "freed a = freed ss + {#f_addr f#}" "held a = held ss"
      using p False inv(2) ri(2)
      by (simp_all add: a_def unacked_ring_push_def) (simp_all add: gauges_ok_def freed_def held_def tab_def)
    note rf = reset_facts [of a, unfolded a, OF ri(1) a(3)] 
    show ?thesis
      using rf inv(3) h(2) [OF False] by (simp add: filing_def e torn_down_def)
  qed
qed

lemma filing_track:
  assumes "filer ss" "fileable f" "retransmit_copy (unacked ss) \<noteq> Some (f_addr f)"
  shows "filing (filed (retransmit_copy (unacked ss)) f) {#f_addr f#} ss (mux_unacked_track_sent ss f)"
proof (cases "h_version (mux_read_header (f_data f)) = 0")
  case True
  then show ?thesis
    using filing_put [OF assms(1)] by (simp add: filed_def mux_unacked_track_sent_def Let_def)
next
  case False
  then obtain hp fs where s: "subframes (f_data f) = Some (hp # fs)"
    using assms(2) by (auto simp: fileable_def entry_frames_def neq_Nil_conv split: option.splits)
  note d = subframes_SomeD [OF s]
  have "f_data f = encode_frame hp @ encode_frames fs" "frame_ok hp"
    using d by simp_all
  then have v: "h_version (fst hp) \<noteq> 0"
    using False by simp
  define kept where "kept = filter stream_frame (hp # fs)"
  have "length (encode_frames (filter stream_frame xs)) \<le> length (encode_frames xs)" for xs
    by (induction xs) auto
  then have "length (encode_frames kept) < 2 ^ 32"
    using d assms(2) by (metis fileable_def kept_def le_less_trans)
  moreover have "\<forall>hp\<in>set kept. frame_ok hp" "list_all stream_frame kept"
    using d by (auto simp: kept_def list_all_iff)
  moreover have "filed (retransmit_copy (unacked ss)) f = kept"
    using False assms(3) by (auto simp: filed_def kept_def entry_frames_def s)
  ultimately show ?thesis
    using filing_push [OF assms(1), of kept "f\<lparr>f_data := encode_frames kept\<rparr>"] filing_put [OF assms(1), of f]
    by (simp add: track_sent_eq [OF s v assms(3), folded kept_def])
qed

lemma capture_closed:
  assumes "ss_state ss = SESSION_CLOSED"
  shows "ss_state (capture_loop q ss) = SESSION_CLOSED"
    "freed (capture_loop q ss) + held (capture_loop q ss) = freed ss + held ss + addrs q"
  using assms by (induction q arbitrary: ss) (simp_all add: addrs_def)

lemma capture_filing:
  assumes "filer ss" "list_all fileable q"
  shows "filing (concat (map (filed (retransmit_copy (unacked ss))) q)) (addrs q) ss (capture_loop q ss)"
  using assms
proof (induction q arbitrary: ss)
  case Nil
  then show ?case
    by (simp add: filing_def keeps_session_def filer_def addrs_def)
next
  case (Cons f q)
  define copy where "copy = retransmit_copy (unacked ss)"
  define a where "a = (if ss_state ss = SESSION_CLOSED \<or> copy = Some (f_addr f) then pool_put f ss else mux_unacked_track_sent ss f)"
  have e: "capture_loop (f # q) ss = capture_loop q a"
    by (simp add: a_def copy_def)
  have open': "ss_state ss \<noteq> SESSION_CLOSED"
    using Cons.prems(1) by (simp add: filer_def)
  have a: "filing (filed copy f) {#f_addr f#} ss a"
    using filing_track [OF Cons.prems(1)] filing_put [OF Cons.prems(1)] Cons.prems(2) open'
    by (auto simp: a_def copy_def filed_def)
  have m: "addrs (f # q) = {#f_addr f#} + addrs q"
    by (simp add: addrs_def)
  show ?case
  proof (cases "ss_state a = SESSION_CLOSED")
    case True
    then show ?thesis
      using a capture_closed [OF True, of q] by (simp add: filing_def e m del: capture_loop.simps)
  next
    case False
    then have "retransmit_copy (unacked a) = copy"
      using a by (simp add: filing_def keeps_session_def copy_def)
    then show ?thesis
      using filing_trans [OF a Cons.IH [OF filer_filing [OF Cons.prems(1) a False]] False] Cons.prems(2)
      by (simp add: e m copy_def del: capture_loop.simps)
  qed
qed

text \<open>Filing one of the queues.\<close>

lemma filer_wire [simp]: "filer (ss\<lparr>wire := w\<rparr>) = filer ss"
  by (simp add: filer_def gauges_ok_def tab_def)

lemma capture_queue:
  assumes "filer ss" "list_all fileable q" "held ss = held (ss\<lparr>wire := w\<rparr>) + addrs q"
  defines "r \<equiv> capture_loop q (ss\<lparr>wire := w\<rparr>)"
  shows "freed r + held r = freed ss + held ss"
    "if ss_state r = SESSION_CLOSED then \<exists>n. \<not> heap_ok (heap ss) n
     else filer r \<and> ss_state r = ss_state ss \<and> heap_ok (heap r) = heap_ok (heap ss) \<and> tab r = tab ss \<and> wire r = w
       \<and> w_socket r = w_socket ss \<and> retransmit_copy (unacked r) = retransmit_copy (unacked ss)
       \<and> last_ack_recv (unacked r) = last_ack_recv (unacked ss)
       \<and> ulog (unacked r) = ulog (unacked ss) @ concat (map (filed (retransmit_copy (unacked ss))) q)"
proof -
  let ?a = "ss\<lparr>wire := w\<rparr>"
  have g: "filer ?a" "freed ?a = freed ss" "gauges_ok ?a = gauges_ok ss" "tab ?a = tab ss"
    using assms(1) by (simp_all add: freed_def gauges_ok_def tab_def)
  note f = capture_filing [OF g(1) assms(2), folded r_def]
  then show "freed r + held r = freed ss + held ss"
    using assms(3) g(2) by (simp add: filing_def)
  show "if ss_state r = SESSION_CLOSED then \<exists>n. \<not> heap_ok (heap ss) n
     else filer r \<and> ss_state r = ss_state ss \<and> heap_ok (heap r) = heap_ok (heap ss) \<and> tab r = tab ss \<and> wire r = w
       \<and> w_socket r = w_socket ss \<and> retransmit_copy (unacked r) = retransmit_copy (unacked ss)
       \<and> last_ack_recv (unacked r) = last_ack_recv (unacked ss)
       \<and> ulog (unacked r) = ulog (unacked ss) @ concat (map (filed (retransmit_copy (unacked ss))) q)"
    using f filer_filing [OF g(1) f] g(4) by (simp add: filing_def keeps_session_def split: if_splits)
qed

lemma unacked_inv_no_copy: "unacked_inv u \<Longrightarrow> unacked_inv (u\<lparr>retransmit_copy := None\<rparr>)"
  by (auto simp: unacked_inv_def log_ok_def ulog_def replay_ok_def split: option.splits)

lemma rearm_replay_inv:
  assumes "unacked_inv u" "retransmit_copy u = None"
  shows "unacked_inv (rearm_replay u)" "ulog (rearm_replay u) = ulog u" "delivered (rearm_replay u) = 0"
    "retransmit_off (rearm_replay u) = (if ulog u = [] then None else Some 0)"
    "last_ack_recv (rearm_replay u) = last_ack_recv u" "uitems (rearm_replay u) = uitems u"
proof -
  have "ulog u = [] \<longleftrightarrow> uitems u = []"
    using assms entry_parts(5) by (cases "uitems u") (auto simp: unacked_inv_def log_ok_def ulog_def)
  then show "unacked_inv (rearm_replay u)" "ulog (rearm_replay u) = ulog u" "delivered (rearm_replay u) = 0"
    "retransmit_off (rearm_replay u) = (if ulog u = [] then None else Some 0)"
    "last_ack_recv (rearm_replay u) = last_ack_recv u" "uitems (rearm_replay u) = uitems u"
    using assms
    by (simp_all add: rearm_replay_def unacked_set_replay_off_def ring_size_items unacked_inv_def replay_ok_def delivered_def)
qed

section \<open>What a suspended session keeps\<close>

lemma drop_dgrams_facts:
  defines "d \<equiv> \<lambda>frame ss. pool_put frame (if dgram_frame_is_push frame then counter_add pkt_dgram_dropped 1 ss else ss)"
  shows "ss_state (fold d q ss) = ss_state ss" "wire (fold d q ss) = wire ss" "unacked (fold d q ss) = unacked ss"
    "tab (fold d q ss) = tab ss" "w_socket (fold d q ss) = w_socket ss" "heap (fold d q ss) = heap ss"
    "freed (fold d q ss) = freed ss + addrs q"
proof -
  have "ss_state (d f ss) = ss_state ss" "wire (d f ss) = wire ss" "unacked (d f ss) = unacked ss"
    "tab (d f ss) = tab ss" "w_socket (d f ss) = w_socket ss" "heap (d f ss) = heap ss"
    "freed (d f ss) = freed ss + {#f_addr f#}" for f ss
    by (simp_all add: d_def)
  then show "ss_state (fold d q ss) = ss_state ss" "wire (fold d q ss) = wire ss" "unacked (fold d q ss) = unacked ss"
    "tab (fold d q ss) = tab ss" "w_socket (fold d q ss) = w_socket ss" "heap (fold d q ss) = heap ss"
    "freed (fold d q ss) = freed ss + addrs q"
    by (induction q arbitrary: ss) (simp_all add: addrs_def)
qed

lemma drop_dgrams_account:
  "freed (mux_session_drop_dgrams ss) + held (mux_session_drop_dgrams ss) = freed ss + held ss"
  "ss_state (mux_session_drop_dgrams ss) = ss_state ss" "unacked (mux_session_drop_dgrams ss) = unacked ss"
  "tab (mux_session_drop_dgrams ss) = tab ss" "wire (mux_session_drop_dgrams ss) = (wire ss)\<lparr>dgrambuf := []\<rparr>"
  "w_socket (mux_session_drop_dgrams ss) = w_socket ss"
  by (simp_all add: mux_session_drop_dgrams_def Let_def drop_dgrams_facts held_def)
    (simp_all add: freed_def tab_def addrs_def)

lemma suspend_transport_facts:
  fixes ss :: mux_session and attempt :: bool
  defines "r \<equiv> suspend_transport attempt ss"
  shows "unacked r = rearm_replay (unacked ss)" "ss_state r = ss_state ss" "tab r = tab ss" "freed r = freed ss"
    "sendbuf (wire r) = sendbuf (wire ss)" "oobbuf (wire r) = oobbuf (wire ss)" "dgrambuf (wire r) = dgrambuf (wire ss)"
    "io_fd (w_socket r) = - 1"
  by (simp_all add: r_def suspend_transport_def Let_def session_stop_timers_def session_emit_def put_out_def close_socket_def
      ev_io_stop_def tab_def freed_def)

text \<open>Both queues, with the replay copy forgotten in between.\<close>

lemma capture_both:
  assumes "filer a" "list_all fileable (sendbuf (wire a) @ oobbuf (wire a))"
  defines "b \<equiv> session_capture_sendbuf a"
  defines "c \<equiv> b\<lparr>wire := (wire b)\<lparr>sendbuf_staging := False\<rparr>, unacked := (unacked b)\<lparr>retransmit_copy := None\<rparr>\<rparr>"
  defines "d \<equiv> session_capture_oobbuf c"
  shows "freed d + held d = freed a + held a" (is ?account)
    "if ss_state d = SESSION_CLOSED then \<exists>n. \<not> heap_ok (heap a) n
     else filer d \<and> ss_state d = ss_state a \<and> tab d = tab a \<and> sendbuf (wire d) = [] \<and> oobbuf (wire d) = []
       \<and> retransmit_copy (unacked d) = None \<and> last_ack_recv (unacked d) = last_ack_recv (unacked a)
       \<and> ulog (unacked d) = ulog (unacked a) @ concat (map (filed (retransmit_copy (unacked a))) (sendbuf (wire a)))
           @ concat (map (filed None) (oobbuf (wire a)))" (is ?log)
proof -
  have "held a = held (a\<lparr>wire := (wire a)\<lparr>sendbuf := []\<rparr>\<rparr>) + addrs (sendbuf (wire a))"
    by (simp add: held_def tab_def addrs_def)
  note b = capture_queue [OF assms(1) _ this, folded session_capture_sendbuf_def, folded b_def]
  have fb: "freed b + held b = freed a + held a"
    using b(1) assms(2) by simp
  have c: "freed c = freed b" "held c = held b" "tab c = tab b" "filer b \<Longrightarrow> filer c" "ulog (unacked c) = ulog (unacked b)"
    using unacked_inv_no_copy [of "unacked b"]
    by (simp_all add: c_def freed_def held_def tab_def filer_def gauges_ok_def ulog_def)
  have cs: "ss_state c = ss_state b" "heap c = heap b" "retransmit_copy (unacked c) = None"
    "last_ack_recv (unacked c) = last_ack_recv (unacked b)" "wire c = (wire b)\<lparr>sendbuf_staging := False\<rparr>"
    by (simp_all add: c_def)
  have h: "held c = held (c\<lparr>wire := (wire c)\<lparr>oobbuf := []\<rparr>\<rparr>) + addrs (oobbuf (wire c))"
    by (simp add: held_def tab_def addrs_def)
  have "?account \<and> ?log"
  proof (cases "ss_state b = SESSION_CLOSED")
    case True
    then have "ss_state d = SESSION_CLOSED" "freed d + held d = freed b + held b"
      using capture_closed [of "c\<lparr>wire := (wire c)\<lparr>oobbuf := []\<rparr>\<rparr>" "oobbuf (wire c)"] h c(1,2)
      by (simp_all add: d_def session_capture_oobbuf_def cs freed_def)
    then show ?thesis
      using fb b(2) assms(2) True by simp
  next
    case False
    have bs: "filer b" "ss_state b = ss_state a" "heap_ok (heap b) = heap_ok (heap a)" "tab b = tab a"
      "wire b = (wire a)\<lparr>sendbuf := []\<rparr>" "last_ack_recv (unacked b) = last_ack_recv (unacked a)"
      "ulog (unacked b) = ulog (unacked a) @ concat (map (filed (retransmit_copy (unacked a))) (sendbuf (wire a)))"
      using b(2) False assms(2) by simp_all
    note d = capture_queue [OF c(4) _ h, folded session_capture_oobbuf_def, folded d_def, OF bs(1)]
    have "?account"
      using d(1) assms(2) fb by (simp add: c cs bs)
    moreover have "?log"
      using d(2) assms(2) by (simp add: c cs bs split: if_splits)
    ultimately show ?thesis ..
  qed
  then show ?account ?log
    by blast+
qed

text \<open>C5. Losing the transport loses no stream and no stream frame.  Unless the session ends
  because the log cannot grow, it is suspended with its streams untouched and the socket closed,
  the send queues are empty, and the log has grown by exactly the stream frames that were waiting
  for the wire, in order and without the replay copy; none of the log counts as delivered on the
  next transport, and its replay starts at the head.  Every frame object is still held or
  back in the pool.\<close>

theorem mux_session_suspend_keeps:
  assumes "unacked_inv (unacked ss)" "gauges_ok ss" "list_all fileable (sendbuf (wire ss) @ oobbuf (wire ss))"
    "ss_state ss = SESSION_ESTABLISHED \<or> ss_state ss = SESSION_CONNECT \<or> ss_state ss = SESSION_HANDSHAKE"
  defines "r \<equiv> mux_session_suspend ss"
  shows "freed r + held r = freed ss + held ss
    \<and> (if ss_state r = SESSION_CLOSED then \<exists>n. \<not> heap_ok (heap ss) n
       else ss_state r = SESSION_SUSPENDED \<and> tab r = tab ss \<and> io_fd (w_socket r) = - 1
        \<and> sendbuf (wire r) = [] \<and> oobbuf (wire r) = [] \<and> dgrambuf (wire r) = []
        \<and> unacked_inv (unacked r) \<and> last_ack_recv (unacked r) = last_ack_recv (unacked ss)
        \<and> ulog (unacked r) = ulog (unacked ss) @ concat (map (filed (retransmit_copy (unacked ss))) (sendbuf (wire ss)))
            @ concat (map (filed None) (oobbuf (wire ss)))
        \<and> retransmit_off (unacked r) = (if ulog (unacked r) = [] then None else Some 0) \<and> delivered (unacked r) = 0)"
proof -
  define attempt where "attempt = (ss_state ss = SESSION_CONNECT \<or> ss_state ss = SESSION_HANDSHAKE)"
  define a where "a = mux_session_set_state (if attempt then ss else ss\<lparr>suspended_at := os_ev_now (os ss)\<rparr>) SESSION_SUSPENDED"
  define b where "b = session_capture_sendbuf a"
  define c where "c = b\<lparr>wire := (wire b)\<lparr>sendbuf_staging := False\<rparr>, unacked := (unacked b)\<lparr>retransmit_copy := None\<rparr>\<rparr>"
  define d where "d = session_capture_oobbuf c"
  define e where "e = mux_session_drop_dgrams d"
  have r: "r = (if ss_state e = SESSION_CLOSED then e else suspend_transport attempt e)"
    unfolding r_def mux_session_suspend_def Let_def attempt_def a_def b_def c_def d_def e_def by (rule refl)
  have u: "tab (ss\<lparr>suspended_at := t\<rparr>) = tab ss" "freed (ss\<lparr>suspended_at := t\<rparr>) = freed ss"
    "held (ss\<lparr>suspended_at := t\<rparr>) = held ss" for t
    by (simp_all add: tab_def freed_def held_def)
  have a: "filer a" "ss_state a = SESSION_SUSPENDED" "tab a = tab ss" "wire a = wire ss" "unacked a = unacked ss"
    "freed a = freed ss" "held a = held ss"
    using assms(1,2) by (simp_all add: a_def filer_def gauges_ok_def u)
  have h: "heap a = heap ss"
    by (simp add: a_def mux_session_set_state_def Let_def session_stop_timers_def mux_estimator_suspend_def)
  note d = capture_both [OF a(1), folded b_def, folded c_def, folded d_def, unfolded a h, OF assms(3)]
  note e = drop_dgrams_account [of d, folded e_def]
  note t = suspend_transport_facts [of attempt e]
  show ?thesis
  proof (cases "ss_state d = SESSION_CLOSED")
    case True
    then show ?thesis
      using d e by (simp add: r)
  next
    case False
    then have l: "filer d" "ss_state d = SESSION_SUSPENDED" "tab d = tab ss" "sendbuf (wire d) = []" "oobbuf (wire d) = []"
      "retransmit_copy (unacked d) = None" "last_ack_recv (unacked d) = last_ack_recv (unacked ss)"
      "ulog (unacked d) = ulog (unacked ss) @ concat (map (filed (retransmit_copy (unacked ss))) (sendbuf (wire ss)))
        @ concat (map (filed None) (oobbuf (wire ss)))"
      using d(2) by simp_all
    have re: "r = suspend_transport attempt e"
      using l(2) e(2) by (simp add: r)
    note i = rearm_replay_inv [of "unacked d", OF _ l(6)]
    have inv: "unacked_inv (unacked d)"
      using l(1) by (simp add: filer_def)
    have "held r = held e"
      by (simp add: re held_def t e(3) i(6) [OF inv])
    then show ?thesis
      using d(1) e(1) i(1-5) [OF inv] l by (simp add: re t e)
  qed
qed

section \<open>Examples\<close>

text \<open>A session that loses its transport with one entry on the send queue.\<close>

definition sample_live :: mux_session where
  "sample_live = sample_fresh\<lparr>ss_state := SESSION_ESTABLISHED, wire := (wire sample_fresh)\<lparr>sendbuf := [sample_entry], oobbuf := []\<rparr>\<rparr>"

lemma sample_filed: "fileable sample_entry" "filed copy sample_entry = (if copy = Some 5 then [] else sample_kept)"
proof -
  let ?fs = "[(sample_hdr 8 3 1, [1, 2, 3]), (sample_hdr 16 0 0, []), (sample_hdr 4 0 3, [])]"
  have "subframes (f_data sample_entry) = Some ?fs"
    using subframes_encode_append [of ?fs "[]"] by (simp add: sample_entry_def sample_frame_def frame_ok_def sample_hdr_def)
  then have e: "entry_frames sample_entry = ?fs"
    by (simp add: entry_frames_def)
  have h: "h_version (mux_read_header (f_data sample_entry)) = 1"
    by (simp add: sample_entry_def sample_frame_def frame_ok_def sample_hdr_def)
  show "fileable sample_entry"
    by (simp add: fileable_def e h) (simp add: sample_entry_def sample_frame_def sample_hdr_def MUX_FRAME_HEADER_SIZE_def)
  show "filed copy sample_entry = (if copy = Some 5 then [] else sample_kept)"
    unfolding filed_def e h
    by (simp add: stream_frame_def STREAMID_CTRL_def sample_hdr_def sample_kept_def) (simp add: sample_entry_def sample_frame_def)
qed

theorem mux_session_suspend_keeps_witness:
  "ss_state (mux_session_suspend sample_live) = SESSION_SUSPENDED
    \<and> ulog (unacked (mux_session_suspend sample_live)) = sample_kept
    \<and> retransmit_off (unacked (mux_session_suspend sample_live)) = Some 0"
proof -
  have l: "unacked_inv (unacked sample_live)" "ulog (unacked sample_live) = []" "retransmit_copy (unacked sample_live) = None"
    using sample_fresh_facts by (simp_all add: sample_live_def)
  have "gauges_ok sample_live" "heap_ok (heap sample_live) = (\<lambda>_. True)" "ss_state sample_live = SESSION_ESTABLISHED"
    "sendbuf (wire sample_live) = [sample_entry]" "oobbuf (wire sample_live) = []"
    by (simp_all add: sample_live_def sample_fresh_def sample_session_def zero_session_def gauges_ok_def tab_def zero_sched_def sample_heap_def)
  moreover have "sample_kept \<noteq> []"
    by (simp add: sample_kept_def)
  ultimately show ?thesis
    using mux_session_suspend_keeps [of sample_live] l sample_filed(1) by (simp add: sample_filed(2) split: if_splits)
qed

end
