(* ===== verification/Lifecycle.thy ===== *)
theory Lifecycle
  imports Suspend
begin

text \<open>
  The stream table and the scheduler under any interleaving of the events that drive them: what
  the peer sends, what the application and the local sockets do, what the timers and the send
  path do, and the end of the session.
\<close>

section \<open>Events\<close>

text \<open>What happens to the session: the table is created; a stream is created, actively or for the peer's
  \<open>SYN\<close>; the peer answers a \<open>SYN\<close>, sends data, credit, a \<open>FIN\<close> or a \<open>RST\<close>; the local side is flushed,
  attached, shut down or closed; a stream is aborted; the send path sends data and control flags, or
  drains the lifecycle queue; the transport is lost; or something that concerns no stream's state.\<close>

datatype stimulus =
    Table_created
  | Created u16 bool
  | Peer_syn_ack u16
  | Peer_data u16
  | Peer_window u16
  | Peer_fin u16
  | Peer_rst u16
  | Local_flush u16
  | Attached u16
  | Shut u16
  | Closed u16
  | Aborted u16
  | Send
  | Drain
  | Lost
  | Quiet

text \<open>One event.  An event on a stream finds it in the table first; \<open>touch\<close> is a write to fields of a
  stream that are neither its state nor its place in the queues, and \<open>elsewhere\<close> is any work on the
  other parts of the session, which leaves the table and the queues as they are.\<close>

inductive event :: "stimulus \<Rightarrow> mux_session \<Rightarrow> mux_session \<Rightarrow> bool" where
  table: "event Table_created ss (snd (session_new_table ss))"
| create: "mux_stream_new ss i active_open = (Some s, ss1) \<Longrightarrow> mux_sched_add_stream ss1 s = (True, ss2)
    \<Longrightarrow> event (Created i active_open) ss ss2"
| recv_syn_ack: "s_state (stm ss i) = STREAM_SYN_SENT \<Longrightarrow> event (Peer_syn_ack i) ss (mux_stream_start i ss)"
| recv_copy: "i \<in> keys ss \<Longrightarrow> event (Peer_data i) ss (mux_stream_recv_copy i payload ss)"
| recv_window: "i \<in> keys ss \<Longrightarrow> event (Peer_window i) ss (mux_stream_recv_window i n ss)"
| recv_fin: "i \<in> keys ss \<Longrightarrow> event (Peer_fin i) ss (mux_stream_recv_fin i ss)"
| recv_rst: "i \<in> keys ss \<Longrightarrow> event (Peer_rst i) ss (mux_stream_recv_rst i ss)"
| flush_local: "i \<in> keys ss \<Longrightarrow> event (Local_flush i) ss (stream_flush_local i ss)"
| attach_fd: "i \<in> keys ss \<Longrightarrow> event (Attached i) ss (mux_stream_do_attach_fd i fd ss)"
| io_start: "i \<in> keys ss \<Longrightarrow> event (Attached i) ss (snd (mux_stream_do_io_start (Some i) w ss))"
| shutdown: "i \<in> keys ss \<Longrightarrow> event (Shut i) ss (mux_stream_do_shutdown i ss)"
| relinquish: "i \<in> keys ss \<Longrightarrow> event (Closed i) ss (stream_relinquish i ss)"
| abort: "i \<in> keys ss \<Longrightarrow> event (Aborted i) ss (mux_stream_abort i code ss)"
| next_data: "event Send ss (snd (mux_sched_next_data ss))"
| flush_ctrl: "event Send ss (mux_sched_flush_ctrl ss)"
| drain_lp: "event Drain ss (mux_sched_drain_lp ss)"
| reset: "event Lost ss (mux_session_reset ss)"
| suspend: "event Lost ss (mux_session_suspend_or_reset ss)"
| queue_send: "i \<in> keys ss \<Longrightarrow> event Quiet ss (mux_stream_queue_send i frame ss)"
| wake: "i \<in> keys ss \<Longrightarrow> event Quiet ss (mux_sched_wake ss i)"
| touch: "same_links (stm ss i) (f (stm ss i)) \<Longrightarrow> event Quiet ss (upd_stm i f ss)"
| release: "i \<in> keys ss \<Longrightarrow> event Quiet ss (mux_stream_do_release i ss)"
| tombstone: "i \<in> keys ss \<Longrightarrow> t_active (s_tombstone (stm ss i)) \<Longrightarrow> event Quiet ss (tombstone_cb i ss)"
| coalesce: "event Quiet ss (sched_coalesce_cb ss)"
| elsewhere: "links ss' = links ss \<Longrightarrow> event Quiet ss ss'"

abbreviation step :: "mux_session \<Rightarrow> mux_session \<Rightarrow> bool" where
  "step ss ss' \<equiv> \<exists>x. event x ss ss'"

text \<open>The state machine of the protocol (\<^verbatim>\<open>doc/spec.md\<close>, section 4.3): the states a stream may have after
  an event, given its state before.\<close>

fun allowed :: "stimulus \<Rightarrow> u16 \<Rightarrow> stream_state \<Rightarrow> stream_state set" where
  "allowed (Peer_syn_ack i) j st = (if j = i then {STREAM_ESTABLISHED} else {st})"
| "allowed (Peer_data i) j st = (if j = i then {st, STREAM_CLOSED} else {st})"
| "allowed (Peer_window i) j st = (if j = i then {st, STREAM_CLOSED} else {st})"
| "allowed (Peer_fin i) j st =
    (if j \<noteq> i then {st}
     else if st = STREAM_ESTABLISHED then {STREAM_CLOSE_WAIT}
     else if st = STREAM_FIN_WAIT then {STREAM_CLOSING, STREAM_CLOSED}
     else {st})"
| "allowed (Peer_rst i) j st = (if j = i then {STREAM_CLOSED} else {st})"
| "allowed (Local_flush i) j st = (if j = i then {st, STREAM_CLOSED} else {st})"
| "allowed (Attached i) j st =
    (if j \<noteq> i then {st}
     else if st = STREAM_SYN_RECEIVED then {STREAM_ESTABLISHED, STREAM_CLOSED}
     else if st = STREAM_CLOSING then {STREAM_CLOSING, STREAM_CLOSED}
     else {st})"
| "allowed (Shut i) j st = (if j = i \<and> st = STREAM_CLOSING then {STREAM_CLOSING, STREAM_CLOSED} else {st})"
| "allowed (Closed i) j st = (if j = i then {st, STREAM_CLOSED} else {st})"
| "allowed (Aborted i) j st = (if j = i then {STREAM_CLOSED} else {st})"
| "allowed Send j st =
    (if st = STREAM_ESTABLISHED then {STREAM_ESTABLISHED, STREAM_FIN_WAIT}
     else if st = STREAM_CLOSE_WAIT then {STREAM_CLOSE_WAIT, STREAM_CLOSING, STREAM_CLOSED}
     else if st = STREAM_CLOSING then {STREAM_CLOSING, STREAM_CLOSED}
     else {st})"
| "allowed Drain j st = (if st = STREAM_INIT then {STREAM_INIT, STREAM_SYN_SENT, STREAM_CLOSED} else {st})"
| "allowed _ j st = {st}"

text \<open>A session with no streams, before or after its table is created.\<close>

definition fresh :: "mux_session \<Rightarrow> bool" where
  "fresh ss \<longleftrightarrow> links ss = (None, [], [], [], None, 0, 0) \<or> links ss = (Some [], [], [], [], None, 0, 0)"

lemma fresh_inv: "fresh ss \<Longrightarrow> sched_inv ss \<and> keys ss = {}"
  using links_down [of ss] links_gone [of ss] links_empty [of ss] by (auto simp: fresh_def)

section \<open>What each event does\<close>

lemma tombstone_tame:
  assumes "i \<in> keys ss" "is_tomb (stm ss i)"
  shows "tame ss (tombstone_cb i ss)"
proof -
  define a where "a = upd_stm i (\<lambda>s. s\<lparr>s_tombstone := ev_timer_stop (s_tombstone s)\<rparr>) ss"
  define b where "b = a\<lparr>sched := (sched a)\<lparr>num_tombstones := num_tombstones (sched a) - 1\<rparr>\<rparr>"
  have e: "tombstone_cb i ss = mux_sched_wake b i"
    by (simp add: tombstone_cb_def a_def b_def Let_def)
  have t: "stm b j = stm a j" "keys b = keys a" "down b = down a" for j
    by (simp_all add: b_def stm_def keys_def tab_def)
  have st: "s_state (stm b j) = s_state (stm ss j)" "keys b = keys ss" "down b = down ss" for j
    unfolding t by (simp_all add: a_def stm_upd_stm)
  have "keys (tombstone_cb i ss) = keys ss" "s_state (stm (tombstone_cb i ss) j) = s_state (stm ss j)"
    "down (tombstone_cb i ss) = down ss" for j
    unfolding e using st tameD(2,3) [OF tame_wake, of i b] assms(1) by simp_all
  then show ?thesis
    using tombstone_cb_inv [OF _ assms] by (simp add: tame_def)
qed

lemma unacked_push_ended: "ended ss (unacked_push ss f n)"
proof -
  have l: "links (snd (unacked_ring_push ss f n)) = links ss"
    by (simp add: unacked_ring_push_def case_prod_beta Let_def)
  then show ?thesis
    using reset_ended [of "pool_put f (snd (unacked_ring_push ss f n))"]
    by (simp add: unacked_push_def case_prod_beta Let_def ended_def)
qed

lemma track_sent_ended: "ended ss (mux_unacked_track_sent ss f)"
  using unacked_push_ended [of ss] reset_ended [of "pool_put f ss"]
  by (auto simp: mux_unacked_track_sent_def Let_def ended_def split: option.split)

lemma ended_trans: "ended a b \<Longrightarrow> ended b c \<Longrightarrow> ended a c"
  by (auto simp: ended_def)

lemma capture_loop_ended: "ended ss (capture_loop q ss)"
proof (induction q arbitrary: ss)
  case (Cons f q)
  have "ended ss (if ss_state ss = SESSION_CLOSED \<or> retransmit_copy (unacked ss) = Some (f_addr f)
      then pool_put f ss else mux_unacked_track_sent ss f)"
    using track_sent_ended by (simp add: ended_def)
  then show ?case
    using ended_trans [OF _ Cons.IH] by (simp only: capture_loop.simps)
qed (simp add: ended_def)

lemma capture_ended: "ended ss (session_capture_sendbuf ss)" "ended ss (session_capture_oobbuf ss)"
proof -
  have "ended ss (capture_loop q (ss\<lparr>wire := w\<rparr>))" for q w
    using capture_loop_ended [of "ss\<lparr>wire := w\<rparr>" q] by (simp add: ended_def)
  then show "ended ss (session_capture_sendbuf ss)" "ended ss (session_capture_oobbuf ss)"
    by (simp_all only: session_capture_sendbuf_def session_capture_oobbuf_def)
qed

lemma fold_links: "(\<And>f s. links (g f s) = links s) \<Longrightarrow> links (fold g q s) = links s"
  by (induction q arbitrary: s) simp_all

lemma drop_dgrams_links [simp]: "links (mux_session_drop_dgrams ss) = links ss"
  by (simp add: mux_session_drop_dgrams_def Let_def fold_links)

lemma suspend_ended: "ended ss (mux_session_suspend ss)"
proof -
  define a where "a = (if ss_state ss = SESSION_CONNECT \<or> ss_state ss = SESSION_HANDSHAKE then ss
    else ss\<lparr>suspended_at := os_ev_now (os ss)\<rparr>)"
  define b where "b = session_capture_sendbuf (mux_session_set_state a SESSION_SUSPENDED)"
  define c where "c = mux_session_drop_dgrams (session_capture_oobbuf
    (b\<lparr>wire := (wire b)\<lparr>sendbuf_staging := False\<rparr>, unacked := (unacked b)\<lparr>retransmit_copy := None\<rparr>\<rparr>))"
  have "ended (mux_session_set_state a SESSION_SUSPENDED) b"
    unfolding b_def by (rule capture_ended)
  moreover have "links (mux_session_set_state a SESSION_SUSPENDED) = links ss"
    by (simp add: a_def)
  ultimately have "ended ss b"
    by (simp add: ended_def)
  moreover have "ended b c"
    using capture_ended(2) [of "b\<lparr>wire := (wire b)\<lparr>sendbuf_staging := False\<rparr>, unacked := (unacked b)\<lparr>retransmit_copy := None\<rparr>\<rparr>"]
    unfolding ended_def c_def drop_dgrams_links by simp
  moreover have "links (suspend_transport x c) = links c" for x
    by (simp add: suspend_transport_def Let_def)
  moreover have "mux_session_suspend ss = (if ss_state c = SESSION_CLOSED then c
      else suspend_transport (ss_state ss = SESSION_CONNECT \<or> ss_state ss = SESSION_HANDSHAKE) c)"
    unfolding mux_session_suspend_def Let_def c_def b_def a_def by (rule refl)
  ultimately show ?thesis
    using ended_trans [of ss b c] by (simp add: ended_def)
qed

lemma suspend_or_reset_ended: "ended ss (mux_session_suspend_or_reset ss)"
  using suspend_ended reset_ended by (simp add: mux_session_suspend_or_reset_def)

lemma goodD:
  assumes "good A c ss ss'" "sched_inv ss"
  shows "sched_inv ss'" "keys ss' \<subseteq> keys ss" "down ss' \<or> s_state (stm ss' j) \<in> outcomes (j \<in> A) c (s_state (stm ss j))"
  using assms by (auto simp: good_def)

text \<open>The events that leave no choice.\<close>

lemma recv_fin_moves:
  assumes "i \<in> keys ss" "sched_inv ss"
  shows "down (mux_stream_recv_fin i ss) \<or> s_state (stm (mux_stream_recv_fin i ss) i) \<in> allowed (Peer_fin i) i (s_state (stm ss i))"
proof (cases "s_state (stm ss i) \<in> {STREAM_CLOSED, STREAM_CLOSE_WAIT, STREAM_CLOSING}")
  case True
  then show ?thesis
    by (auto simp: mux_stream_recv_fin_def)
next
  case False
  define a where "a = fin_transition i ss"
  have st: "s_state (stm a i) = moved By_fin_in (s_state (stm ss i))"
    using assms(1) by (simp add: a_def fin_transition_def split: stream_state.split)
  have inv: "sched_inv a"
    unfolding a_def using fin_transition_good assms(2) by (rule goodD)
  note * = good_close [OF do_close_good, of By_finish a i] finish_drained_good [of i a] good_tame [OF tame_upd, of a i]
  have "good {i} By_finish a (upd_stm i (stream_feed_user True False) (snd (stream_finish_drained_write i a)))"
    by (rule good_tame_after [OF *(2) tame_upd]) simp
  then have "good {i} By_finish a (mux_stream_recv_fin i ss)"
    using * False by (simp add: mux_stream_recv_fin_def a_def [symmetric] Let_def case_prod_beta)
  then have "down (mux_stream_recv_fin i ss)
      \<or> s_state (stm (mux_stream_recv_fin i ss) i) \<in> outcomes True By_finish (moved By_fin_in (s_state (stm ss i)))"
    using goodD(3) [OF _ inv, of "{i}" By_finish _ i] st by auto
  then show ?thesis
    using False by (cases "s_state (stm ss i)") (auto simp: outcomes_def)
qed

lemma recv_rst_closes: "s_state (stm (mux_stream_recv_rst i ss) i) = STREAM_CLOSED"
  using freed_stm [of _ i] by (auto simp: mux_stream_recv_rst_def Let_def)

lemma start_establishes:
  assumes "i \<in> keys ss"
  shows "s_state (stm (mux_stream_start i ss) i) = STREAM_ESTABLISHED"
proof -
  have "s_state (stream_notify_writable s) = s_state s" for s
    using same_links_notify(1) [of s] by (simp add: same_links_def)
  then show ?thesis
    using assms by (simp add: mux_stream_start_def Let_def stm_upd_stm)
qed

lemma send_syn_ack_settles:
  assumes "i \<in> keys ss"
  shows "s_state (stm (snd (send_syn_ack i ss)) i) = (if fst (send_syn_ack i ss) then STREAM_ESTABLISHED else STREAM_CLOSED)"
  using assms by (simp add: send_syn_ack_def Let_def case_prod_beta)

lemma io_start_settles:
  assumes "i \<in> keys ss" "s_state (stm ss i) = STREAM_SYN_RECEIVED"
  shows "s_state (stm (snd (mux_stream_do_io_start (Some i) w ss)) i) \<in> {STREAM_ESTABLISHED, STREAM_CLOSED}"
proof -
  have "s_state (stream_feed_user rd wr s) = s_state s" for rd wr s
    using same_links_watchers(2) [of s rd wr] by (simp add: same_links_def)
  then show ?thesis
    using assms by (simp add: mux_stream_do_io_start_def stream_attachable_def Let_def case_prod_beta stm_upd_stm
        send_syn_ack_settles)
qed

lemma attach_fd_settles:
  assumes "i \<in> keys ss" "s_state (stm ss i) = STREAM_SYN_RECEIVED"
  shows "s_state (stm (mux_stream_do_attach_fd i fd ss) i) \<in> {STREAM_ESTABLISHED, STREAM_CLOSED}"
proof -
  have w: "s_state (update_watcher s) = s_state s" for s
    using same_links_watchers(1) [of s] by (simp add: same_links_def)
  define r where "r = attach_fd_open i fd ss"
  have r: "s_state (stm (snd r) i) \<in> {STREAM_ESTABLISHED, STREAM_CLOSED}"
    using assms by (simp add: r_def attach_fd_open_def Let_def case_prod_beta stm_upd_stm send_syn_ack_settles)
  show ?thesis
    using assms r by (auto simp: do_attach_fd_eq stream_attachable_def r_def [symmetric] Let_def case_prod_beta stm_upd_stm w)
qed

text \<open>What an event other than the creation of a stream keeps.\<close>

definition orderly :: "stimulus \<Rightarrow> mux_session \<Rightarrow> mux_session \<Rightarrow> bool" where
  "orderly x ss ss' \<longleftrightarrow> sched_inv ss' \<and> keys ss' \<subseteq> keys ss
    \<and> (down ss' \<or> (\<forall>j. s_state (stm ss' j) \<in> allowed x j (s_state (stm ss j))))"

lemma good_orderly:
  assumes "good A c ss ss'" "sched_inv ss" "\<And>j st. outcomes (j \<in> A) c st \<subseteq> allowed x j st"
  shows "orderly x ss ss'"
  using goodD [OF assms(1,2)] assms(3) unfolding orderly_def by blast

lemma good_orderly_at:
  assumes "good {i} c ss ss'" "sched_inv ss" "\<And>j st. j \<noteq> i \<Longrightarrow> allowed x j st = {st}"
    "down ss' \<or> s_state (stm ss' i) \<in> allowed x i (s_state (stm ss i))"
  shows "orderly x ss ss'"
proof -
  have "down ss' \<or> s_state (stm ss' j) \<in> allowed x j (s_state (stm ss j))" for j
    using goodD(3) [OF assms(1,2), of j] assms(3,4) by (cases "j = i") (auto simp: outcomes_def)
  then show ?thesis
    using goodD(1,2) [OF assms(1,2)] by (auto simp: orderly_def)
qed

lemma tame_orderly: "tame ss ss' \<Longrightarrow> sched_inv ss \<Longrightarrow> orderly Quiet ss ss'"
  by (simp add: orderly_def tame_def)

lemma ended_orderly: "ended ss ss' \<Longrightarrow> sched_inv ss \<Longrightarrow> orderly Lost ss ss'"
  using endedD [of ss ss'] ended_inv [of ss ss'] down_empty [of ss'] by (auto simp: orderly_def)

lemma outcomes_allowed:
  "outcomes (j \<in> {i}) By_close st \<subseteq> allowed (Peer_data i) j st" "outcomes (j \<in> {i}) By_close st \<subseteq> allowed (Peer_window i) j st"
  "outcomes (j \<in> {i}) By_close st \<subseteq> allowed (Local_flush i) j st" "outcomes (j \<in> {i}) By_close st \<subseteq> allowed (Closed i) j st"
  "outcomes (j \<in> {i}) By_finish st \<subseteq> allowed (Shut i) j st" "outcomes (j \<in> UNIV) By_fin_out st \<subseteq> allowed Send j st"
  "outcomes (j \<in> UNIV) By_syn_out st \<subseteq> allowed Drain j st"
  by (cases st; auto simp: outcomes_def)+

lemma attached_orderly:
  assumes "good {i} By_accept ss ss'" "sched_inv ss"
    "s_state (stm ss i) = STREAM_SYN_RECEIVED \<Longrightarrow> s_state (stm ss' i) \<in> {STREAM_ESTABLISHED, STREAM_CLOSED}"
  shows "orderly (Attached i) ss ss'"
  by (rule good_orderly_at [OF assms(1,2)])
    (use goodD(3) [OF assms(1,2), of i] assms(3) in \<open>(cases "s_state (stm ss i)"; auto simp: outcomes_def)+\<close>)

lemmas orderly_events =
  good_orderly [OF recv_copy_good _ outcomes_allowed(1)] good_orderly [OF recv_window_good _ outcomes_allowed(2)]
  good_orderly [OF flush_local_good _ outcomes_allowed(3)] good_orderly [OF relinquish_good _ outcomes_allowed(4)]
  good_orderly [OF do_shutdown_good _ outcomes_allowed(5)] good_orderly [OF next_data_good _ outcomes_allowed(6)]
  good_orderly [OF flush_ctrl_good _ outcomes_allowed(6)] good_orderly [OF drain_lp_good _ outcomes_allowed(7)]
  ended_orderly [OF reset_ended] ended_orderly [OF suspend_or_reset_ended] tame_orderly [OF queue_send_tame]
  tame_orderly [OF tame_wake] tame_orderly [OF tame_upd] tame_orderly [OF do_release_tame]
  tame_orderly [OF tombstone_tame] tame_orderly [OF coalesce_cb_tame] tame_orderly [OF tame_links]

lemma event_orderly:
  assumes "event x ss ss'" "sched_inv ss" "\<And>i a. x \<noteq> Created i a"
  shows "orderly x ss ss'"
  using assms(1)
proof cases
  case table
  then show ?thesis
    using new_table_inv [of ss] assms(2) by (simp add: orderly_def)
next
  case (create i active_open s ss1)
  then show ?thesis
    using assms(3) by simp
next
  case (recv_syn_ack i)
  then show ?thesis
    using start_establishes [of i ss] open_live [of ss i] by (auto intro!: good_orderly_at [OF start_good assms(2)])
next
  case (recv_fin i)
  then show ?thesis
    using recv_fin_moves [OF _ assms(2), of i] good_orderly_at [OF recv_fin_good assms(2), of i "Peer_fin i"] by simp
next
  case (recv_rst i)
  then show ?thesis
    by (auto simp: recv_rst_closes intro!: good_orderly_at [OF recv_rst_good assms(2)])
next
  case (abort i code)
  then show ?thesis
    by (auto intro!: good_orderly_at [OF abort_good assms(2)])
next
  case (attach_fd i fd)
  then show ?thesis
    using attach_fd_settles attached_orderly [OF do_attach_fd_good assms(2)] by simp
next
  case (io_start i w)
  then show ?thesis
    using io_start_settles attached_orderly [OF do_io_start_good assms(2)] by simp
qed (simp_all add: orderly_events assms(2))

lemma stream_new_links:
  assumes "mux_stream_new ss i active_open = (r, ss')"
  shows "links ss' = links ss"
  using assms by (auto simp: mux_stream_new_def Let_def stream_set_state_def case_prod_beta split: if_splits option.splits)

lemma stream_new_fields:
  assumes "mux_stream_new ss i active_open = (Some s, ss')"
  shows "s_id s = i" "\<not> s_orphaned s" "\<not> is_tomb s" "s_sched_queue s = SCHED_QUEUE_NONE" "\<not> s_delay_pending s"
    "s_state s = (if active_open then STREAM_INIT else STREAM_SYN_RECEIVED)"
  using assms
  by (auto simp: mux_stream_new_def Let_def stream_set_state_def case_prod_beta zero_stream_def zero_timer_def
      split: if_splits option.splits)

text \<open>A new stream takes a free place in the table and leaves the others alone.\<close>

lemma create_facts:
  assumes "sched_inv ss" "mux_stream_new ss i active_open = (Some s, ss1)" "mux_sched_add_stream ss1 s = (True, ss2)"
  shows "sched_inv ss2" "i \<notin> keys ss" "keys ss2 = insert i (keys ss)" "stm ss2 i = s" "j \<noteq> i \<Longrightarrow> stm ss2 j = stm ss j"
proof -
  note n = stream_new_fields [OF assms(2)]
  have l: "sched_inv ss1" "keys ss1 = keys ss" "stm ss1 j = stm ss j" for j
    using stm_links [OF stream_new_links [OF assms(2)]] sched_inv_links [OF stream_new_links [OF assms(2)]] assms(1) by simp_all
  have "\<not> is_closed s"
    using n(6) by (simp split: if_splits)
  note a = add_stream_inv [OF l(1) assms(3) n(2) this n(3-5)]
  then show "sched_inv ss2" "i \<notin> keys ss" "keys ss2 = insert i (keys ss)" "stm ss2 i = s"
    using n(1) l(2) by simp_all
  show "stm ss2 j = stm ss j" if "j \<noteq> i"
    using assms(3) that n(1) l(3) [of j]
    by (auto simp: mux_sched_add_stream_def stm_def tab_def Let_def case_prod_beta split: if_splits option.splits)
qed

lemma event_inv: "event x ss ss' \<Longrightarrow> sched_inv ss \<Longrightarrow> sched_inv ss'"
proof (cases "\<exists>i a. x = Created i a")
  case True
  then show "event x ss ss' \<Longrightarrow> sched_inv ss \<Longrightarrow> sched_inv ss'"
    using create_facts(1) by (auto elim: event.cases)
next
  case False
  then show "event x ss ss' \<Longrightarrow> sched_inv ss \<Longrightarrow> sched_inv ss'"
    using event_orderly [of x ss ss'] by (auto simp: orderly_def)
qed

lemma steps_inv: "step\<^sup>*\<^sup>* ss0 ss \<Longrightarrow> fresh ss0 \<Longrightarrow> sched_inv ss"
  by (induction rule: rtranclp_induct) (auto simp: fresh_inv dest: event_inv)

section \<open>Reachable sessions\<close>

lemma tally_length: "tally P t = length (filter P (map snd t))"
  by (induction t) auto

text \<open>C6. In every session that events lead to from one without streams, the queues of the scheduler
  hold streams of the table only, each at most once and never in both queues; the lifecycle queue
  holds only streams that wait to be opened or to be freed; the stream that keeps the round's
  budget is open and in no queue; and the counts of closed streams and of tombstones are exact.\<close>

theorem scheduler_consistent:
  assumes "step\<^sup>*\<^sup>* ss0 ss" "fresh ss0"
  defines "sc \<equiv> sched ss"
  shows "distinct (sched_fifo sc) \<and> distinct (lp_fifo sc) \<and> distinct (delay_list sc)
    \<and> set (sched_fifo sc) \<inter> set (lp_fifo sc) = {}
    \<and> set (sched_fifo sc) \<union> set (lp_fifo sc) \<union> set (delay_list sc) \<subseteq> keys ss
    \<and> (\<forall>i\<in>set (lp_fifo sc). s_state (stm ss i) = STREAM_INIT \<or> s_state (stm ss i) = STREAM_CLOSED)
    \<and> (\<forall>i. drr_active sc = Some i \<longrightarrow> i \<in> keys ss \<and> i \<notin> set (sched_fifo sc) \<union> set (lp_fifo sc)
          \<and> s_state (stm ss i) \<noteq> STREAM_CLOSED)
    \<and> num_closed sc = length (filter is_closed (map snd (tab ss)))
    \<and> num_tombstones sc = length (filter is_tomb (map snd (tab ss)))"
proof -
  have inv: "sched_inv ss"
    using assms(1,2) by (rule steps_inv)
  note live = sched_inv_live [OF inv]
  have "linked sc i (stm ss i)" for i
    using inv by (simp add: sched_inv_def sc_def)
  then have l: "i \<in> set (sched_fifo sc) \<longleftrightarrow> s_sched_queue (stm ss i) = SCHED_QUEUE_DRR"
    "i \<in> set (lp_fifo sc) \<longleftrightarrow> s_sched_queue (stm ss i) = SCHED_QUEUE_LP"
    "i \<in> set (lp_fifo sc) \<Longrightarrow> s_state (stm ss i) = STREAM_INIT \<or> s_state (stm ss i) = STREAM_CLOSED"
    "drr_active sc = Some i \<Longrightarrow> s_sched_queue (stm ss i) = SCHED_QUEUE_NONE \<and> s_state (stm ss i) \<noteq> STREAM_CLOSED" for i
    by (simp_all add: linked_def)
  have "set (sched_fifo sc) \<inter> set (lp_fifo sc) = {}"
    using l(1,2) by auto
  moreover have "set (sched_fifo sc) \<union> set (lp_fifo sc) \<union> set (delay_list sc) \<subseteq> keys ss"
    using live by (auto simp: sc_def)
  moreover have "i \<in> keys ss \<and> i \<notin> set (sched_fifo sc) \<union> set (lp_fifo sc) \<and> s_state (stm ss i) \<noteq> STREAM_CLOSED"
    if "drr_active sc = Some i" for i
    using l(1,2) l(4) [OF that] open_live by auto
  ultimately show ?thesis
    using inv l(3) by (simp add: sched_inv_def sc_def tally_length)
qed


section \<open>Examples\<close>

text \<open>A session that creates its table, opens a stream, queues it for its \<open>SYN\<close> and then aborts it.\<close>

definition sample_idle :: mux_session where
  "sample_idle = sample_session\<lparr>ss_state := SESSION_ESTABLISHED, max_payload := 16384, stream_window := 4\<rparr>"

definition sample_table :: mux_session where
  "sample_table = snd (session_new_table sample_idle)"

definition sample_open :: mux_session where
  "sample_open = (case mux_stream_new sample_table 1 True of
    (Some s, ss) \<Rightarrow> snd (mux_sched_add_stream ss s) | (None, ss) \<Rightarrow> ss)"

definition sample_woken :: mux_session where
  "sample_woken = mux_sched_wake sample_open 1"

lemma sample_idle_fresh: "fresh sample_idle"
  by (simp add: fresh_def sample_idle_def links_def sc_links_def sample_session_def zero_session_def zero_sched_def)

lemma sample_table_facts: "links sample_table = (Some [], [], [], [], None, 0, 0)" "heap_ok (heap sample_table) = (\<lambda>_. True)"
  "max_payload sample_table = 16384"
  by (simp_all add: sample_table_def session_new_table_def sample_idle_def links_def sc_links_def sample_session_def
      zero_session_def zero_sched_def sample_heap_def heap_request_def)

lemma sample_open_facts: "event (Created 1 True) sample_table sample_open" "keys sample_open = {1}"
  "s_state (stm sample_open 1) = STREAM_INIT"
proof -
  obtain s a where n: "mux_stream_new sample_table 1 True = (Some s, a)" "heap_ok (heap a) = (\<lambda>_. True)"
    by (simp add: mux_stream_new_def heap_request_def bytebuf_new_def sample_table_facts Let_def stream_set_state_def
        case_prod_beta counter_add_def)
  have inv: "sched_inv sample_table" and none: "keys sample_table = {}"
    using links_empty [OF sample_table_facts(1)] by simp_all
  have "streams (sched a) = Some []"
    using stream_new_links [OF n(1)] sample_table_facts(1) by (simp add: links_def sc_links_def)
  then obtain b where b: "mux_sched_add_stream a s = (True, b)"
    using n(2) by (simp add: mux_sched_add_stream_def heap_request_def Let_def)
  note c = create_facts [OF inv n(1) b]
  have e: "sample_open = b"
    by (simp add: sample_open_def n(1) b)
  show "event (Created 1 True) sample_table sample_open"
    unfolding e using n(1) b by (rule event.create)
  show "keys sample_open = {1}" "s_state (stm sample_open 1) = STREAM_INIT"
    using c(3,4) none stream_new_fields(6) [OF n(1)] by (simp_all add: e)
qed

lemma sample_woken_facts: "step\<^sup>*\<^sup>* sample_idle sample_woken" "keys sample_woken = {1}" "s_state (stm sample_woken 1) = STREAM_INIT"
proof -
  have "event Quiet sample_open sample_woken"
    unfolding sample_woken_def by (rule event.wake) (simp add: sample_open_facts)
  then have s3: "step sample_open sample_woken" ..
  have "event Table_created sample_idle sample_table"
    unfolding sample_table_def by (rule event.table)
  then have s1: "step sample_idle sample_table" ..
  have s2: "step sample_table sample_open"
    using sample_open_facts(1) ..
  show "step\<^sup>*\<^sup>* sample_idle sample_woken"
    by (rule converse_rtranclp_into_rtranclp [OF s1 converse_rtranclp_into_rtranclp [OF s2 r_into_rtranclp [of step, OF s3]]])
  show "keys sample_woken = {1}" "s_state (stm sample_woken 1) = STREAM_INIT"
    using tameD(2,3) [OF tame_wake, of 1 sample_open] sample_open_facts by (simp_all add: sample_woken_def)
qed

theorem scheduler_consistent_witness:
  "s_state (stm sample_woken 1) = STREAM_INIT \<and> distinct (lp_fifo (sched sample_woken)) \<and> set (lp_fifo (sched sample_woken)) \<subseteq> {1}
    \<and> num_closed (sched sample_woken) = length (filter is_closed (map snd (tab sample_woken)))"
  using scheduler_consistent [OF sample_woken_facts(1) sample_idle_fresh] sample_woken_facts(2,3) by auto


end
