(* ===== verification/Base64.thy ===== *)
theory Base64
  imports Mux_Prelude
begin

unbundle bit_operations_syntax

text \<open>
  The Base64 codec (\<^verbatim>\<open>codec/base64.c\<close>) the handshake writes session IDs with.  A call
  takes the capacity of the output buffer (\<^const>\<open>None\<close> for a null pointer) and yields the
  return value, the value left in \<open>*dstlen\<close> and the bytes of the result (none when the
  call fails: what a failed decoding leaves in the buffer is not modelled).  Sizes are \<open>size_t\<close>: their
  arithmetic wraps at \<open>2 ^ 64\<close>.
\<close>

section \<open>Encoding\<close>

definition SIZE_LIMIT :: nat where "SIZE_LIMIT = 2 ^ 64"

definition ascii :: "string \<Rightarrow> u8 list" where
  "ascii = map of_char"

definition PAD :: u8 where "PAD = 0x3D"

definition encoding_table :: "u8 list" where
  "encoding_table = ascii ''ABCDEFGHIJKLMNOPQRSTUVWXYZabcdefghijklmnopqrstuvwxyz0123456789+/''"

definition encode_triple :: "nat \<Rightarrow> u8 list" where
  "encode_triple triple =
    [encoding_table ! (drop_bit (3 * 6) triple AND 0x3F), encoding_table ! (drop_bit (2 * 6) triple AND 0x3F),
     encoding_table ! (drop_bit (1 * 6) triple AND 0x3F), encoding_table ! (drop_bit (0 * 6) triple AND 0x3F)]"

text \<open>The loop over the groups of three octets, missing octets counting as zero.\<close>

fun encode_loop :: "u8 list \<Rightarrow> u8 list" where
  "encode_loop [] = []"
| "encode_loop [a] = encode_triple (push_bit 0x10 (unat a) + push_bit 0x08 0 + 0)"
| "encode_loop [a, b] = encode_triple (push_bit 0x10 (unat a) + push_bit 0x08 (unat b) + 0)"
| "encode_loop (a # b # c # src) =
    encode_triple (push_bit 0x10 (unat a) + push_bit 0x08 (unat b) + unat c) @ encode_loop src"

definition base64_encode :: "nat option \<Rightarrow> u8 list \<Rightarrow> bool \<times> nat \<times> u8 list" where
  "base64_encode dst src =
    (let srclen = length src;
         outlen = (4 * ((srclen + 2) mod SIZE_LIMIT div 3)) mod SIZE_LIMIT in
     if outlen < srclen then (False, 0, [])
     else case dst of
       None \<Rightarrow> (True, outlen, [])
     | Some dstlen \<Rightarrow>
         if dstlen < outlen then (False, outlen, [])
         else let buf = encode_loop src;
                  r = 3 * (length buf div 4);
                  w = length buf - (r - srclen)
              in (True, outlen, take w buf @ replicate (outlen - w) PAD))"

section \<open>Decoding\<close>

definition decoding_table :: "u8 list" where
  "decoding_table = replicate 43 0x80 @ [0x3E, 0x80, 0x80, 0x80, 0x3F]
    @ map of_nat [0x34..<0x3E] @ replicate 7 0x80
    @ map of_nat [0..<0x1A] @ replicate 6 0x80 @ map of_nat [0x1A..<0x34] @ replicate 133 0x80"

definition sextet :: "u8 \<Rightarrow> nat" where
  "sextet c = unat (decoding_table ! unat c)"

definition join_sextets :: "nat \<Rightarrow> nat \<Rightarrow> nat \<Rightarrow> nat \<Rightarrow> nat" where
  "join_sextets a b c d = push_bit (3 * 6) a + push_bit (2 * 6) b + push_bit (1 * 6) c + push_bit (0 * 6) d"

definition octets :: "nat \<Rightarrow> u8 list" where
  "octets triple = map of_nat [drop_bit (2 * 8) triple AND 0xFF, drop_bit (1 * 8) triple AND 0xFF,
     drop_bit (0 * 8) triple AND 0xFF]"

text \<open>The loop over all groups but the last, which follows it with its padding.\<close>

fun decode_loop :: "u8 list \<Rightarrow> nat \<Rightarrow> u8 list option" where
  "decode_loop (p # q # r # s # u # rest) npad =
    (let a = sextet p; b = sextet q; c = sextet r; d = sextet s in
     if (a OR b OR c OR d) AND 0x80 \<noteq> 0 then None
     else map_option ((@) (octets (join_sextets a b c d))) (decode_loop (u # rest) npad))"
| "decode_loop [p, q, r, s] npad =
    (let a = sextet p; b = sextet q;
         c = (if npad < 2 then sextet r else 0);
         d = (if npad < 1 then sextet s else 0) in
     if (a OR b OR c OR d) AND 0x80 \<noteq> 0 then None
     else Some (take (3 - npad) (octets (join_sextets a b c d))))"
| "decode_loop _ npad = None"

definition pad_count :: "u8 list \<Rightarrow> nat" where
  "pad_count src = of_bool (src ! (length src - 1) = PAD) + of_bool (src ! (length src - 2) = PAD)"

definition base64_decode :: "nat option \<Rightarrow> u8 list \<Rightarrow> bool \<times> nat \<times> u8 list" where
  "base64_decode dst src =
    (let srclen = length src in
     if srclen = 0 then (True, 0, [])
     else if srclen mod 4 \<noteq> 0 then (False, 0, [])
     else let npad = pad_count src;
              outlen = srclen div 4 * 3 - npad in
     case dst of
       None \<Rightarrow> (True, outlen, [])
     | Some dstlen \<Rightarrow>
         if dstlen < outlen then (False, outlen, [])
         else case decode_loop src npad of None \<Rightarrow> (False, 0, []) | Some out \<Rightarrow> (True, outlen, out))"

section \<open>Sextets\<close>

lemma and_63: "(n :: nat) AND 0x3F = n mod 64"
  using take_bit_eq_mask [of 6 n] by (simp add: take_bit_eq_mod mask_eq_exp_minus_1)

lemma and_255: "(n :: nat) AND 0xFF = n mod 256"
  using take_bit_eq_mask [of 8 n] by (simp add: take_bit_eq_mod mask_eq_exp_minus_1)

lemma encoding_table_eq:
  "encoding_table = map of_nat [65..<91] @ map of_nat [97..<123] @ map of_nat [48..<58] @ [43, 47]"
  by (simp add: encoding_table_def ascii_def upt_rec of_char_def horner_sum_simps)

lemma sextet_encode_char:
  "k < 26 \<Longrightarrow> encoding_table ! k = of_nat (65 + k) \<and> decoding_table ! (65 + k) = of_nat k"
  "k < 26 \<Longrightarrow> encoding_table ! (26 + k) = of_nat (97 + k) \<and> decoding_table ! (97 + k) = of_nat (26 + k)"
  "k < 10 \<Longrightarrow> encoding_table ! (52 + k) = of_nat (48 + k) \<and> decoding_table ! (48 + k) = of_nat (52 + k)"
  "encoding_table ! 62 = 43" "decoding_table ! 43 = 62" "encoding_table ! 63 = 47" "decoding_table ! 47 = 63"
  by (simp_all add: encoding_table_eq decoding_table_def nth_append nth_Cons' del: upt_rec_numeral)

lemma sextet_encode [simp]:
  assumes "k < 64"
  shows "sextet (encoding_table ! k) = k" "encoding_table ! k \<noteq> PAD"
proof -
  have u: "unat (of_nat n :: u8) = n" if "n < 256" for n
    using that by (simp add: unsigned_of_nat take_bit_nat_eq_self)
  have s: "sextet (of_nat n) = m" "(of_nat n :: u8) \<noteq> PAD"
    if "decoding_table ! n = of_nat m" "n < 256" "m < 256" "n \<noteq> 61" for n m
    using that u [of n] u [of m] u [of 61] by (auto simp: sextet_def PAD_def)
  consider "k < 26" | l where "k = 26 + l" "l < 26" | l where "k = 52 + l" "l < 10" | "k = 62" | "k = 63"
  proof -
    have "k < 26 \<or> k = 26 + (k - 26) \<and> k - 26 < 26 \<or> k = 52 + (k - 52) \<and> k - 52 < 10 \<or> k = 62 \<or> k = 63"
      using assms by linarith
    then show thesis
      using that by blast
  qed
  then have "sextet (encoding_table ! k) = k \<and> encoding_table ! k \<noteq> PAD"
  proof cases
    case 1
    show ?thesis
      using s [of "65 + k" k] 1 sextet_encode_char(1) [of k] by simp
  next
    case (2 l)
    show ?thesis
      using s [of "97 + l" k] 2 sextet_encode_char(2) [of l] by simp
  next
    case (3 l)
    show ?thesis
      using s [of "48 + l" k] 3 sextet_encode_char(3) [of l] by simp
  next
    case 4
    show ?thesis
      using s [of 43 62] 4 sextet_encode_char(4,5) by simp
  next
    case 5
    show ?thesis
      using s [of 47 63] 5 sextet_encode_char(6,7) by simp
  qed
  then show "sextet (encoding_table ! k) = k" "encoding_table ! k \<noteq> PAD"
    by simp_all
qed

lemma low_sextets:
  assumes "a < 128" "b < 128" "c < 128" "d < (128 :: nat)"
  shows "(a OR b OR c OR d) AND 0x80 = 0"
proof -
  have "take_bit 7 x = x" if "x < 128" for x :: nat
    using that by (simp add: take_bit_nat_eq_self)
  then have "take_bit 7 (a OR b OR c OR d) = a OR b OR c OR d"
    using assms by simp
  then have "(a OR b OR c OR d) < 2 ^ 7"
    by (metis take_bit_nat_less_exp)
  moreover have "x AND 0x80 = 0" if "x < 128" for x :: nat
    using and_exp_eq_0_iff_not_bit [of x 7] that by (simp add: bit_iff_odd)
  ultimately show ?thesis
    by simp
qed

definition triple :: "nat \<Rightarrow> nat \<Rightarrow> nat \<Rightarrow> nat" where
  "triple a b c = a * 65536 + b * 256 + c"

lemma join_split:
  assumes "t < 2 ^ 24"
  shows "join_sextets (t div 262144 mod 64) (t div 4096 mod 64) (t div 64 mod 64) (t mod 64) = t"
proof -
  define t1 t2 t3 where "t1 = t div 64" "t2 = t1 div 64" "t3 = t2 div 64"
  have "t div 4096 = t2" "t div 262144 = t3"
    by (simp_all add: t1_t2_t3_def div_mult2_eq [symmetric])
  moreover have "t3 mod 64 = t3"
    using assms by (simp add: t1_t2_t3_def div_mult2_eq [symmetric])
  moreover have "t = 64 * t1 + t mod 64" "t1 = 64 * t2 + t1 mod 64" "t2 = 64 * t3 + t2 mod 64"
    by (simp_all add: t1_t2_t3_def)
  ultimately show ?thesis
    by (simp add: join_sextets_def push_bit_eq_mult flip: t1_t2_t3_def(1))
qed

lemma octets_triple:
  assumes "a < 256" "b < 256" "c < 256"
  shows "octets (triple a b c) = [of_nat a, of_nat b, of_nat c]"
proof -
  have t: "triple a b c = (a * 256 + b) * 256 + c"
    by (simp add: triple_def)
  have "triple a b c div 256 = a * 256 + b"
    using assms by (simp add: t)
  moreover have "triple a b c div 65536 = triple a b c div 256 div 256"
    by (simp add: div_mult2_eq [symmetric])
  ultimately have "triple a b c div 65536 mod 256 = a" "triple a b c div 256 mod 256 = b"
    using assms by simp_all
  moreover have "triple a b c mod 256 = c"
    using assms by (simp only: t mod_mult_self3 mod_less)
  ultimately show ?thesis
    by (simp add: octets_def and_255 drop_bit_eq_div)
qed

lemma encode_triple_eq:
  "encode_triple t = map ((!) encoding_table) [t div 262144 mod 64, t div 4096 mod 64, t div 64 mod 64, t mod 64]"
  by (simp add: encode_triple_def and_63 drop_bit_eq_div)

lemma encode_loop_eq:
  "encode_loop [a] = encode_triple (triple (unat a) 0 0)"
  "encode_loop [a, b] = encode_triple (triple (unat a) (unat b) 0)"
  "encode_loop (a # b # c # src) = encode_triple (triple (unat a) (unat b) (unat c)) @ encode_loop src"
  by (simp_all add: triple_def push_bit_eq_mult)

lemma length_encode_loop: "length (encode_loop src) = 4 * ((length src + 2) div 3)"
  by (induction src rule: encode_loop.induct) (simp_all add: encode_triple_def, presburger)

lemma unat_lt_u8: "unat (w :: u8) < 256"
proof -
  have "unat w < 2 ^ LENGTH(8)"
    by (rule unsigned_less)
  then show ?thesis
    by simp
qed

lemma triple_less: "triple (unat (a :: u8)) (unat (b :: u8)) (unat (c :: u8)) < 2 ^ 24"
  using unat_lt_u8 [of a] unat_lt_u8 [of b] unat_lt_u8 [of c] by (simp add: triple_def)

text \<open>A full group decodes to its three octets, and a padded one to what the padding leaves.\<close>

lemma decode_group:
  fixes a b c :: u8
  defines "t \<equiv> triple (unat a) (unat b) (unat c)"
  assumes "encode_triple t = [p, q, r, s]"
  shows "decode_loop (p # q # r # s # u # rest) npad = map_option ((@) [a, b, c]) (decode_loop (u # rest) npad)"
    "decode_loop [p, q, r, s] 0 = Some [a, b, c]"
    "c = 0 \<Longrightarrow> decode_loop [p, q, r, s'] 1 = Some [a, b]"
    "b = 0 \<Longrightarrow> c = 0 \<Longrightarrow> decode_loop [p, q, r', s'] 2 = Some [a]"
    "p \<noteq> PAD" "q \<noteq> PAD" "r \<noteq> PAD" "s \<noteq> PAD"
proof -
  define w x y z where "w = t div 262144 mod 64" "x = t div 4096 mod 64" "y = t div 64 mod 64" "z = t mod 64"
  have "w < 64" "x < 64" "y < 64" "z < 64"
    by (simp_all add: w_x_y_z_def)
  then have e: "sextet p = w" "sextet q = x" "sextet r = y" "sextet s = z" "p \<noteq> PAD" "q \<noteq> PAD" "r \<noteq> PAD" "s \<noteq> PAD"
    and low: "(w OR x OR y OR z) AND 0x80 = 0"
    using assms(2) low_sextets [of w x y z]
    unfolding encode_triple_eq w_x_y_z_def [symmetric] by auto
  have "octets t = [a, b, c]"
    unfolding t_def by (subst octets_triple) (simp_all add: unat_lt_u8)
  then have o: "octets (join_sextets w x y z) = [a, b, c]"
    using join_split [of t] triple_less [of a b c] unfolding w_x_y_z_def [symmetric] by (simp add: t_def)
  show "p \<noteq> PAD" "q \<noteq> PAD" "r \<noteq> PAD" "s \<noteq> PAD"
    by (rule e)+
  show "decode_loop (p # q # r # s # u # rest) npad = map_option ((@) [a, b, c]) (decode_loop (u # rest) npad)"
    "decode_loop [p, q, r, s] 0 = Some [a, b, c]"
    using o low by (simp_all add: e)
  have z: "z = 0" if "c = 0"
  proof -
    have "t = 64 * (unat a * 1024 + unat b * 4)"
      using that by (simp add: t_def triple_def)
    then show ?thesis
      unfolding w_x_y_z_def by (simp only: mod_mult_self1_is_0)
  qed
  show "decode_loop [p, q, r, s'] 1 = Some [a, b]" if "c = 0"
    using o low z that by (simp add: e)
  have "y = 0" if "b = 0" "c = 0"
  proof -
    have "t = 64 * (64 * (unat a * 16))"
      using that by (simp add: t_def triple_def)
    then show ?thesis
      unfolding w_x_y_z_def
      by (simp only: nonzero_mult_div_cancel_left zero_neq_numeral not_False_eq_True mod_mult_self1_is_0)
  qed
  then show "decode_loop [p, q, r', s'] 2 = Some [a]" if "b = 0" "c = 0"
    using o low z that by (simp add: e)
qed

lemma encode_triple_group: obtains p q r s where "encode_triple t = [p, q, r, s]"
  by (simp add: encode_triple_def)

section \<open>The round trip\<close>

definition npadding :: "u8 list \<Rightarrow> nat" where
  "npadding src = (3 - length src mod 3) mod 3"

definition encoded :: "u8 list \<Rightarrow> u8 list" where
  "encoded src = take (length (encode_loop src) - npadding src) (encode_loop src) @ replicate (npadding src) PAD"

lemma npadding_simps [simp]:
  "npadding [] = 0" "npadding [a] = 2" "npadding [a, b] = 1" "npadding (a # b # c # src) = npadding src"
  by (simp_all add: npadding_def)

lemma encoded_nil [simp]: "encoded [] = []"
  by (simp add: encoded_def)

lemma encoded_cons: "encoded (a # b # c # src) = encode_triple (triple (unat a) (unat b) (unat c)) @ encoded src"
proof -
  have "npadding src \<le> length (encode_loop src)"
    by (cases src) (simp_all add: npadding_def length_encode_loop less_imp_le_nat [OF mod_less_divisor] order_trans [of _ 3])
  moreover have "length (encode_triple t) = 4" for t
    by (simp add: encode_triple_def)
  ultimately show ?thesis
    by (simp add: encoded_def encode_loop_eq del: encode_loop.simps)
qed

lemma pad_count_append:
  assumes "2 \<le> length x"
  shows "pad_count (y @ x) = pad_count x"
proof -
  have "(y @ x) ! (length (y @ x) - k) = x ! (length x - k)" if "k \<le> 2" for k
    using that assms nth_append_length_plus [of y x "length x - k"] by simp
  then show ?thesis
    unfolding pad_count_def by simp
qed

lemma decode_encoded:
  assumes "src \<noteq> []"
  shows "decode_loop (encoded src) (npadding src) = Some src
    \<and> pad_count (encoded src) = npadding src \<and> 4 \<le> length (encoded src)"
  using assms
proof (induction src rule: encode_loop.induct)
  case (2 a)
  obtain p q r s where e: "encode_triple (triple (unat a) 0 0) = [p, q, r, s]"
    by (rule encode_triple_group)
  show ?case
    using decode_group(4-6) [of a 0 0 p q r s] e
    by (simp add: encoded_def encode_loop_eq pad_count_def eval_nat_numeral del: encode_loop.simps decode_loop.simps)
next
  case (3 a b)
  obtain p q r s where e: "encode_triple (triple (unat a) (unat b) 0) = [p, q, r, s]"
    by (rule encode_triple_group)
  show ?case
    using decode_group(3,5-7) [of a b 0 p q r s] e
    by (simp add: encoded_def encode_loop_eq pad_count_def eval_nat_numeral del: encode_loop.simps decode_loop.simps)
next
  case (4 a b c src)
  obtain p q r s where e: "encode_triple (triple (unat a) (unat b) (unat c)) = [p, q, r, s]"
    by (rule encode_triple_group)
  show ?case
  proof (cases src)
    case Nil
    then show ?thesis
      using decode_group(2,5-8) [OF e] e by (simp add: encoded_cons pad_count_def del: decode_loop.simps)
  next
    case (Cons d ds)
    have ih: "decode_loop (encoded src) (npadding src) = Some src"
      "pad_count (encoded src) = npadding src" "4 \<le> length (encoded src)"
      using "4.IH" Cons by simp_all
    obtain u rest where "encoded src = u # rest"
      using ih(3) by (cases "encoded src") simp_all
    moreover have "pad_count (p # q # r # s # encoded src) = npadding src"
      using pad_count_append [of "encoded src" "[p, q, r, s]"] ih(2,3) by simp
    ultimately show ?thesis
      using decode_group(1) [OF e, of u rest "npadding src"] ih(1) by (simp add: encoded_cons e del: decode_loop.simps)
  qed
qed simp

lemma length_encoded: "length (encoded src) = 4 * ((length src + 2) div 3)"
proof (induction src rule: encode_loop.induct)
  case (4 a b c src)
  then show ?case
    by (simp add: encoded_cons encode_triple_def) presburger
qed (simp_all add: encoded_def encode_triple_def)

definition groups :: "u8 list \<Rightarrow> nat" where
  "groups src = (length src + 2) div 3"

lemma groups_bounds: "length src \<le> 3 * groups src" "3 * groups src \<le> length src + 2"
  unfolding groups_def by presburger+

lemma npadding_groups: "npadding src = 3 * groups src - length src"
proof -
  define q r where "q = length src div 3" "r = length src mod 3"
  have l: "length src = 3 * q + r" and r: "r < 3"
    by (simp_all add: q_r_def)
  have m: "(3 * q + r) mod 3 = r"
    using r by simp
  consider "r = 0" | "r = 1" | "r = 2"
    using r by linarith
  then show ?thesis
    unfolding groups_def npadding_def l m by cases simp_all
qed

lemma outlen_fits:
  assumes "4 * groups src < SIZE_LIMIT"
  shows "(4 * ((length src + 2) mod SIZE_LIMIT div 3)) mod SIZE_LIMIT = 4 * groups src" "\<not> 4 * groups src < length src"
proof -
  have "length src + 2 < SIZE_LIMIT"
    using assms groups_bounds(1) [of src] by (simp add: SIZE_LIMIT_def)
  then show "(4 * ((length src + 2) mod SIZE_LIMIT div 3)) mod SIZE_LIMIT = 4 * groups src"
    using assms by (simp add: groups_def)
  show "\<not> 4 * groups src < length src"
    using groups_bounds [of src] by simp
qed

lemma base64_encode_fits:
  assumes "4 * groups src < SIZE_LIMIT" "4 * groups src \<le> cap"
  shows "base64_encode (Some cap) src = (True, 4 * groups src, encoded src)"
proof -
  have l: "length (encode_loop src) = 4 * groups src"
    by (simp add: length_encode_loop groups_def)
  have "4 * groups src - (4 * groups src - npadding src) = npadding src"
    using groups_bounds [of src] by (simp add: npadding_groups)
  then show ?thesis
    using assms(2) outlen_fits(2) [OF assms(1)] unfolding base64_encode_def Let_def outlen_fits(1) [OF assms(1)] l encoded_def
    by (simp add: npadding_groups)
qed

text \<open>C23. Encoding any data that leaves room for its encoding in the address space succeeds with
  exactly four characters per started group of three octets, and decoding them gives the data
  back, whatever padding the length calls for.\<close>

theorem base64_roundtrip:
  assumes "4 * groups src < 2 ^ 64" "4 * groups src \<le> cap" "length src \<le> cap'"
  shows "\<exists>code. base64_encode (Some cap) src = (True, 4 * groups src, code) \<and> length code = 4 * groups src
    \<and> base64_decode (Some cap') code = (True, length src, src)"
proof (intro exI conjI)
  show "base64_encode (Some cap) src = (True, 4 * groups src, encoded src)"
    using assms by (intro base64_encode_fits) (simp_all add: SIZE_LIMIT_def)
  show l: "length (encoded src) = 4 * groups src"
    by (simp add: length_encoded groups_def)
  show "base64_decode (Some cap') (encoded src) = (True, length src, src)"
  proof (cases "src = []")
    case False
    have "4 * groups src div 4 * 3 - npadding src = length src" "groups src \<noteq> 0"
      using groups_bounds [of src] False by (auto simp: npadding_groups intro: ccontr)
    then show ?thesis
      using decode_encoded [OF False] assms(3) by (simp add: base64_decode_def l Let_def)
  qed (simp add: base64_decode_def)
qed

theorem base64_roundtrip_witness:
  "\<exists>code. base64_encode (Some 4) [0xDE, 0xAD] = (True, 4, code) \<and> length code = 4
    \<and> base64_decode (Some 2) code = (True, 2, [0xDE, 0xAD])"
proof -
  have e: "length [0xDE, 0xAD :: u8] = 2" "groups [0xDE, 0xAD :: u8] = 1"
    by (simp_all add: groups_def)
  show ?thesis
    using base64_roundtrip [of "[0xDE, 0xAD]" 4 2, unfolded e] by simp
qed

text \<open>C24. The size computation of the encoder is safe against wrap-around: for every length a
  \<open>size_t\<close> can hold, the encoder reports failure exactly when the encoding would not fit the
  address space, and otherwise the exact size.\<close>

theorem base64_encode_size:
  assumes "length src < 2 ^ 64"
  shows "base64_encode None src = (if 4 * groups src < 2 ^ 64 then (True, 4 * groups src, []) else (False, 0, []))"
proof -
  have lim: "(2 :: nat) ^ 64 = SIZE_LIMIT" and big: "6 < SIZE_LIMIT"
    by (simp_all add: SIZE_LIMIT_def)
  have "(4 * ((length src + 2) mod SIZE_LIMIT div 3)) mod SIZE_LIMIT < length src" if "\<not> 4 * groups src < SIZE_LIMIT"
  proof (cases "length src + 2 < SIZE_LIMIT")
    case True
    have "4 * groups src - SIZE_LIMIT < length src" "4 * groups src - SIZE_LIMIT < SIZE_LIMIT"
      using groups_bounds [of src] True that big by linarith+
    then have "(4 * groups src) mod SIZE_LIMIT < length src"
      using that le_mod_geq [of SIZE_LIMIT "4 * groups src"] by (simp only: not_less mod_less)
    then show ?thesis
      unfolding groups_def using True by (simp only: mod_less)
  next
    case False
    have l: "length src < SIZE_LIMIT"
      using assms by (simp only: lim)
    have "length src + 2 - SIZE_LIMIT < 2" "0 < length src" "length src + 2 - SIZE_LIMIT < SIZE_LIMIT"
      using l False big by linarith+
    moreover have "(length src + 2) mod SIZE_LIMIT = (length src + 2 - SIZE_LIMIT) mod SIZE_LIMIT"
      using False by (intro le_mod_geq) simp
    ultimately have "(length src + 2) mod SIZE_LIMIT div 3 = 0" "0 < length src"
      by (simp_all only: mod_less div_less) 
    then show ?thesis
      by (simp only: mult_0_right mod_0)
  qed
  then show ?thesis
    unfolding lim base64_encode_def Let_def using outlen_fits [of src]
    by (cases "4 * groups src < SIZE_LIMIT") (simp_all only: if_True if_False option.case simp_thms)
qed

theorem base64_encode_size_witness:
  "base64_encode None [0xDE, 0xAD, 0xBE, 0xEF] = (True, 8, [])"
  using base64_encode_size [of "[0xDE, 0xAD, 0xBE, 0xEF]"] by (simp add: groups_def)

end
