(* ===== verification/Mime.thy ===== *)
theory Mime
  imports Mux_Prelude
begin

text \<open>
  The media type parser (\<^verbatim>\<open>net/mime.c\<close>, \<^verbatim>\<open>utils/ctype_ascii.h\<close> and
  \<^verbatim>\<open>mime_check_media\<close> of \<^verbatim>\<open>shim/util.c\<close>) that decides whether a peer speaks the
  protocol.  A C string is the list of its bytes before the terminator.  The parser cuts its
  buffer into strings in place; here every function takes the rest of the buffer and yields the
  string it cut off and what follows.
\<close>

section \<open>Character classes\<close>

abbreviation ord :: "char \<Rightarrow> nat" where "ord \<equiv> of_char"

definition TAB :: char where "TAB = CHR 0x09"
definition CR :: char where "CR = CHR 0x0D"
definition LF :: char where "LF = CHR 0x0A"
definition QUOTE :: char where "QUOTE = CHR 0x22"
definition BACKSLASH :: char where "BACKSLASH = CHR 0x5C"

definition isblank :: "char \<Rightarrow> bool" where
  "isblank c \<longleftrightarrow> c = CHR '' '' \<or> c = TAB"

definition iscntrl :: "char \<Rightarrow> bool" where
  "iscntrl c \<longleftrightarrow> ord c < 128 \<and> (ord c \<le> 0x1F \<or> ord c = 0x7F)"

definition lower :: "char \<Rightarrow> char" where
  "lower c = (if ord CHR ''A'' \<le> ord c \<and> ord c \<le> ord CHR ''Z''
    then char_of (ord c - ord CHR ''A'' + ord CHR ''a'') else c)"

definition strlower :: "string \<Rightarrow> string" where
  "strlower s = map lower s"

definition istspecial :: "char \<Rightarrow> bool" where
  "istspecial c \<longleftrightarrow> c \<in> set ''()<>@,;:/[]?='' \<or> c = BACKSLASH \<or> c = QUOTE"

definition istoken :: "char \<Rightarrow> bool" where
  "istoken c \<longleftrightarrow> 32 < ord c \<and> ord c < 127 \<and> \<not> istspecial c"

section \<open>Linear white space\<close>

fun skip_lwsp :: "string \<Rightarrow> string" where
  "skip_lwsp [] = []"
| "skip_lwsp (c # s) =
    (if isblank c then skip_lwsp s
     else case s of
       d # e # t \<Rightarrow> if c = CR \<and> d = LF \<and> isblank e then skip_lwsp (e # t) else c # s
     | _ \<Rightarrow> c # s)"

declare skip_lwsp.simps(2) [simp del]

lemma skip_lwsp_cases:
  obtains "skip_lwsp (c # s) = c # s"
    | "isblank c" "skip_lwsp (c # s) = skip_lwsp s"
    | e t where "s = LF # e # t" "c = CR" "isblank e" "skip_lwsp (c # s) = skip_lwsp (e # t)"
proof (cases "isblank c")
  case True
  then show thesis
    by (intro that(2)) (simp_all add: skip_lwsp.simps(2))
next
  case blank: False
  show thesis
  proof (cases "\<exists>e t. s = LF # e # t \<and> c = CR \<and> isblank e")
    case True
    then obtain e t where "s = LF # e # t" "c = CR" "isblank e"
      by blast
    with blank show thesis
      by (intro that(3)) (simp_all add: skip_lwsp.simps(2) [of CR "LF # e # t"])
  next
    case False
    have "skip_lwsp (c # s) = c # s"
      unfolding skip_lwsp.simps(2) [of c s] using blank False by (auto split: list.split)
    then show thesis
      by (rule that(1))
  qed
qed

lemma skip_lwsp_length: "length (skip_lwsp s) \<le> length s"
proof (induction s rule: length_induct)
  case (1 s)
  show ?case
  proof (cases s)
    case (Cons c t)
    have ih: "length (skip_lwsp u) \<le> length u" if "length u < Suc (length t)" for u
      using "1.IH" Cons that by simp
    show ?thesis
      unfolding Cons
    proof (cases rule: skip_lwsp_cases [of c t])
      case 2
      then show "length (skip_lwsp (c # t)) \<le> length (c # t)"
        using ih [of t] by simp
    next
      case (3 e u)
      then show "length (skip_lwsp (c # t)) \<le> length (c # t)"
        using ih [of "e # u"] by simp
    qed simp
  qed simp
qed

lemma skip_lwsp_shorter: "skip_lwsp s \<noteq> s \<Longrightarrow> length (skip_lwsp s) < length s"
proof (cases s)
  case (Cons c t)
  assume "skip_lwsp s \<noteq> s"
  then show ?thesis
    unfolding Cons
    by (rule_tac skip_lwsp_cases [of c t]) (use skip_lwsp_length [of t] skip_lwsp_length [of "tl t"] in auto)
qed simp

text \<open>The end of the text once trailing white space is peeled: the position after the last byte
  that is not part of a run of white space.\<close>

function lwsp_loop :: "nat \<Rightarrow> nat \<Rightarrow> string \<Rightarrow> nat" where
  "lwsp_loop pos end_pos p =
    (case p of
       [] \<Rightarrow> end_pos
     | c # q \<Rightarrow>
         let ws = skip_lwsp p in
         if ws \<noteq> p then lwsp_loop (pos + (length p - length ws)) end_pos ws
         else lwsp_loop (pos + 1) (pos + 1) q)"
  by pat_completeness auto
termination
  by (relation "measure (\<lambda>(pos, end_pos, p). length p)") (auto dest!: skip_lwsp_shorter)

declare lwsp_loop.simps [simp del]

definition trim_lwsp :: "string \<Rightarrow> string" where
  "trim_lwsp s = (let s = skip_lwsp s in take (lwsp_loop 0 0 s) s)"

section \<open>Type and subtype\<close>

text \<open>Cutting at the first occurrence of a character, as \<^verbatim>\<open>strchr\<close> and the terminator written
  there do: the text before it and, if it occurs, the text after it.\<close>

definition cut :: "char \<Rightarrow> string \<Rightarrow> string \<times> string option" where
  "cut c s = (takeWhile (\<lambda>d. d \<noteq> c) s,
    if c \<in> set s then Some (tl (dropWhile (\<lambda>d. d \<noteq> c) s)) else None)"

definition mime_parse :: "string \<Rightarrow> (string \<times> string \<times> string) option" where
  "mime_parse s =
    (let (s, next) = (case cut CHR '';'' s of (h, None) \<Rightarrow> (h, []) | (h, Some t) \<Rightarrow> (h, t)) in
     case cut CHR ''/'' s of
       (_, None) \<Rightarrow> None
     | (t, Some sub) \<Rightarrow>
         let type = strlower (trim_lwsp t); subtype = strlower (trim_lwsp sub) in
         if type = [] \<or> \<not> list_all istoken type \<or> subtype = [] \<or> \<not> list_all istoken subtype then None
         else Some (type, subtype, next))"

section \<open>Parameters\<close>

definition parse_key :: "string \<Rightarrow> (string \<times> string) option" where
  "parse_key s =
    (let key = takeWhile istoken s; t = skip_lwsp (dropWhile istoken s) in
     if key = [] then None
     else case t of c # rest \<Rightarrow> if c = CHR ''='' then Some (key, rest) else None | [] \<Rightarrow> None)"

definition end_value :: "string \<Rightarrow> string option" where
  "end_value rest =
    (case skip_lwsp rest of [] \<Rightarrow> Some [] | c # rest \<Rightarrow> if c = CHR '';'' then Some rest else None)"

text \<open>The quoted string, unescaped; \<open>w\<close> holds the bytes written so far, latest first.\<close>

fun quoted :: "string \<Rightarrow> string \<Rightarrow> (string \<times> string) option" where
  "quoted w [] = None"
| "quoted w (c # r) =
    (if c = QUOTE then map_option (\<lambda>next. (rev w, next)) (end_value r)
     else if c = BACKSLASH
     then (case r of
             [] \<Rightarrow> quoted (c # w) r
           | d # r \<Rightarrow> if iscntrl d \<and> d \<noteq> TAB then None else quoted (d # w) r)
     else if iscntrl c \<and> c \<noteq> TAB then None else quoted (c # w) r)"

definition parse_value :: "string \<Rightarrow> (string \<times> string) option" where
  "parse_value s =
    (case s of
       c # r \<Rightarrow>
         if c = QUOTE then quoted [] r
         else if takeWhile istoken s = [] then None
         else map_option (\<lambda>next. (takeWhile istoken s, next)) (end_value (dropWhile istoken s))
     | [] \<Rightarrow> None)"

text \<open>The outer \<^const>\<open>None\<close> is a parse error, the inner one the end of the parameters.\<close>

definition parse_param :: "string \<Rightarrow> ((string \<times> string) option \<times> string) option" where
  "parse_param s =
    (let next = skip_lwsp s in
     if next = [] then Some (None, next)
     else case parse_key next of
       None \<Rightarrow> None
     | Some (key, next) \<Rightarrow>
         (case parse_value (skip_lwsp next) of
            None \<Rightarrow> None
          | Some (v, next) \<Rightarrow> Some (Some (strlower key, v), next)))"

definition mime_parseparam :: "string \<Rightarrow> ((string \<times> string) option \<times> string) option" where
  "mime_parseparam s =
    (case parse_param s of
       None \<Rightarrow> None
     | Some (None, next) \<Rightarrow> Some (None, next)
     | Some (Some (key, v), next) \<Rightarrow>
         if CHR ''*'' \<in> set key then None else Some (Some (key, v), next))"

section \<open>Checking a media type\<close>

datatype mime_check_result = MIME_CHECK_OK "string option" | MIME_CHECK_BAD_TYPE | MIME_CHECK_MALFORMED

lemma end_value_length: "end_value r = Some n \<Longrightarrow> length n \<le> length r"
  using skip_lwsp_length [of r] by (auto simp: end_value_def split: list.splits if_splits)

lemma quoted_length: "quoted w r = Some (v, n) \<Longrightarrow> length n < length r"
  by (induction w r rule: quoted.induct)
    (auto split: if_splits list.splits dest!: end_value_length)

lemma parse_value_length: "parse_value s = Some (v, n) \<Longrightarrow> length n \<le> length s"
  using length_dropWhile_le [of istoken s]
  by (auto simp: parse_value_def split: list.splits if_splits dest!: quoted_length end_value_length)

lemma parse_key_length: "parse_key s = Some (k, n) \<Longrightarrow> length n < length s"
  using skip_lwsp_length [of "dropWhile istoken s"] length_dropWhile_le [of istoken s]
  by (auto simp: parse_key_def Let_def split: list.splits if_splits)

lemma parseparam_length:
  assumes "mime_parseparam s = Some (Some kv, n)"
  shows "length n < length s"
proof -
  obtain k u where "parse_key (skip_lwsp s) = Some (k, u)" "\<exists>v. parse_value (skip_lwsp u) = Some (v, n)"
    using assms
    by (auto simp: mime_parseparam_def parse_param_def Let_def split: option.splits prod.splits if_splits)
  then show ?thesis
    using parse_key_length [of "skip_lwsp s" k u] parse_value_length [of "skip_lwsp u" _ n]
      skip_lwsp_length [of s] skip_lwsp_length [of u] by fastforce
qed

function check_params :: "string option \<Rightarrow> string \<Rightarrow> mime_check_result" where
  "check_params version s =
    (case mime_parseparam s of
       None \<Rightarrow> MIME_CHECK_MALFORMED
     | Some (None, _) \<Rightarrow> MIME_CHECK_OK version
     | Some (Some (key, v), next) \<Rightarrow> check_params (if key = ''version'' then Some v else version) next)"
  by pat_completeness auto
termination
  by (relation "measure (length o snd)") (auto dest: parseparam_length)

declare check_params.simps [simp del]

definition mime_check_media :: "string \<Rightarrow> string \<Rightarrow> mime_check_result" where
  "mime_check_media buf subtype =
    (case mime_parse buf of
       None \<Rightarrow> MIME_CHECK_BAD_TYPE
     | Some (media_type, media_subtype, next) \<Rightarrow>
         if media_type \<noteq> ''application'' \<or> media_subtype \<noteq> subtype then MIME_CHECK_BAD_TYPE
         else check_params None next)"

section \<open>Tokens\<close>

lemma istoken_plain:
  assumes "istoken c"
  shows "\<not> isblank c" "c \<noteq> CR" "c \<noteq> CHR '';''" "c \<noteq> CHR ''/''" "c \<noteq> QUOTE" "\<not> iscntrl c"
proof -
  have r: "32 < ord c" "ord c < 127" "\<not> istspecial c"
    using assms by (simp_all add: istoken_def)
  show "\<not> isblank c" "c \<noteq> CR" "\<not> iscntrl c"
    using r(1,2) by (auto simp: isblank_def TAB_def CR_def iscntrl_def)
  have "istspecial CHR '';''" "istspecial CHR ''/''" "istspecial QUOTE"
    by (simp_all add: istspecial_def)
  then show "c \<noteq> CHR '';''" "c \<noteq> CHR ''/''" "c \<noteq> QUOTE"
    using r(3) by auto
qed

lemma skip_lwsp_token [simp]: "istoken c \<Longrightarrow> skip_lwsp (c # s) = c # s"
  by (rule skip_lwsp_cases [of c s]) (auto dest: istoken_plain)

lemma trim_loop_token: "list_all istoken p \<Longrightarrow> lwsp_loop pos e p = (if p = [] then e else pos + length p)"
proof (induction p arbitrary: pos e)
  case (Cons c p)
  have "lwsp_loop pos e (c # p) = lwsp_loop (pos + 1) (pos + 1) p"
    using Cons.prems by (subst lwsp_loop.simps) simp
  then show ?case
    using Cons by simp
qed (simp add: lwsp_loop.simps)

lemma trim_lwsp_token [simp]: "list_all istoken s \<Longrightarrow> trim_lwsp s = s"
  by (cases s) (simp_all add: trim_lwsp_def trim_loop_token lwsp_loop.simps [of _ _ "[]"] Let_def)

lemma cut_found: "c \<notin> set h \<Longrightarrow> cut c (h @ c # t) = (h, Some t)"
proof -
  assume "c \<notin> set h"
  then have p: "\<And>d. d \<in> set h \<Longrightarrow> d \<noteq> c"
    by auto
  show ?thesis
    by (simp add: cut_def takeWhile_append2 [OF p] dropWhile_append2 [OF p])
qed

lemma cut_absent: "c \<notin> set h \<Longrightarrow> cut c h = (h, None)"
  by (auto simp: cut_def takeWhile_eq_all_conv)

text \<open>C25. A media type of the application tree with one version parameter, both written in token
  characters, is recognised and its version reported unchanged.\<close>

theorem mime_check_media_roundtrip:
  assumes "sub \<noteq> []" "list_all istoken sub" "strlower sub = sub" "v \<noteq> []" "list_all istoken v"
  shows "mime_check_media (''application/'' @ sub @ ''; version='' @ v) sub = MIME_CHECK_OK (Some v)"
proof -
  have t: "list_all istoken ''application''" "strlower ''application'' = ''application''" "list_all istoken ''version''"
    "strlower ''version'' = ''version''"
    by (simp_all add: istoken_def istspecial_def QUOTE_def BACKSLASH_def strlower_def lower_def)
  have s: "CHR '';'' \<notin> set (''application/'' @ sub)" "CHR ''/'' \<notin> set ''application''"
    using assms(2) istoken_plain(3) [of "CHR '';''"] by (auto simp: list_all_iff)
  have "cut CHR '';'' (''application/'' @ sub @ ''; version='' @ v) = (''application/'' @ sub, Some ('' version='' @ v))"
    using cut_found [OF s(1), of "'' version='' @ v"] by simp
  moreover have "cut CHR ''/'' (''application/'' @ sub) = (''application'', Some sub)"
    using cut_found [OF s(2), of sub] by simp
  ultimately have "mime_parse (''application/'' @ sub @ ''; version='' @ v) = Some (''application'', sub, '' version='' @ v)"
    using assms t by (simp add: mime_parse_def)
  moreover have "mime_parseparam ('' version='' @ v) = Some (Some (''version'', v), [])"
  proof -
    obtain c q where v: "v = c # q"
      using assms(4) by (cases v) simp_all
    have tk: "istoken CHR ''v''" "istoken CHR ''e''" "istoken CHR ''r''" "istoken CHR ''s''" "istoken CHR ''i''"
      "istoken CHR ''o''" "istoken CHR ''n''" "\<not> istoken CHR ''=''"
      using t(3) by (simp_all add: istoken_def istspecial_def)
    have b: "skip_lwsp ('' version='' @ v) = ''version='' @ v" "skip_lwsp v = v" "c \<noteq> QUOTE"
      using assms(5) istoken_plain(5) [of c] tk by (simp_all add: v skip_lwsp.simps(2) [of "CHR '' ''"] isblank_def)
    have "skip_lwsp (CHR ''='' # v) = CHR ''='' # v"
      by (rule skip_lwsp_cases [of "CHR ''=''" v]) (simp_all add: isblank_def TAB_def CR_def)
    then have "parse_key (''version='' @ v) = Some (''version'', v)"
      using tk by (simp add: parse_key_def)
    moreover have "parse_value v = Some (v, [])"
    proof -
      have "takeWhile istoken v = v" "dropWhile istoken v = []"
        using assms(5) by (simp_all add: list_all_iff takeWhile_eq_all_conv dropWhile_eq_Nil_conv)
      then show ?thesis
        using b(3) by (simp add: parse_value_def v end_value_def)
    qed
    ultimately show ?thesis
      using b(2) b(1) [simplified] t(4) by (simp add: mime_parseparam_def parse_param_def Let_def)
  qed
  moreover have "mime_parseparam [] = Some (None, [])"
    by (simp add: mime_parseparam_def parse_param_def)
  ultimately show ?thesis
    by (simp add: mime_check_media_def check_params.simps)
qed

theorem mime_check_media_roundtrip_witness:
  "mime_check_media ''application/x-multiplexd-proto; version=1'' ''x-multiplexd-proto'' = MIME_CHECK_OK (Some ''1'')"
  using mime_check_media_roundtrip [of "''x-multiplexd-proto''" "''1''"]
  by (simp add: istoken_def istspecial_def QUOTE_def BACKSLASH_def strlower_def lower_def)

definition clean :: "string \<Rightarrow> bool" where
  "clean v \<longleftrightarrow> (\<forall>c\<in>set v. iscntrl c \<longrightarrow> c = TAB)"

lemma clean_Cons [simp]: "clean (c # v) \<longleftrightarrow> (iscntrl c \<longrightarrow> c = TAB) \<and> clean v"
  by (simp add: clean_def)

lemma quoted_clean: "quoted w r = Some (v, n) \<Longrightarrow> clean w \<Longrightarrow> clean v"
proof (induction w r rule: quoted.induct)
  case (2 w c r)
  consider (quote) "c = QUOTE" | (bs) "c = BACKSLASH" "c \<noteq> QUOTE" | (other) "c \<noteq> QUOTE" "c \<noteq> BACKSLASH"
    by blast
  then show ?case
  proof cases
    case quote
    then show ?thesis
      using "2.prems" by (auto simp: clean_def)
  next
    case bs
    then show ?thesis
      using "2.prems" "2.IH"(2) [OF bs(2,1)] by (cases r) (simp_all split: if_splits)
  next
    case other
    then show ?thesis
      using "2.prems" "2.IH"(3) [OF other] by (simp split: if_splits)
  qed
qed simp

lemma parse_value_clean: "parse_value s = Some (v, n) \<Longrightarrow> clean v"
proof -
  assume v: "parse_value s = Some (v, n)"
  have "clean (takeWhile istoken s)"
    using istoken_plain(6) by (auto simp: clean_def dest!: set_takeWhileD)
  then show ?thesis
    using v quoted_clean [of "[]" "tl s" v n]
    by (auto simp: parse_value_def clean_def [of "[]"] simp del: takeWhile.simps split: list.splits if_splits)
qed

lemma check_params_clean:
  "check_params version s = MIME_CHECK_OK (Some v) \<Longrightarrow> (\<And>u. version = Some u \<Longrightarrow> clean u) \<Longrightarrow> clean v"
proof (induction version s rule: check_params.induct)
  case (1 version s)
  show ?case
  proof (cases "mime_parseparam s")
    case None
    then show ?thesis
      using "1.prems" by (simp add: check_params.simps)
  next
    case (Some p)
    obtain kv n where p: "p = (kv, n)"
      by (cases p)
    show ?thesis
    proof (cases kv)
      case None
      then show ?thesis
        using "1.prems" Some p by (simp add: check_params.simps [of version])
    next
      case (Some kv')
      obtain k u where kv: "kv' = (k, u)"
        by (cases kv')
      have m: "mime_parseparam s = Some (Some (k, u), n)"
        using \<open>mime_parseparam s = Some p\<close> p Some kv by simp
      then obtain t where "parse_value t = Some (u, n)"
        by (auto simp: mime_parseparam_def parse_param_def Let_def split: option.splits prod.splits if_splits)
      then have "clean u"
        by (rule parse_value_clean)
      then show ?thesis
        using "1.IH" [OF m refl refl refl] "1.prems" m by (simp add: check_params.simps [of version] split: if_splits)
    qed
  qed
qed

text \<open>C26. Whatever a peer sends, a version the parser hands on holds no control character but the
  tab, not even one smuggled in by an escape in a quoted string.\<close>

theorem mime_check_media_clean:
  assumes "mime_check_media buf sub = MIME_CHECK_OK (Some v)" "c \<in> set v" "iscntrl c"
  shows "c = TAB"
  using assms check_params_clean [of None _ v]
  by (auto simp: mime_check_media_def clean_def split: option.splits if_splits)

theorem mime_check_media_clean_witness:
  "\<exists>v. mime_check_media (''application/x; version='' @ [QUOTE, TAB, BACKSLASH, QUOTE, QUOTE]) ''x'' = MIME_CHECK_OK (Some v)
    \<and> (\<forall>c\<in>set v. iscntrl c \<longrightarrow> c = TAB)"
proof -
  have "mime_check_media (''application/x; version='' @ [QUOTE, TAB, BACKSLASH, QUOTE, QUOTE]) ''x''
      = MIME_CHECK_OK (Some [TAB, QUOTE])"
    by code_simp
  with mime_check_media_clean [OF this] show ?thesis
    by blast
qed

end
