(* ===== verification/Spec2Isabelle.thy ===== *)
theory Spec2Isabelle
  imports Serial Frame Bytebuf Fifo Frame_Ring Frame_List Wndfilter Mux_State Estimator Teardown Unacked Sched_Queue Egress
    Sched_Drain Lifecycle Base64 Mime
begin

text \<open>
  A verification of the core of multiplexd, a multiplexer that carries many TCP streams over one
  transport connection and keeps them alive when the transport is lost.

  \<^bold>\<open>The program.\<close>  A session (\<^verbatim>\<open>src/mux/session.c\<close>) owns a transport socket and a table of streams
  (\<^verbatim>\<open>stream.c\<close>).  The scheduler (\<^verbatim>\<open>sched.c\<close>) picks the stream that sends next; the send path
  (\<^verbatim>\<open>send.c\<close>, \<^verbatim>\<open>wire.c\<close>) packs frames into entries of a send queue; what has been written goes to
  the retransmit log (\<^verbatim>\<open>unacked.c\<close>) until the peer acknowledges it, and is replayed on a new
  transport when the session resumes.  The estimator (\<^verbatim>\<open>estimator.c\<close>) measures round trips and
  rates and sizes the windows.  Underneath lie frames, byte buffers, rings and lists
  (\<^verbatim>\<open>frame.h\<close>, \<^verbatim>\<open>frame.c\<close>) and parts of the csnippets library (\<^verbatim>\<open>contrib/csnippets\<close>).

  \<^bold>\<open>The build.\<close>  Plaintext, single-threaded, on x86-64, without assertions; logging is left out.
  Fixed-width integers are words, where the code lets them wrap; \<open>size_t\<close> values are naturals, with
  wrap-around written out where a length from outside reaches them (\<^verbatim>\<open>base64.c\<close>); the signed
  arithmetic of the estimator wraps at 64 bits (\<open>s64\<close>).  A \<open>double\<close> is a
  rational, rounded after every operation by the function of \<^verbatim>\<open>Cdouble\<close>.  Memory, the frame pool, the
  sockets, the clock and the callbacks of the application are scripts in the session's record: the
  \<open>n\<close>-th call yields the \<open>n\<close>-th answer, whatever it is, so the theorems hold for all answers.  The callbacks
  are limited in what they may do back to the session: an event handler is only told of the event
  (one that acts on the session from inside the call, as a redial may, is not modelled), and the
  application answers the report of a reset stream by closing that stream or not at all.  What the session does to the outside is appended to its field \<open>out\<close>.  The JSON codec of the
  hello messages is a parameter of the environment.

  \<^bold>\<open>The theories.\<close>
  \<^item> \<^verbatim>\<open>Mux_Prelude\<close>: types, collections of facts, generic lemmas on lists and words.
  \<^item> \<^verbatim>\<open>Serial\<close> (\<^verbatim>\<open>binary/serial.h\<close>): serial numbers; their order is generated by addition, and of
    two serials exactly one of before, after, equal or opposite holds.
  \<^item> \<^verbatim>\<open>Frame\<close> (\<^verbatim>\<open>frame.h\<close>, \<^verbatim>\<open>binary/serialize.h\<close>): headers, frames and the pool; the header
    codec is inverse in both directions.  The splitting of an entry into its frames, \<open>subframes\<close>, is no
    function of the code but the specification of an entry.
  \<^item> \<^verbatim>\<open>Bytebuf\<close>: the receive buffer; when reserving succeeds, what it keeps, and that an append is then possible.
  \<^item> \<^verbatim>\<open>Fifo\<close>, \<^verbatim>\<open>Frame_Ring\<close>, \<^verbatim>\<open>Frame_List\<close>: the interface of a queue as a locale, the circular
    ring with its growth, and the intrusive list on a store of pointers; both refine plain lists.
  \<^item> \<^verbatim>\<open>Wndfilter\<close> (\<^verbatim>\<open>algo/wndfilter.c\<close>): the windowed maximum after any history of samples, exactly
    in terms of its three choices and, while the history fits into the window, of the history.
  \<^item> \<^verbatim>\<open>Mux_State\<close>, \<^verbatim>\<open>Session_Base\<close>: the structs of the core as records, and the accessors of the headers.
  \<^item> \<^verbatim>\<open>Cdouble\<close>, \<^verbatim>\<open>Estimator\<close>: the 64-bit arithmetic of the estimator is exact for
    every measurement; its growth phase reaches the cap or ends.
  \<^item> \<^verbatim>\<open>Teardown\<close> (parts of \<^verbatim>\<open>session.c\<close>, \<^verbatim>\<open>stream.c\<close>, \<^verbatim>\<open>sched.c\<close>, \<^verbatim>\<open>wire.c\<close>): a reset returns every
    frame to the pool and closes every socket exactly once, and keeps as orphans just the streams that
    the application holds.
  \<^item> \<^verbatim>\<open>Unacked\<close>: the log as the list of unacknowledged frames; acknowledgement, resume and filing
    refine the operations on that list.
  \<^item> \<^verbatim>\<open>Sched_Queue\<close>, \<^verbatim>\<open>Sched\<close>, \<^verbatim>\<open>Sched_Inv\<close>, \<^verbatim>\<open>Sched_Drain\<close> (\<^verbatim>\<open>sched.c\<close>): the stream table and its ID
    allocator, the two queues, deficit round robin, the coalescing timer; that every operation
    keeps the links of the queues, and that the loops end.
  \<^item> \<^verbatim>\<open>Egress\<close> (\<^verbatim>\<open>send.c\<close>, \<^verbatim>\<open>wire.c\<close>): producers of control frames and the send queue; what is pushed is
    what is sent, and discarding a stream's frames is a filter.
  \<^item> \<^verbatim>\<open>Stream_Ops\<close>, \<^verbatim>\<open>Stream_Inv\<close>, \<^verbatim>\<open>Stream_Flow\<close> (\<^verbatim>\<open>stream.c\<close>): the operations of a stream, what they
    keep of the scheduler and how each cause moves a stream's state (\<open>good\<close>), and the receive path: data is delivered
    complete and in order, and no grant exceeds the window.
  \<^item> \<^verbatim>\<open>Suspend\<close> (\<^verbatim>\<open>session.c\<close>): the loss of a transport loses no stream and no frame.
  \<^item> \<^verbatim>\<open>Lifecycle\<close>: the events that drive streams and scheduler as a labelled step relation, the
    invariant of the scheduler in every reachable session, and the state machine of a stream, event by event.
  \<^item> \<^verbatim>\<open>Base64\<close> (\<^verbatim>\<open>codec/base64.c\<close>), \<^verbatim>\<open>Mime\<close> (\<^verbatim>\<open>net/mime.c\<close>, \<^verbatim>\<open>shim/util.c\<close>): the codecs of the
    handshake; decoding inverts encoding, sizes do not wrap, a parsed version is free of control
    characters.

  \<^bold>\<open>Naming.\<close>  Definitions keep the names of the C functions.  A field \<open>x\<close> of a struct that clashes
  with a name of the logic or of another struct carries a prefix (\<open>s_\<close> for streams, \<open>f_\<close> for
  frames, \<open>u_\<close> for the log).  The loop of a function is a definition of its own, named after what
  it does.  An operation on a stream takes the ID of the stream and looks it up in the table; a
  stream that is not there reads as a closed one.

  \<^bold>\<open>Bounds.\<close>  Loops are recursive functions with a termination proof.  Two run on fuel: the flush to
  a local socket on the number of buffered bytes, since each round writes at least one or stops,
  and the drain of the lifecycle queue on twice its length, since a stream comes back at most
  once.  For both, more fuel is proved to change nothing.  The ID allocator tries 32768 IDs, as the code does.

  \<^bold>\<open>Not modelled.\<close>  The dispatch of received frames (\<^verbatim>\<open>recv.c\<close>), the exchange of hellos
  (\<^verbatim>\<open>handshake.c\<close>), the pump that writes the send queue and replays the log, and the libev
  callbacks and most entry points (\<^verbatim>\<open>mux.c\<close>) around them: what they do to streams, scheduler, log
  and buffers they do through the operations modelled here.  TLS, the servers, tunnels and
  listeners, the configuration, the status page and the command line are input and output around
  the core.
\<close>

end
